(* ===== verification/Prelude.thy ===== *)
theory Prelude
  imports Main "HOL-Library.Sublist" "HOL-Library.Word" "HOL-Library.Code_Target_Numeral"
begin

section \<open>Prelude: bytes, strings and numbers as Go has them\<close>

text \<open>
  A Go \<open>string\<close> or \<open>[]byte\<close> is a sequence of bytes, and so is HOL's \<open>string\<close>: a list of
  8-bit \<open>char\<close>.  This theory holds what the packages under \<open>src/server\<close> use of Go's
  \<open>strings\<close>, \<open>bytes\<close> and \<open>strconv\<close>, with the lemmas the components share.

  Case mapping (\<open>strings.ToLower\<close>, \<open>strings.EqualFold\<close>) is Go's ASCII path: a byte above 127
  is left as it is.  White space (\<open>strings.TrimSpace\<close>, \<open>strings.Fields\<close>) is
  \<open>unicode.IsSpace\<close> in full, its two- and three-byte runes included; UTF-8 synchronises
  itself, so looking for their encodings at every byte finds exactly the runes Go decodes.
\<close>

unbundle bit_operations_syntax

named_theorems str_facts "lemmas on the string operations that component proofs rewrite with"

type_synonym bytes = string

abbreviation byte :: "char \<Rightarrow> nat" where
  "byte c \<equiv> of_char c"

subsection \<open>Byte classes and case\<close>

definition is_upper :: "char \<Rightarrow> bool" where
  "is_upper c \<longleftrightarrow> 65 \<le> byte c \<and> byte c \<le> 90"

definition is_lower :: "char \<Rightarrow> bool" where
  "is_lower c \<longleftrightarrow> 97 \<le> byte c \<and> byte c \<le> 122"

definition is_digit :: "char \<Rightarrow> bool" where
  "is_digit c \<longleftrightarrow> 48 \<le> byte c \<and> byte c \<le> 57"

definition is_alpha :: "char \<Rightarrow> bool" where
  "is_alpha c \<longleftrightarrow> is_lower c \<or> is_upper c"

definition is_alnum :: "char \<Rightarrow> bool" where
  "is_alnum c \<longleftrightarrow> is_alpha c \<or> is_digit c"

definition is_ascii :: "string \<Rightarrow> bool" where
  "is_ascii s \<longleftrightarrow> list_all (\<lambda>c. byte c < 128) s"

definition lower_char :: "char \<Rightarrow> char" where
  "lower_char c = (if is_upper c then char_of (byte c + 32) else c)"

definition to_lower :: "string \<Rightarrow> string" where
  "to_lower s = map lower_char s"

definition equal_fold :: "string \<Rightarrow> string \<Rightarrow> bool" where
  "equal_fold s t \<longleftrightarrow> to_lower s = to_lower t"

lemma byte_less [simp]: "byte c < 256"
  by (rule nat_of_char_less_256)

lemma byte_char_of [simp]: "n < 256 \<Longrightarrow> byte (char_of n) = n"
  by simp

lemma byte_eq_iff: "byte c = byte d \<longleftrightarrow> c = d"
  by simp

lemma byte_lower_char: "byte (lower_char c) = (if is_upper c then byte c + 32 else byte c)"
  by (simp add: lower_char_def is_upper_def)

lemma not_upper_lower_char [simp]: "\<not> is_upper (lower_char c)"
  by (auto simp: is_upper_def byte_lower_char)

lemma lower_char_idem [simp]: "lower_char (lower_char c) = lower_char c"
  by (metis lower_char_def not_upper_lower_char)

lemma lower_char_not_upper: "\<not> is_upper c \<Longrightarrow> lower_char c = c"
  by (simp add: lower_char_def)

lemma lower_char_eq_not_lower:
  assumes "\<not> is_lower d" "\<not> is_upper d"
  shows "lower_char c = d \<longleftrightarrow> c = d"
proof
  assume eq: "lower_char c = d"
  show "c = d"
  proof (cases "is_upper c")
    case True
    then have "is_lower d"
      using eq byte_lower_char [of c] by (auto simp: is_upper_def is_lower_def)
    with assms show ?thesis by simp
  qed (use eq in \<open>simp add: lower_char_def\<close>)
qed (use assms in \<open>simp add: lower_char_def\<close>)

lemma to_lower_simps [simp]:
  "to_lower [] = []"
  "to_lower (c # s) = lower_char c # to_lower s"
  "to_lower (s @ t) = to_lower s @ to_lower t"
  "length (to_lower s) = length s"
  "to_lower (to_lower s) = to_lower s"
  by (simp_all add: to_lower_def comp_def)

lemma to_lower_eq_Nil [simp]: "to_lower s = [] \<longleftrightarrow> s = []"
  by (simp add: to_lower_def)

lemma to_lower_take: "to_lower (take n s) = take n (to_lower s)"
  by (simp add: to_lower_def take_map)

lemma to_lower_drop: "to_lower (drop n s) = drop n (to_lower s)"
  by (simp add: to_lower_def drop_map)

lemma equal_fold_refl [simp]: "equal_fold s s"
  by (simp add: equal_fold_def)

lemma equal_fold_sym: "equal_fold s t \<Longrightarrow> equal_fold t s"
  by (simp add: equal_fold_def)

lemma equal_fold_trans [trans]: "equal_fold s t \<Longrightarrow> equal_fold t u \<Longrightarrow> equal_fold s u"
  by (simp add: equal_fold_def)

lemma equal_fold_to_lower [simp]: "equal_fold (to_lower s) t = equal_fold s t"
  "equal_fold s (to_lower t) = equal_fold s t"
  by (simp_all add: equal_fold_def)

subsection \<open>Prefixes, suffixes, searching\<close>

abbreviation has_prefix :: "string \<Rightarrow> string \<Rightarrow> bool" where
  "has_prefix s p \<equiv> prefix p s"

abbreviation has_suffix :: "string \<Rightarrow> string \<Rightarrow> bool" where
  "has_suffix s p \<equiv> suffix p s"

definition trim_prefix :: "string \<Rightarrow> string \<Rightarrow> string" where
  "trim_prefix s p = (if has_prefix s p then drop (length p) s else s)"

definition trim_suffix :: "string \<Rightarrow> string \<Rightarrow> string" where
  "trim_suffix s p = (if has_suffix s p then take (length s - length p) s else s)"

fun index_byte :: "string \<Rightarrow> char \<Rightarrow> nat option" where
  "index_byte [] c = None"
| "index_byte (x # xs) c = (if x = c then Some 0 else map_option Suc (index_byte xs c))"

text \<open>\<open>strings.Index\<close>, with a pattern of any length.\<close>

fun index_str :: "string \<Rightarrow> string \<Rightarrow> nat option" where
  "index_str [] p = (if p = [] then Some 0 else None)"
| "index_str (x # xs) p =
     (if has_prefix (x # xs) p then Some 0 else map_option Suc (index_str xs p))"

definition last_index_byte :: "string \<Rightarrow> char \<Rightarrow> nat option" where
  "last_index_byte s c = map_option (\<lambda>i. length s - Suc i) (index_byte (rev s) c)"

text \<open>\<open>strings.Contains\<close> for a pattern, \<open>strings.ContainsAny\<close> for a set of bytes.\<close>

definition contains_str :: "string \<Rightarrow> string \<Rightarrow> bool" where
  "contains_str s p \<longleftrightarrow> index_str s p \<noteq> None"

definition contains_any :: "string \<Rightarrow> string \<Rightarrow> bool" where
  "contains_any s cs \<longleftrightarrow> list_ex (\<lambda>c. List.member cs c) s"

text \<open>\<open>strings.Cut\<close> at a byte: before, after (empty when absent), found.\<close>

definition cut_byte :: "char \<Rightarrow> string \<Rightarrow> string \<times> string \<times> bool" where
  "cut_byte c s = (takeWhile (\<lambda>x. x \<noteq> c) s, tl (dropWhile (\<lambda>x. x \<noteq> c) s), List.member s c)"

fun split_byte :: "char \<Rightarrow> string \<Rightarrow> string list" where
  "split_byte c [] = [[]]"
| "split_byte c (x # xs) =
     (if x = c then [] # split_byte c xs
      else (case split_byte c xs of [] \<Rightarrow> [[x]] | y # ys \<Rightarrow> (x # y) # ys))"

fun join :: "string \<Rightarrow> string list \<Rightarrow> string" where
  "join sep [] = []"
| "join sep [x] = x"
| "join sep (x # y # ys) = x @ sep @ join sep (y # ys)"

text \<open>\<open>strings.ReplaceAll\<close> of a one-byte pattern; \<open>strings.Trim*\<close> with an ASCII cut set.\<close>

definition replace_byte :: "char \<Rightarrow> string \<Rightarrow> string \<Rightarrow> string" where
  "replace_byte c r s = concat (map (\<lambda>x. if x = c then r else [x]) s)"

definition trim_left_set :: "string \<Rightarrow> string \<Rightarrow> string" where
  "trim_left_set cs s = dropWhile (List.member cs) s"

definition trim_right_set :: "string \<Rightarrow> string \<Rightarrow> string" where
  "trim_right_set cs s = rev (dropWhile (List.member cs) (rev s))"

lemma prefix_take_iff: "prefix p s \<longleftrightarrow> take (length p) s = p"
  by (metis append_eq_conv_conj append_take_drop_id prefix_def)

lemma trim_prefix_append [simp]: "trim_prefix (p @ s) p = s"
  by (simp add: trim_prefix_def)

lemma trim_suffix_append [simp]: "trim_suffix (s @ p) p = s"
  by (simp add: trim_suffix_def suffix_def)

lemma index_byte_None [simp]: "index_byte s c = None \<longleftrightarrow> c \<notin> set s"
  by (induction s) auto

lemma index_byte_SomeD:
  "index_byte s c = Some i \<Longrightarrow> i < length s \<and> s ! i = c \<and> c \<notin> set (take i s)"
  by (induction s arbitrary: i) (auto split: if_splits)

lemma index_byte_Some_take: "index_byte s c = Some i \<Longrightarrow> take i s = takeWhile (\<lambda>x. x \<noteq> c) s"
  by (induction s arbitrary: i) (auto split: if_splits)

lemma index_byte_Some_drop: "index_byte s c = Some i \<Longrightarrow> drop i s = dropWhile (\<lambda>x. x \<noteq> c) s"
  by (induction s arbitrary: i) (auto split: if_splits)

lemma take_index_byte [str_facts]:
  "(case index_byte s c of None \<Rightarrow> s | Some i \<Rightarrow> take i s) = takeWhile (\<lambda>x. x \<noteq> c) s"
proof (cases "index_byte s c")
  case None
  then have "c \<notin> set s" by simp
  then have "takeWhile (\<lambda>x. x \<noteq> c) s = s" by (subst takeWhile_eq_all_conv) auto
  then show ?thesis by (simp only: None option.case)
next
  case (Some i)
  then show ?thesis by (simp add: index_byte_Some_take)
qed

lemma dropWhile_Cons_shorter:
  "dropWhile P s = c # r \<Longrightarrow> length r < length s"
  by (metis length_dropWhile_le Suc_le_eq length_Cons)

lemma index_byte_append_notin:
  "c \<notin> set s \<Longrightarrow> index_byte (s @ c # t) c = Some (length s)"
  by (induction s) auto

lemma index_str_SomeD:
  "index_str s p = Some i \<Longrightarrow> i \<le> length s \<and> prefix p (drop i s)"
  by (induction s arbitrary: i) (auto split: if_splits)

lemma index_str_Some_bound:
  assumes "index_str s p = Some i"
  shows "i + length p \<le> length s"
  using index_str_SomeD [OF assms] by (auto dest: prefix_length_le)

lemma index_str_None:
  "index_str s p = None \<Longrightarrow> \<not> prefix p (drop i s)"
  by (induction s arbitrary: i) (auto simp: drop_Cons split: if_splits nat.splits)

lemma index_str_first:
  "index_str s p = Some i \<Longrightarrow> j < i \<Longrightarrow> \<not> prefix p (drop j s)"
  by (induction s arbitrary: i j) (auto simp: drop_Cons split: if_splits nat.splits)

lemma split_byte_not_Nil [simp]: "split_byte c s \<noteq> []"
  by (induction s) (auto split: list.splits)

lemma split_byte_notin: "c \<notin> set s \<Longrightarrow> split_byte c s = [s]"
  by (induction s) auto

lemma split_byte_append: "c \<notin> set s \<Longrightarrow> split_byte c (s @ c # t) = s # split_byte c t"
  by (induction s) auto

lemma join_Cons: "join sep (x # ys) = (if ys = [] then x else x @ sep @ join sep ys)"
  by (cases ys) auto

lemma join_eq_Nil: "(\<And>x. x \<in> set xs \<Longrightarrow> x \<noteq> []) \<Longrightarrow> join sep xs = [] \<longleftrightarrow> xs = []"
  by (cases xs) (auto simp: join_Cons)

lemma set_join: "set (join sep xs) \<subseteq> set sep \<union> (\<Union>x\<in>set xs. set x)"
  by (induction sep xs rule: join.induct) auto

lemma split_byte_pieces: "x \<in> set (split_byte c s) \<Longrightarrow> c \<notin> set x"
  by (induction s arbitrary: x) (auto split: if_splits list.splits)

lemma split_byte_subset: "x \<in> set (split_byte c s) \<Longrightarrow> set x \<subseteq> set s"
  by (induction s arbitrary: x) (fastforce split: if_splits list.splits)+

lemma join_split_byte [str_facts]: "join [c] (split_byte c s) = s"
proof (induction s)
  case (Cons x s)
  show ?case
  proof (cases "split_byte c s")
    case Nil
    then show ?thesis by simp
  next
    case (Cons y ys)
    with Cons.IH show ?thesis by (cases ys) auto
  qed
qed simp

lemma split_byte_join [str_facts]:
  "xs \<noteq> [] \<Longrightarrow> (\<And>x. x \<in> set xs \<Longrightarrow> c \<notin> set x) \<Longrightarrow> split_byte c (join [c] xs) = xs"
  by (induction "[c]" xs rule: join.induct) (auto simp: split_byte_notin split_byte_append)

lemma replace_byte_simps [simp]:
  "replace_byte c r [] = []"
  "replace_byte c r (x # s) = (if x = c then r else [x]) @ replace_byte c r s"
  "replace_byte c r (s @ t) = replace_byte c r s @ replace_byte c r t"
  by (simp_all add: replace_byte_def)

lemma set_replace_byte: "set (replace_byte c r s) \<subseteq> (set s - {c}) \<union> set r"
  by (induction s) auto

lemma replace_byte_id: "c \<notin> set s \<Longrightarrow> replace_byte c r s = s"
  by (induction s) auto

lemma trim_left_set_suffix: "suffix (trim_left_set cs s) s"
  by (simp add: trim_left_set_def suffix_dropWhile)

subsection \<open>White space\<close>

definition is_ascii_space :: "char \<Rightarrow> bool" where
  "is_ascii_space c \<longleftrightarrow> byte c = 32 \<or> 9 \<le> byte c \<and> byte c \<le> 13"

text \<open>The number of bytes of the white-space rune a string starts with, 0 if it has none.\<close>

definition space3 :: "nat \<Rightarrow> nat \<Rightarrow> nat \<Rightarrow> bool" where
  "space3 a b c \<longleftrightarrow>
     a = 0xE1 \<and> b = 0x9A \<and> c = 0x80 \<or>
     a = 0xE2 \<and> b = 0x80 \<and> (0x80 \<le> c \<and> c \<le> 0x8A \<or> c = 0xA8 \<or> c = 0xA9 \<or> c = 0xAF) \<or>
     a = 0xE2 \<and> b = 0x81 \<and> c = 0x9F \<or>
     a = 0xE3 \<and> b = 0x80 \<and> c = 0x80"

fun space_len :: "string \<Rightarrow> nat" where
  "space_len [] = 0"
| "space_len (a # s) =
     (if is_ascii_space a then 1
      else case s of
        [] \<Rightarrow> 0
      | b # s' \<Rightarrow>
          if byte a = 0xC2 \<and> (byte b = 0x85 \<or> byte b = 0xA0) then 2
          else case s' of [] \<Rightarrow> 0 | c # _ \<Rightarrow> if space3 (byte a) (byte b) (byte c) then 3 else 0)"

text \<open>The same at the end of a string, which is given in reverse.\<close>

fun rspace_len :: "string \<Rightarrow> nat" where
  "rspace_len [] = 0"
| "rspace_len (a # s) =
     (if is_ascii_space a then 1
      else case s of
        [] \<Rightarrow> 0
      | b # s' \<Rightarrow>
          if byte b = 0xC2 \<and> (byte a = 0x85 \<or> byte a = 0xA0) then 2
          else case s' of [] \<Rightarrow> 0 | c # _ \<Rightarrow> if space3 (byte c) (byte b) (byte a) then 3 else 0)"

lemma space_len_le: "space_len s \<le> length s"
  by (cases s rule: space_len.cases) (auto split: list.splits)

lemma rspace_len_le: "rspace_len s \<le> length s"
  by (cases s rule: rspace_len.cases) (auto split: list.splits)

function trim_left :: "string \<Rightarrow> string" where
  "trim_left s = (if space_len s = 0 then s else trim_left (drop (space_len s) s))"
  by pat_completeness auto
termination
proof (relation "measure length")
  fix s :: string
  assume "space_len s \<noteq> 0"
  then show "(drop (space_len s) s, s) \<in> measure length"
    using space_len_le [of s] by simp
qed simp

function rtrim_left :: "string \<Rightarrow> string" where
  "rtrim_left s = (if rspace_len s = 0 then s else rtrim_left (drop (rspace_len s) s))"
  by pat_completeness auto
termination
proof (relation "measure length")
  fix s :: string
  assume "rspace_len s \<noteq> 0"
  then show "(drop (rspace_len s) s, s) \<in> measure length"
    using rspace_len_le [of s] by simp
qed simp

declare trim_left.simps [simp del] rtrim_left.simps [simp del]

definition trim_right :: "string \<Rightarrow> string" where
  "trim_right s = rev (rtrim_left (rev s))"

definition trim_space :: "string \<Rightarrow> string" where
  "trim_space s = trim_right (trim_left s)"

function fields_aux :: "string \<Rightarrow> string \<Rightarrow> string list" where
  "fields_aux cur [] = (if cur = [] then [] else [rev cur])"
| "fields_aux cur (a # s) =
     (if space_len (a # s) = 0 then fields_aux (a # cur) s
      else (if cur = [] then [] else [rev cur]) @ fields_aux [] (drop (space_len (a # s)) (a # s)))"
  by pat_completeness auto
termination
proof (relation "measure (length \<circ> snd)")
  fix cur s :: string and a
  assume "space_len (a # s) \<noteq> 0"
  then show "(([], drop (space_len (a # s)) (a # s)), cur, a # s) \<in> measure (length \<circ> snd)"
    using space_len_le [of "a # s"] by simp
qed auto

declare fields_aux.simps(2) [simp del]

definition fields :: "string \<Rightarrow> string list" where
  "fields s = fields_aux [] s"

lemma trim_left_suffix: "suffix (trim_left s) s"
proof (induction s rule: trim_left.induct)
  case (1 s)
  show ?case
  proof (cases "space_len s = 0")
    case False
    with 1 have "suffix (trim_left (drop (space_len s) s)) s"
      by (metis suffix_drop suffix_order.trans)
    with False show ?thesis by (simp add: trim_left.simps [of s])
  qed (simp add: trim_left.simps [of s])
qed

lemma rtrim_left_suffix: "suffix (rtrim_left s) s"
proof (induction s rule: rtrim_left.induct)
  case (1 s)
  show ?case
  proof (cases "rspace_len s = 0")
    case False
    with 1 have "suffix (rtrim_left (drop (rspace_len s) s)) s"
      by (metis suffix_drop suffix_order.trans)
    with False show ?thesis by (simp add: rtrim_left.simps [of s])
  qed (simp add: rtrim_left.simps [of s])
qed

lemma trim_right_prefix: "prefix (trim_right s) s"
  using rtrim_left_suffix [of "rev s"] by (simp add: trim_right_def suffix_to_prefix)

lemma set_trim_space: "set (trim_space s) \<subseteq> set s"
  unfolding trim_space_def
  by (meson set_mono_prefix set_mono_suffix subset_trans trim_left_suffix trim_right_prefix)

lemma trim_space_Nil [simp]: "trim_space [] = []"
  by (simp add: trim_space_def trim_right_def trim_left.simps [of "[]"] rtrim_left.simps [of "[]"])

text \<open>A field is not empty and holds no ASCII white space.\<close>

definition token :: "string \<Rightarrow> bool" where
  "token t \<longleftrightarrow> t \<noteq> [] \<and> list_all (\<lambda>c. \<not> is_ascii_space c) t"

lemma token_fields_aux:
  "list_all (\<lambda>c. \<not> is_ascii_space c) cur \<Longrightarrow> t \<in> set (fields_aux cur s) \<Longrightarrow> token t"
proof (induction cur s rule: fields_aux.induct)
  case (1 cur)
  then show ?case by (auto simp: token_def split: if_splits)
next
  case (2 cur a s)
  show ?case
  proof (cases "space_len (a # s) = 0")
    case True
    then have "\<not> is_ascii_space a" by (auto split: if_splits)
    with True 2 show ?thesis by (simp add: fields_aux.simps(2))
  next
    case False
    with "2.IH"(2) "2.prems" show ?thesis
      by (auto simp: fields_aux.simps(2) token_def split: if_splits)
  qed
qed

lemma token_fields: "t \<in> set (fields s) \<Longrightarrow> token t"
  unfolding fields_def by (rule token_fields_aux) auto

subsection \<open>Unsigned numbers in base 10 and 16\<close>

definition digit_char :: "nat \<Rightarrow> char" where
  "digit_char d = (if d < 10 then char_of (48 + d) else char_of (87 + d))"

definition digit_val :: "char \<Rightarrow> nat" where
  "digit_val c = (if is_digit c then byte c - 48 else byte c - 87)"

text \<open>\<open>strconv.FormatUint\<close>, for a base from 2 to 16 (\<open>2 \<le> b\<close> makes it stop).\<close>

fun format_uint :: "nat \<Rightarrow> nat \<Rightarrow> string" where
  "format_uint b n =
     (if b < 2 \<or> n < b then [digit_char n] else format_uint b (n div b) @ [digit_char (n mod b)])"

declare format_uint.simps [simp del]

definition digits_val :: "nat \<Rightarrow> string \<Rightarrow> nat" where
  "digits_val b s = foldl (\<lambda>acc c. acc * b + digit_val c) 0 s"

definition itoa :: "nat \<Rightarrow> string" where
  "itoa n = format_uint 10 n"

text \<open>\<open>strconv.Atoi\<close>: an optional sign and decimal digits, within 64 bits.\<close>

definition atoi :: "string \<Rightarrow> int option" where
  "atoi s =
     (let neg = has_prefix s ''-''; ds = (if neg \<or> has_prefix s ''+'' then tl s else s);
          v = (if neg then - int (digits_val 10 ds) else int (digits_val 10 ds))
      in if ds \<noteq> [] \<and> list_all is_digit ds \<and> - (2 ^ 63) \<le> v \<and> v < 2 ^ 63 then Some v else None)"

lemma digit_val_char [simp]: "d < 16 \<Longrightarrow> digit_val (digit_char d) = d"
  by (simp add: digit_val_def digit_char_def is_digit_def)

lemma digit_char_hex: "d < 16 \<Longrightarrow> is_digit (digit_char d) \<or> is_lower (digit_char d)"
  by (simp add: digit_char_def is_digit_def is_lower_def)

lemma digits_val_format_uint:
  "2 \<le> b \<Longrightarrow> b \<le> 16 \<Longrightarrow> digits_val b (format_uint b n) = n"
proof (induction b n rule: format_uint.induct)
  case (1 b n)
  show ?case
  proof (cases "n < b")
    case True
    with 1 show ?thesis by (simp add: format_uint.simps [of b n] digits_val_def)
  next
    case False
    with 1 have "digits_val b (format_uint b (n div b)) = n div b" by simp
    moreover have "n mod b < 16"
      by (rule less_le_trans [OF mod_less_divisor]) (use "1.prems" in auto)
    ultimately show ?thesis
      using False "1.prems" by (simp add: format_uint.simps [of b n] digits_val_def)
  qed
qed

lemma format_uint_inj:
  "2 \<le> b \<Longrightarrow> b \<le> 16 \<Longrightarrow> format_uint b m = format_uint b n \<longleftrightarrow> m = n"
  by (metis digits_val_format_uint)

lemma format_uint_not_Nil [simp]: "format_uint b n \<noteq> []"
  by (subst format_uint.simps) simp

lemma format_uint_chars:
  "2 \<le> b \<Longrightarrow> b \<le> 16 \<Longrightarrow> c \<in> set (format_uint b n) \<Longrightarrow> \<exists>d<16. c = digit_char d"
proof (induction b n arbitrary: c rule: format_uint.induct)
  case (1 b n)
  have "n mod b < 16"
    by (rule less_le_trans [OF mod_less_divisor]) (use "1.prems" in auto)
  moreover have "n < 16" if "n < b"
    using that "1.prems" by simp
  ultimately show ?case
    using 1 by (cases "n < b") (fastforce simp: format_uint.simps [of b n])+
qed

subsection \<open>Positional numbers and words\<close>

lemma div_eq_iff_range: "0 < k \<Longrightarrow> (x::nat) div k = m \<longleftrightarrow> m * k \<le> x \<and> x < m * k + k"
  by (metis add.commute div_nat_eqI dividend_less_div_times mult.commute mult_Suc
      times_div_less_eq_dividend)

lemma digit_range:
  fixes a b :: nat
  assumes "b < 256" "B1 < 256" "B2 < 256"
  shows "A * 256 + B1 \<le> a * 256 + b \<and> a * 256 + b \<le> A * 256 + B2 \<longleftrightarrow> a = A \<and> B1 \<le> b \<and> b \<le> B2"
proof
  assume *: "A * 256 + B1 \<le> a * 256 + b \<and> a * 256 + b \<le> A * 256 + B2"
  with assms have "a = A" by linarith
  with * show "a = A \<and> B1 \<le> b \<and> b \<le> B2" by simp
qed auto

lemma digit_eq:
  fixes a b :: nat
  assumes "b < k" "B < k"
  shows "a * k + b = A * k + B \<longleftrightarrow> a = A \<and> b = B"
  using assms by (metis add.commute add_right_cancel div_mult_self3 div_less mult.commute
      not_less_zero add_cancel_right_left)

lemma unat_drop_bit_div: "unat (drop_bit n (w::'a::len word)) = unat w div 2 ^ n"
  unfolding unat_drop_bit_eq by (rule drop_bit_eq_div)

lemma unat_take_bit_mod: "unat (take_bit n (w::'a::len word)) = unat w mod 2 ^ n"
  by (rule trans [OF unsigned_take_bit_eq take_bit_eq_mod])

lemma drop_bit_xor_eq_0:
  "drop_bit n (x XOR y) = 0 \<longleftrightarrow> drop_bit n x = drop_bit n (y::'a::len word)"
  by (simp add: bit_eq_iff bit_simps)

lemma and_push_bit: "x AND push_bit n y = push_bit n (drop_bit n x AND (y::nat))"
  by (rule bit_eqI) (auto simp: bit_simps)

end
