(* ===== verification/Go_URL.thy ===== *)
theory Go_URL
  imports Prelude
begin

section \<open>net/url\<close>

text \<open>
  The part of Go 1.25's \<open>net/url\<close> the proxy uses: \<open>url.Parse\<close>, \<open>URL.String\<close>,
  \<open>URL.ResolveReference\<close>, \<open>URL.EscapedPath\<close>, \<open>URL.Hostname\<close>, \<open>URL.Port\<close>, and
  \<open>net.SplitHostPort\<close> and \<open>net.JoinHostPort\<close>.  A parse error is \<open>None\<close>: no caller
  looks at anything but its presence.
\<close>

datatype userinfo = UserOnly string | UserPassword string string

record url =
  Scheme :: string
  Opaque :: string
  User :: "userinfo option"
  Host :: string
  Path :: string
  RawPath :: string
  OmitHost :: bool
  ForceQuery :: bool
  RawQuery :: string
  Fragment :: string
  RawFragment :: string

definition empty_url :: url where
  "empty_url = \<lparr>Scheme = [], Opaque = [], User = None, Host = [], Path = [], RawPath = [],
     OmitHost = False, ForceQuery = False, RawQuery = [], Fragment = [], RawFragment = []\<rparr>"

datatype encoding = EncPath | EncHost | EncZone | EncUserPassword | EncFragment

subsection \<open>Escaping\<close>

definition is_hex :: "char \<Rightarrow> bool" where
  "is_hex c \<longleftrightarrow> is_digit c \<or> 97 \<le> byte c \<and> byte c \<le> 102 \<or> 65 \<le> byte c \<and> byte c \<le> 70"

definition unhex :: "char \<Rightarrow> nat" where
  "unhex c = (if is_digit c then byte c - 48
              else if 97 \<le> byte c then byte c - 87 else byte c - 55)"

definition upper_hex :: "nat \<Rightarrow> char" where
  "upper_hex d = (if d < 10 then char_of (48 + d) else char_of (55 + d))"

definition shouldEscape :: "encoding \<Rightarrow> char \<Rightarrow> bool" where
  "shouldEscape m c =
     (if is_alnum c then False
      else if (m = EncHost \<or> m = EncZone) \<and> List.member ''!$&'' c then False
      else if (m = EncHost \<or> m = EncZone) \<and> (byte c = 39 \<or> byte c = 34 \<or> List.member ''()*+,;=:[]<>'' c)
        then False
      else if List.member ''-_.~'' c then False
      else if List.member ''$&+,/:;=?@'' c \<and> m = EncPath then c = CHR ''?''
      else if List.member ''$&+,/:;=?@'' c \<and> m = EncUserPassword then List.member ''@/?:'' c
      else if List.member ''$&+,/:;=?@'' c \<and> m = EncFragment then False
      else if m = EncFragment \<and> List.member ''!()*'' c then False
      else True)"

definition escape_char :: "encoding \<Rightarrow> char \<Rightarrow> string" where
  "escape_char m c =
     (if shouldEscape m c then [CHR ''%'', upper_hex (byte c div 16), upper_hex (byte c mod 16)]
      else [c])"

definition escape :: "encoding \<Rightarrow> string \<Rightarrow> string" where
  "escape m s = concat (map (escape_char m) s)"

text \<open>Which percent triplets \<open>unescape\<close> lets through in the two host modes.\<close>

definition hex_pair_ok :: "encoding \<Rightarrow> char \<Rightarrow> char \<Rightarrow> bool" where
  "hex_pair_ok m h l \<longleftrightarrow>
     is_hex h \<and> is_hex l \<and>
     (m = EncHost \<longrightarrow> 8 \<le> unhex h \<or> h = CHR ''2'' \<and> l = CHR ''5'') \<and>
     (m = EncZone \<longrightarrow> h = CHR ''2'' \<and> l = CHR ''5'' \<or> unhex h * 16 + unhex l = 32 \<or>
        \<not> shouldEscape EncHost (char_of (unhex h * 16 + unhex l)))"

fun unescape :: "encoding \<Rightarrow> string \<Rightarrow> string option" where
  "unescape m [] = Some []"
| "unescape m (c # s) =
     (if c = CHR ''%'' then
        (case s of
           h # l # r \<Rightarrow>
             if hex_pair_ok m h l
             then map_option (\<lambda>t. char_of (unhex h * 16 + unhex l) # t) (unescape m r)
             else None
         | _ \<Rightarrow> None)
      else if (m = EncHost \<or> m = EncZone) \<and> byte c < 128 \<and> shouldEscape m c then None
      else map_option (\<lambda>t. c # t) (unescape m s))"

definition validEncoded :: "encoding \<Rightarrow> string \<Rightarrow> bool" where
  "validEncoded m s \<longleftrightarrow>
     list_all (\<lambda>c. List.member ''!$&()*+,;=:@[]%'' c \<or> byte c = 39 \<or> \<not> shouldEscape m c) s"

subsection \<open>Hosts and ports\<close>

definition validOptionalPort :: "string \<Rightarrow> bool" where
  "validOptionalPort p =
     (case p of [] \<Rightarrow> True | c # ds \<Rightarrow> c = CHR '':'' \<and> list_all is_digit ds)"

definition splitHostPort :: "string \<Rightarrow> string \<times> string" where
  "splitHostPort hp =
     (let (host, port) =
        (case last_index_byte hp CHR '':'' of
           None \<Rightarrow> (hp, [])
         | Some i \<Rightarrow> if validOptionalPort (drop i hp) then (take i hp, drop (Suc i) hp) else (hp, []))
      in (if has_prefix host ''['' \<and> has_suffix host '']''
          then take (length host - 2) (drop 1 host) else host, port))"

definition Hostname :: "url \<Rightarrow> string" where
  "Hostname u = fst (splitHostPort (Host u))"

definition Port :: "url \<Rightarrow> string" where
  "Port u = snd (splitHostPort (Host u))"

definition parseHost :: "string \<Rightarrow> string option" where
  "parseHost host =
     (if has_prefix host ''['' then
        (case last_index_byte host CHR '']'' of
           None \<Rightarrow> None
         | Some i \<Rightarrow>
             if \<not> validOptionalPort (drop (Suc i) host) then None
             else case index_str (take i host) ''%25'' of
                 None \<Rightarrow> unescape EncHost host
               | Some z \<Rightarrow>
                   (case (unescape EncHost (take z host), unescape EncZone (take (i - z) (drop z host)),
                          unescape EncHost (drop i host)) of
                      (Some a, Some b, Some c) \<Rightarrow> Some (a @ b @ c)
                    | _ \<Rightarrow> None))
      else case last_index_byte host CHR '':'' of
          None \<Rightarrow> unescape EncHost host
        | Some i \<Rightarrow> if validOptionalPort (drop i host) then unescape EncHost host else None)"

definition validUserinfo :: "string \<Rightarrow> bool" where
  "validUserinfo s \<longleftrightarrow>
     list_all (\<lambda>c. is_alnum c \<or> byte c = 39 \<or> List.member ''-._:~!$&()*+,;=%@'' c) s"

definition parseAuthority :: "string \<Rightarrow> (userinfo option \<times> string) option" where
  "parseAuthority a =
     (case last_index_byte a CHR ''@'' of
        None \<Rightarrow> map_option (\<lambda>h. (None, h)) (parseHost a)
      | Some i \<Rightarrow>
          (case parseHost (drop (Suc i) a) of
             None \<Rightarrow> None
           | Some h \<Rightarrow>
               let ui = take i a in
               if \<not> validUserinfo ui then None
               else let (name, pw, colon) = cut_byte CHR '':'' ui in
                 if \<not> colon then map_option (\<lambda>n. (Some (UserOnly n), h)) (unescape EncUserPassword ui)
                 else case (unescape EncUserPassword name, unescape EncUserPassword pw) of
                     (Some n, Some p) \<Rightarrow> Some (Some (UserPassword n p), h)
                   | _ \<Rightarrow> None))"

subsection \<open>Parsing\<close>

definition scheme_char :: "char \<Rightarrow> bool" where
  "scheme_char c \<longleftrightarrow> is_digit c \<or> List.member ''+-.'' c"

text \<open>\<open>getScheme\<close>: \<open>None\<close> for a missing scheme (a leading colon), otherwise scheme and rest.\<close>

fun getScheme_from :: "string \<Rightarrow> string \<Rightarrow> string \<Rightarrow> (string \<times> string) option" where
  "getScheme_from raw seen [] = Some ([], raw)"
| "getScheme_from raw seen (c # s) =
     (if is_alpha c then getScheme_from raw (c # seen) s
      else if scheme_char c then
        (if seen = [] then Some ([], raw) else getScheme_from raw (c # seen) s)
      else if c = CHR '':'' then (if seen = [] then None else Some (rev seen, s))
      else Some ([], raw))"

definition getScheme :: "string \<Rightarrow> (string \<times> string) option" where
  "getScheme raw = getScheme_from raw [] raw"

definition is_ctl :: "char \<Rightarrow> bool" where
  "is_ctl c \<longleftrightarrow> byte c < 32 \<or> byte c = 127"

definition setPath :: "url \<Rightarrow> string \<Rightarrow> url option" where
  "setPath u p =
     (case unescape EncPath p of
        None \<Rightarrow> None
      | Some path \<Rightarrow>
          Some (u\<lparr>Path := path, RawPath := (if p = escape EncPath path then [] else p)\<rparr>))"

definition setFragment :: "url \<Rightarrow> string \<Rightarrow> url option" where
  "setFragment u f =
     (case unescape EncFragment f of
        None \<Rightarrow> None
      | Some frag \<Rightarrow>
          Some (u\<lparr>Fragment := frag, RawFragment := (if f = escape EncFragment frag then [] else f)\<rparr>))"

definition parse_query :: "string \<Rightarrow> string \<times> string \<times> bool" where
  "parse_query rest =
     (if has_suffix rest ''?'' \<and> count_list rest CHR ''?'' = 1
      then (butlast rest, [], True)
      else let (a, q, _) = cut_byte CHR ''?'' rest in (a, q, False))"

definition parse_nofrag :: "string \<Rightarrow> url option" where
  "parse_nofrag raw =
     (if list_ex is_ctl raw then None
      else if raw = ''*'' then Some (empty_url\<lparr>Path := ''*''\<rparr>)
      else case getScheme raw of
        None \<Rightarrow> None
      | Some (scheme0, rest0) \<Rightarrow>
          let scheme = to_lower scheme0; (rest, query, force) = parse_query rest0;
              u = empty_url\<lparr>Scheme := scheme, ForceQuery := force, RawQuery := query\<rparr>
          in if \<not> has_prefix rest ''/'' \<and> scheme \<noteq> [] then Some (u\<lparr>Opaque := rest\<rparr>)
             else if \<not> has_prefix rest ''/'' \<and> List.member (takeWhile (\<lambda>c. c \<noteq> CHR ''/'') rest) CHR '':''
               then None
             else if (scheme \<noteq> [] \<or> \<not> has_prefix rest ''///'') \<and> has_prefix rest ''//'' then
               (let auth = takeWhile (\<lambda>c. c \<noteq> CHR ''/'') (drop 2 rest);
                    path = dropWhile (\<lambda>c. c \<noteq> CHR ''/'') (drop 2 rest)
                in case parseAuthority auth of
                     None \<Rightarrow> None
                   | Some (user, host) \<Rightarrow> setPath (u\<lparr>User := user, Host := host\<rparr>) path)
             else if scheme \<noteq> [] \<and> has_prefix rest ''/'' then setPath (u\<lparr>OmitHost := True\<rparr>) rest
             else setPath u rest)"

definition url_Parse :: "string \<Rightarrow> url option" where
  "url_Parse raw =
     (let (u, frag, _) = cut_byte CHR ''#'' raw in
      case parse_nofrag u of
        None \<Rightarrow> None
      | Some url \<Rightarrow> if frag = [] then Some url else setFragment url frag)"

subsection \<open>Printing\<close>

definition EscapedPath :: "url \<Rightarrow> string" where
  "EscapedPath u =
     (if RawPath u \<noteq> [] \<and> validEncoded EncPath (RawPath u) \<and> unescape EncPath (RawPath u) = Some (Path u)
      then RawPath u
      else if Path u = ''*'' then ''*''
      else escape EncPath (Path u))"

definition EscapedFragment :: "url \<Rightarrow> string" where
  "EscapedFragment u =
     (if RawFragment u \<noteq> [] \<and> validEncoded EncFragment (RawFragment u) \<and>
         unescape EncFragment (RawFragment u) = Some (Fragment u)
      then RawFragment u
      else escape EncFragment (Fragment u))"

definition userinfo_String :: "userinfo \<Rightarrow> string" where
  "userinfo_String ui =
     (case ui of
        UserOnly n \<Rightarrow> escape EncUserPassword n
      | UserPassword n p \<Rightarrow>
          if n = [] \<and> p = [] then []
          else escape EncUserPassword n @ '':'' @ escape EncUserPassword p)"

definition authority_String :: "url \<Rightarrow> string" where
  "authority_String u =
     (if Scheme u \<noteq> [] \<or> Host u \<noteq> [] \<or> User u \<noteq> None then
        (if OmitHost u \<and> Host u = [] \<and> User u = None then []
         else (if Host u \<noteq> [] \<or> Path u \<noteq> [] \<or> User u \<noteq> None then ''//'' else []) @
              (case User u of None \<Rightarrow> [] | Some ui \<Rightarrow> userinfo_String ui @ ''@'') @
              escape EncHost (Host u))
      else [])"

definition url_String :: "url \<Rightarrow> string" where
  "url_String u =
     (let sch = (if Scheme u \<noteq> [] then Scheme u @ '':'' else []);
          auth = authority_String u;
          path = EscapedPath u;
          slash = (if path \<noteq> [] \<and> \<not> has_prefix path ''/'' \<and> Host u \<noteq> [] then ''/'' else []);
          dot = (if sch @ auth @ slash = [] \<and>
                    List.member (takeWhile (\<lambda>c. c \<noteq> CHR ''/'') path) CHR '':'' then ''./'' else [])
      in (if Opaque u \<noteq> [] then sch @ Opaque u else sch @ auth @ slash @ dot @ path) @
         (if ForceQuery u \<or> RawQuery u \<noteq> [] then ''?'' @ RawQuery u else []) @
         (if Fragment u \<noteq> [] then ''#'' @ EscapedFragment u else []))"

subsection \<open>Resolving a reference\<close>

fun resolve_elems :: "bool \<Rightarrow> string \<Rightarrow> string list \<Rightarrow> string" where
  "resolve_elems first dst [] = dst"
| "resolve_elems first dst (e # es) =
     (if e = ''.'' then resolve_elems False dst es
      else if e = ''..'' then
        (case last_index_byte (tl dst) CHR ''/'' of
           None \<Rightarrow> resolve_elems True ''/'' es
         | Some i \<Rightarrow> resolve_elems first (''/'' @ take i (tl dst)) es)
      else resolve_elems False (dst @ (if first then [] else ''/'') @ e) es)"

definition resolvePath :: "string \<Rightarrow> string \<Rightarrow> string" where
  "resolvePath base ref =
     (let full = (if ref = [] then base
                  else if \<not> has_prefix ref ''/'' then
                    (case last_index_byte base CHR ''/'' of None \<Rightarrow> [] | Some i \<Rightarrow> take (Suc i) base) @ ref
                  else ref)
      in if full = [] then []
         else let elems = split_byte CHR ''/'' full;
                  r0 = resolve_elems True ''/'' elems;
                  r = (if last elems = ''.'' \<or> last elems = ''..'' then r0 @ ''/'' else r0)
              in if has_prefix r ''//'' then drop 1 r else r)"

text \<open>\<open>setPath\<close> with its error dropped, as \<open>ResolveReference\<close> calls it.\<close>

definition setPath_ignore :: "url \<Rightarrow> string \<Rightarrow> url" where
  "setPath_ignore u p = (case setPath u p of None \<Rightarrow> u | Some v \<Rightarrow> v)"

definition ResolveReference :: "url \<Rightarrow> url \<Rightarrow> url" where
  "ResolveReference u ref =
     (let url0 = (if Scheme ref = [] then ref\<lparr>Scheme := Scheme u\<rparr> else ref) in
      if Scheme ref \<noteq> [] \<or> Host ref \<noteq> [] \<or> User ref \<noteq> None
        then setPath_ignore url0 (resolvePath (EscapedPath ref) [])
      else if Opaque ref \<noteq> [] then url0\<lparr>User := None, Host := [], Path := []\<rparr>
      else
        let url1 = (if Path ref = [] \<and> \<not> ForceQuery ref \<and> RawQuery ref = []
                    then (let v = url0\<lparr>RawQuery := RawQuery u\<rparr> in
                          if Fragment ref = []
                          then v\<lparr>Fragment := Fragment u, RawFragment := RawFragment u\<rparr> else v)
                    else url0)
        in if Path ref = [] \<and> Opaque u \<noteq> []
             then url1\<lparr>Opaque := Opaque u, User := None, Host := [], Path := []\<rparr>
           else setPath_ignore (url1\<lparr>Host := Host u, User := User u\<rparr>)
                  (resolvePath (EscapedPath u) (EscapedPath ref)))"

subsection \<open>net.SplitHostPort and net.JoinHostPort\<close>

text \<open>\<open>None\<close> is an error: no port, too many colons, or misplaced brackets.\<close>

definition net_SplitHostPort :: "string \<Rightarrow> (string \<times> string) option" where
  "net_SplitHostPort hp =
     (case last_index_byte hp CHR '':'' of
        None \<Rightarrow> None
      | Some i \<Rightarrow>
          if has_prefix hp ''['' then
            (case index_byte hp CHR '']'' of
               None \<Rightarrow> None
             | Some e \<Rightarrow>
                 if Suc e \<noteq> i then None
                 else let host = take (e - 1) (drop 1 hp)
                      in if List.member (drop 1 hp) CHR ''['' \<or> List.member (drop (Suc e) hp) CHR '']''
                         then None else Some (host, drop (Suc i) hp))
          else let host = take i hp in
            if List.member host CHR '':'' then None
            else if List.member hp CHR ''['' \<or> List.member hp CHR '']'' then None
            else Some (host, drop (Suc i) hp))"

definition net_JoinHostPort :: "string \<Rightarrow> string \<Rightarrow> string" where
  "net_JoinHostPort host port =
     (if List.member host CHR '':'' then ''['' @ host @ '']:'' @ port else host @ '':'' @ port)"

end
