(* ===== verification/Ssrfguard.thy ===== *)
theory Ssrfguard
  imports Go_URL
begin

unbundle bit_operations_syntax

section \<open>The SSRF guard (internal/proxy/ssrfguard)\<close>

text \<open>
  \<open>Control\<close> runs on the concrete address a dialer is about to connect to.  An address is a
  value of Go's \<open>net/netip\<close>: the zero value, an IPv4 address of 32 bits or an IPv6 address of
  128 bits with a zone (empty when it has none).  The predicates of \<open>netip.Addr\<close> that
  \<open>IsPublic\<close> calls, \<open>netip.Prefix.Contains\<close> and \<open>netip.ParseAddr\<close> are written as Go's library
  defines them, bit tests included.
\<close>

type_synonym v4 = "32 word"
type_synonym v6 = "128 word"

datatype addr = NoAddr | V4 v4 | V6 v6 string

datatype ip_prefix = P4 v4 nat | P6 v6 nat

subsection \<open>netip.Addr\<close>

definition v4_octet :: "v4 \<Rightarrow> nat \<Rightarrow> v4" where
  "v4_octet w i = drop_bit (24 - 8 * i) w AND 0xFF"

definition v6_octet :: "v6 \<Rightarrow> nat \<Rightarrow> v6" where
  "v6_octet w i = drop_bit (120 - 8 * i) w AND 0xFF"

definition v6_u16 :: "v6 \<Rightarrow> nat \<Rightarrow> v6" where
  "v6_u16 w i = drop_bit (112 - 16 * i) w AND 0xFFFF"

fun IsValid :: "addr \<Rightarrow> bool" where
  "IsValid NoAddr = False"
| "IsValid _ = True"

definition Is4In6 :: "v6 \<Rightarrow> bool" where
  "Is4In6 w \<longleftrightarrow> drop_bit 32 w = 0xFFFF"

fun Unmap :: "addr \<Rightarrow> addr" where
  "Unmap (V6 w z) = (if Is4In6 w then V4 (ucast w) else V6 w z)"
| "Unmap a = a"

fun IsLoopback :: "addr \<Rightarrow> bool" where
  "IsLoopback (V4 w) = (v4_octet w 0 = 127)"
| "IsLoopback (V6 w z) = (w = 1)"
| "IsLoopback NoAddr = False"

fun IsPrivate :: "addr \<Rightarrow> bool" where
  "IsPrivate (V4 w) =
     (v4_octet w 0 = 10 \<or> v4_octet w 0 = 172 \<and> v4_octet w 1 AND 0xF0 = 16 \<or>
      v4_octet w 0 = 192 \<and> v4_octet w 1 = 168)"
| "IsPrivate (V6 w z) = (v6_octet w 0 AND 0xFE = 0xFC)"
| "IsPrivate NoAddr = False"

definition IsUnspecified :: "addr \<Rightarrow> bool" where
  "IsUnspecified a \<longleftrightarrow> a = V4 0 \<or> a = V6 0 []"

fun IsLinkLocalUnicast :: "addr \<Rightarrow> bool" where
  "IsLinkLocalUnicast (V4 w) = (v4_octet w 0 = 169 \<and> v4_octet w 1 = 254)"
| "IsLinkLocalUnicast (V6 w z) = (v6_u16 w 0 AND 0xFFC0 = 0xFE80)"
| "IsLinkLocalUnicast NoAddr = False"

fun IsLinkLocalMulticast :: "addr \<Rightarrow> bool" where
  "IsLinkLocalMulticast (V4 w) = (v4_octet w 0 = 224 \<and> v4_octet w 1 = 0 \<and> v4_octet w 2 = 0)"
| "IsLinkLocalMulticast (V6 w z) = (v6_u16 w 0 AND 0xFF0F = 0xFF02)"
| "IsLinkLocalMulticast NoAddr = False"

fun IsMulticast :: "addr \<Rightarrow> bool" where
  "IsMulticast (V4 w) = (v4_octet w 0 AND 0xF0 = 0xE0)"
| "IsMulticast (V6 w z) = (drop_bit 120 w = 0xFF)"
| "IsMulticast NoAddr = False"

fun IsInterfaceLocalMulticast :: "addr \<Rightarrow> bool" where
  "IsInterfaceLocalMulticast (V6 w z) = (\<not> Is4In6 w \<and> v6_u16 w 0 AND 0xFF0F = 0xFF01)"
| "IsInterfaceLocalMulticast _ = False"

text \<open>A prefix never contains an address with a zone.\<close>

fun Contains :: "ip_prefix \<Rightarrow> addr \<Rightarrow> bool" where
  "Contains (P4 p n) (V4 w) = (drop_bit (32 - n) (w XOR p) = 0)"
| "Contains (P6 p n) (V6 w z) = (z = [] \<and> (w XOR p) AND NOT (mask (128 - n)) = 0)"
| "Contains _ _ = False"

subsection \<open>netip.ParseAddr\<close>

text \<open>
  \<open>parseIPv4Fields\<close>: the value and the number of digits of the current octet, the octets
  before it, and whether the last byte read was the start or a dot.
\<close>

fun parse4 :: "bool \<Rightarrow> nat \<Rightarrow> nat \<Rightarrow> nat list \<Rightarrow> string \<Rightarrow> nat list option" where
  "parse4 sep val dl fs [] = (if length fs < 3 then None else Some (fs @ [val]))"
| "parse4 sep val dl fs (c # s) =
     (if is_digit c then
        (if dl = 1 \<and> val = 0 then None
         else let v = val * 10 + (byte c - 48) in
           if 255 < v then None else parse4 False v (Suc dl) fs s)
      else if c = CHR ''.'' then
        (if sep \<or> s = [] then None
         else if length fs = 3 then None
         else parse4 True 0 0 (fs @ [val]) s)
      else None)"

definition bytes_value :: "nat list \<Rightarrow> nat" where
  "bytes_value bs = foldl (\<lambda>acc b. acc * 256 + b) 0 bs"

definition parseIPv4 :: "string \<Rightarrow> addr option" where
  "parseIPv4 s = map_option (\<lambda>fs. V4 (of_nat (bytes_value fs))) (parse4 True 0 0 [] s)"

definition hex_value :: "string \<Rightarrow> nat" where
  "hex_value ds = foldl (\<lambda>acc c. acc * 16 + unhex c) 0 ds"

text \<open>What follows the loop: all input used, and the ellipsis expanded to 16 bytes.\<close>

definition parse6_finish :: "nat option \<Rightarrow> nat list \<Rightarrow> string \<Rightarrow> nat list option" where
  "parse6_finish el ip s =
     (if s \<noteq> [] then None
      else if length ip < 16 then
        (case el of
           None \<Rightarrow> None
         | Some e \<Rightarrow> Some (take e ip @ replicate (16 - length ip) 0 @ drop e ip))
      else if el \<noteq> None then None else Some ip)"

function parse6_loop :: "nat option \<Rightarrow> nat list \<Rightarrow> string \<Rightarrow> nat list option" where
  "parse6_loop el ip s =
     (if 16 \<le> length ip then parse6_finish el ip s
      else let ds = takeWhile is_hex s; rest = dropWhile is_hex s; acc = hex_value ds;
               ip' = ip @ [acc div 256, acc mod 256]
      in if ds = [] \<or> 4 < length ds then None
         else if has_prefix rest ''.'' then
           (if el = None \<and> length ip \<noteq> 12 then None
            else if 16 < length ip + 4 then None
            else case parse4 True 0 0 [] s of
                None \<Rightarrow> None
              | Some fs \<Rightarrow> parse6_finish el (ip @ fs) [])
         else case rest of
             [] \<Rightarrow> parse6_finish el ip' []
           | c # r \<Rightarrow>
               if c \<noteq> CHR '':'' then None
               else (case r of
                   [] \<Rightarrow> None
                 | d # r' \<Rightarrow>
                     if d \<noteq> CHR '':'' then parse6_loop el ip' r
                     else if el \<noteq> None then None
                     else if r' = [] then parse6_finish (Some (length ip')) ip' []
                     else parse6_loop (Some (length ip')) ip' r'))"
  by pat_completeness auto
termination
  by (relation "measure (\<lambda>(el, ip, s). length s)") (auto dest!: dropWhile_Cons_shorter [OF sym])

declare parse6_loop.simps [simp del]

definition parseIPv6 :: "string \<Rightarrow> addr option" where
  "parseIPv6 inp =
     (let (s, zone, pct) = cut_byte CHR ''%'' inp in
      if pct \<and> zone = [] then None
      else if s = ''::'' then Some (V6 0 zone)
      else map_option (\<lambda>ip. V6 (of_nat (bytes_value ip)) zone)
        (if has_prefix s ''::'' then parse6_loop (Some 0) [] (drop 2 s) else parse6_loop None [] s))"

fun ParseAddr_from :: "string \<Rightarrow> string \<Rightarrow> addr option" where
  "ParseAddr_from whole [] = None"
| "ParseAddr_from whole (c # s) =
     (if c = CHR ''.'' then parseIPv4 whole
      else if c = CHR '':'' then parseIPv6 whole
      else if c = CHR ''%'' then None
      else ParseAddr_from whole s)"

definition ParseAddr :: "string \<Rightarrow> addr option" where
  "ParseAddr s = ParseAddr_from s s"

subsection \<open>The guard\<close>

definition blockedPrefixes :: "ip_prefix list" where
  "blockedPrefixes =
     [P4 0x64400000 10,
      P4 0xC0000000 24,
      P4 0xC0000200 24,
      P4 0xC6120000 15,
      P4 0xC6336400 24,
      P4 0xCB007100 24,
      P4 0xF0000000 4,
      P6 0x20010DB8000000000000000000000000 32]"

definition IsPublic :: "addr \<Rightarrow> bool" where
  "IsPublic addr0 =
     (let addr = Unmap addr0 in
      if \<not> IsValid addr then False
      else if IsLoopback addr \<or> IsPrivate addr \<or> IsUnspecified addr \<or> IsLinkLocalUnicast addr \<or>
          IsLinkLocalMulticast addr \<or> IsMulticast addr \<or> IsInterfaceLocalMulticast addr then False
      else \<not> list_ex (\<lambda>p. Contains p addr) blockedPrefixes)"

datatype control_error = SplitError | ErrBlockedAddress

text \<open>\<open>Control\<close> returns no error, \<open>Inr ()\<close>, exactly when the connection may be made.\<close>

definition Control :: "string \<Rightarrow> control_error + unit" where
  "Control address =
     (case net_SplitHostPort address of
        None \<Rightarrow> Inl SplitError
      | Some (host, _) \<Rightarrow>
          (case ParseAddr host of
             None \<Rightarrow> Inl ErrBlockedAddress
           | Some addr \<Rightarrow> if \<not> IsPublic addr then Inl ErrBlockedAddress else Inr ()))"

end
