(* ===== verification/Ssrf_Ranges.thy ===== *)
theory Ssrf_Ranges
  imports Ssrfguard
begin

section \<open>What the SSRF guard lets through\<close>

text \<open>
  The bit tests of \<open>IsPublic\<close> against tables of address ranges written in the usual notation,
  dotted quads and 16-bit groups: the guard is exactly the complement of the tables.
\<close>

subsection \<open>Dotted quads\<close>

definition ip4 :: "nat \<Rightarrow> nat \<Rightarrow> nat \<Rightarrow> nat \<Rightarrow> nat" where
  "ip4 a b c d = ((a * 256 + b) * 256 + c) * 256 + d"

definition quad :: "nat \<Rightarrow> nat \<Rightarrow> nat \<Rightarrow> nat \<Rightarrow> addr" where
  "quad a b c d = V4 (of_nat (ip4 a b c d))"

text \<open>The ranges no connection may go to, from the comments and predicate names of the source.\<close>

definition reserved4 :: "nat \<Rightarrow> nat \<Rightarrow> nat \<Rightarrow> nat \<Rightarrow> bool" where
  "reserved4 a b c d \<longleftrightarrow>
     a = 127 \<or> a = 10 \<or> a = 172 \<and> 16 \<le> b \<and> b \<le> 31 \<or> a = 192 \<and> b = 168 \<or>
     a = 0 \<and> b = 0 \<and> c = 0 \<and> d = 0 \<or> a = 169 \<and> b = 254 \<or> 224 \<le> a \<or>
     a = 100 \<and> 64 \<le> b \<and> b \<le> 127 \<or> a = 192 \<and> b = 0 \<and> c = 0 \<or> a = 192 \<and> b = 0 \<and> c = 2 \<or>
     a = 198 \<and> 18 \<le> b \<and> b \<le> 19 \<or> a = 198 \<and> b = 51 \<and> c = 100 \<or> a = 203 \<and> b = 0 \<and> c = 113"

lemma ip4_div:
  assumes "a < 256" "b < 256" "c < 256" "d < 256"
  shows "ip4 a b c d < 2 ^ 32" "ip4 a b c d div 2 ^ 28 = a div 16" "ip4 a b c d div 2 ^ 24 = a"
    "ip4 a b c d div 2 ^ 16 = a * 256 + b" "ip4 a b c d div 2 ^ 8 = (a * 256 + b) * 256 + c"
proof -
  show "ip4 a b c d < 2 ^ 32" "ip4 a b c d div 2 ^ 16 = a * 256 + b"
    "ip4 a b c d div 2 ^ 8 = (a * 256 + b) * 256 + c"
    using assms by (auto simp: ip4_def div_eq_iff_range)
  show *: "ip4 a b c d div 2 ^ 24 = a"
    using assms by (auto simp: ip4_def div_eq_iff_range)
  have "ip4 a b c d div 2 ^ 28 = ip4 a b c d div 2 ^ 24 div 16"
    by (simp add: div_mult2_eq [symmetric])
  with * show "ip4 a b c d div 2 ^ 28 = a div 16" by simp
qed

lemma unat_ip4 [simp]:
  assumes "a < 256" "b < 256" "c < 256" "d < 256"
  shows "unat (of_nat (ip4 a b c d) :: v4) = ip4 a b c d"
  using ip4_div(1) [OF assms] by (simp add: unat_of_nat)

lemma unat_v4_octet: "i \<le> 3 \<Longrightarrow> unat (v4_octet w i) = unat w div 2 ^ (24 - 8 * i) mod 256"
proof -
  have "v4_octet w i = take_bit 8 (drop_bit (24 - 8 * i) w)"
    by (simp add: v4_octet_def take_bit_eq_mask mask_eq_exp_minus_1)
  then show ?thesis by (simp add: unat_take_bit_mod unat_drop_bit_div)
qed

lemma v4_octet_ip4:
  assumes "a < 256" "b < 256" "c < 256" "d < 256"
  shows "unat (v4_octet (of_nat (ip4 a b c d)) 0) = a"
    "unat (v4_octet (of_nat (ip4 a b c d)) 1) = b"
    "unat (v4_octet (of_nat (ip4 a b c d)) 2) = c"
  using assms ip4_div [OF assms] by (simp_all add: unat_v4_octet del: distrib_right_numeral distrib_left_numeral mult_numeral_left)

lemma and_high_mask: "(x::nat) AND push_bit n (mask k) = x div 2 ^ n * 2 ^ n" if "x < 2 ^ (n + k)"
proof -
  have "x div 2 ^ n < 2 ^ k"
    using that by (simp add: power_add less_mult_imp_div_less mult.commute)
  then show ?thesis
    unfolding and_push_bit
    by (simp add: drop_bit_eq_div push_bit_eq_mult take_bit_eq_mask [symmetric] take_bit_eq_mod)
qed

lemma octet_masks:
  assumes "b < (256::nat)"
  shows "b AND 0xF0 = 16 \<longleftrightarrow> 16 \<le> b \<and> b \<le> 31" "b AND 0xF0 = 0xE0 \<longleftrightarrow> 224 \<le> b \<and> b \<le> 239"
    "b AND 0xFE = 0xFC \<longleftrightarrow> b = 0xFC \<or> b = 0xFD"
proof -
  have "b AND 0xF0 = b div 16 * 16" "b AND 0xFE = b div 2 * 2"
    using and_high_mask [of b 4 4] and_high_mask [of b 1 7] assms
    by (simp_all add: mask_eq_exp_minus_1)
  moreover have "b div 16 * 16 = 16 \<longleftrightarrow> b div 16 = 1" "b div 16 * 16 = 0xE0 \<longleftrightarrow> b div 16 = 14"
    "b div 2 * 2 = 0xFC \<longleftrightarrow> b div 2 = 0x7E" by auto
  ultimately show "b AND 0xF0 = 16 \<longleftrightarrow> 16 \<le> b \<and> b \<le> 31"
    "b AND 0xF0 = 0xE0 \<longleftrightarrow> 224 \<le> b \<and> b \<le> 239" "b AND 0xFE = 0xFC \<longleftrightarrow> b = 0xFC \<or> b = 0xFD"
    by (auto simp only: div_eq_iff_range)
qed

lemma Contains_P4:
  "Contains (P4 p n) (V4 w) \<longleftrightarrow> unat w div 2 ^ (32 - n) = unat p div 2 ^ (32 - n)"
  unfolding Contains.simps drop_bit_xor_eq_0 by (simp only: word_unat_eq_iff unat_drop_bit_div)

lemma v4_prefixes:
  assumes "a < 256" "b < (256::nat)"
  shows "(a * 256 + b) div 64 = 401 \<longleftrightarrow> a = 100 \<and> 64 \<le> b \<and> b \<le> 127"
    "(a * 256 + b) div 2 = 25353 \<longleftrightarrow> a = 198 \<and> 18 \<le> b \<and> b \<le> 19"
proof -
  show "(a * 256 + b) div 64 = 401 \<longleftrightarrow> a = 100 \<and> 64 \<le> b \<and> b \<le> 127"
    using digit_range [of b 64 127 100 a] assms by (auto simp: div_eq_iff_range)
  show "(a * 256 + b) div 2 = 25353 \<longleftrightarrow> a = 198 \<and> 18 \<le> b \<and> b \<le> 19"
    using digit_range [of b 18 19 198 a] assms by (auto simp: div_eq_iff_range)
qed

lemma three_digits:
  assumes "b < 256" "c < 256" "B < 256" "C < (256::nat)"
  shows "(a * 256 + b) * 256 + c = (A * 256 + B) * 256 + C \<longleftrightarrow> a = A \<and> b = B \<and> c = C"
  using digit_eq [OF assms(2,4), of "a * 256 + b" "A * 256 + B"] digit_eq [OF assms(1,3), of a A]
  by blast

lemma Contains_quad:
  assumes "a < 256" "b < 256" "c < 256" "d < 256"
  shows "list_ex (\<lambda>p. Contains p (quad a b c d)) blockedPrefixes \<longleftrightarrow>
     a = 100 \<and> 64 \<le> b \<and> b \<le> 127 \<or> a = 192 \<and> b = 0 \<and> c = 0 \<or> a = 192 \<and> b = 0 \<and> c = 2 \<or>
     a = 198 \<and> 18 \<le> b \<and> b \<le> 19 \<or> a = 198 \<and> b = 51 \<and> c = 100 \<or> a = 203 \<and> b = 0 \<and> c = 113 \<or>
     240 \<le> a"
proof -
  let ?n = "ip4 a b c d"
  have d22: "?n div 2 ^ 22 = (a * 256 + b) div 64"
    by (subst ip4_div(4) [OF assms, symmetric]) (simp add: div_mult2_eq [symmetric])
  have d17: "?n div 2 ^ 17 = (a * 256 + b) div 2"
    by (subst ip4_div(4) [OF assms, symmetric]) (simp add: div_mult2_eq [symmetric])
  have a16: "a div 16 = 15 \<longleftrightarrow> 240 \<le> a"
    using assms(1) by (auto simp: div_eq_iff_range)
  have C: "Contains (P4 p n) (quad a b c d) \<longleftrightarrow> ?n div 2 ^ (32 - n) = unat p div 2 ^ (32 - n)" for p n
    using assms by (simp only: quad_def Contains_P4 unat_ip4)
  have N6: "\<not> Contains (P6 p n) (quad a b c d)" for p n by (simp add: quad_def)
  have p24: "?n div 2 ^ 8 = (A * 256 + B) * 256 + C \<longleftrightarrow> a = A \<and> b = B \<and> c = C"
    if "B < 256" "C < 256" for A B C
    by (simp only: ip4_div(5) [OF assms] three_digits [OF assms(2,3) that])
  show ?thesis
    using N6 p24 [of 0 0 192] p24 [of 0 2 192] p24 [of 51 100 198] p24 [of 0 113 203]
      v4_prefixes [OF assms(1,2)] a16 ip4_div(2) [OF assms] d22 d17
    by (simp add: blockedPrefixes_def C)
qed

lemma IsMulticast_V4:
  "IsMulticast (V4 w) \<longleftrightarrow> 224 \<le> unat (v4_octet w 0) \<and> unat (v4_octet w 0) \<le> 239"
proof -
  have "unat (v4_octet w 0) < 256" by (simp add: unat_v4_octet)
  note m = octet_masks(2) [OF this]
  have "unat (v4_octet w 0 AND 0xF0) = unat (v4_octet w 0) AND 0xF0"
    by (simp add: unsigned_and_eq)
  with m show ?thesis by (simp add: word_unat_eq_iff)
qed

lemma IsPrivate_V4:
  "IsPrivate (V4 w) \<longleftrightarrow>
     unat (v4_octet w 0) = 10 \<or>
     unat (v4_octet w 0) = 172 \<and> 16 \<le> unat (v4_octet w 1) \<and> unat (v4_octet w 1) \<le> 31 \<or>
     unat (v4_octet w 0) = 192 \<and> unat (v4_octet w 1) = 168"
proof -
  have "unat (v4_octet w 1) < 256" by (simp add: unat_v4_octet)
  note m = octet_masks(1) [OF this]
  have "unat (v4_octet w 1 AND 0xF0) = unat (v4_octet w 1) AND 0xF0"
    by (simp add: unsigned_and_eq)
  with m show ?thesis by (simp add: word_unat_eq_iff)
qed

lemma ip4_eq_0: "of_nat (ip4 a b c d) = (0 :: v4) \<longleftrightarrow> a = 0 \<and> b = 0 \<and> c = 0 \<and> d = 0"
  if "a < 256" "b < 256" "c < 256" "d < 256"
proof -
  have "of_nat (ip4 a b c d) = (0 :: v4) \<longleftrightarrow> ip4 a b c d = 0"
    unfolding word_unat_eq_iff unat_ip4 [OF that] by simp
  then show ?thesis by (simp add: ip4_def)
qed

lemma IsPublic_iff:
  assumes "Unmap a = a" "IsValid a"
  shows "IsPublic a \<longleftrightarrow> \<not> (IsLoopback a \<or> IsPrivate a \<or> IsUnspecified a \<or>
      IsLinkLocalUnicast a \<or> IsLinkLocalMulticast a \<or> IsMulticast a \<or>
      IsInterfaceLocalMulticast a \<or> list_ex (\<lambda>p. Contains p a) blockedPrefixes)"
  using assms by (simp add: IsPublic_def Let_def)

lemma IsPublic_quad:
  assumes "a < 256" "b < 256" "c < 256" "d < 256"
  shows "IsPublic (quad a b c d) \<longleftrightarrow> \<not> reserved4 a b c d"
proof -
  note oct = v4_octet_ip4 [OF assms]
  have lb: "IsLoopback (quad a b c d) \<longleftrightarrow> a = 127"
    and ll: "IsLinkLocalUnicast (quad a b c d) \<longleftrightarrow> a = 169 \<and> b = 254"
    and lm: "IsLinkLocalMulticast (quad a b c d) \<Longrightarrow> 224 \<le> a"
    using oct by (auto simp: quad_def word_unat_eq_iff)
  have pr: "IsPrivate (quad a b c d) \<longleftrightarrow>
      a = 10 \<or> a = 172 \<and> 16 \<le> b \<and> b \<le> 31 \<or> a = 192 \<and> b = 168"
    and mc: "IsMulticast (quad a b c d) \<longleftrightarrow> 224 \<le> a \<and> a \<le> 239"
    unfolding quad_def IsPrivate_V4 IsMulticast_V4 oct by (rule refl)+
  have un: "IsUnspecified (quad a b c d) \<longleftrightarrow> a = 0 \<and> b = 0 \<and> c = 0 \<and> d = 0"
    using ip4_eq_0 [OF assms] by (auto simp: IsUnspecified_def quad_def)
  have mc': "224 \<le> a \<and> a \<le> 239 \<or> 240 \<le> a \<longleftrightarrow> 224 \<le> a" by auto
  have q: "Unmap (quad a b c d) = quad a b c d" "IsValid (quad a b c d)"
    "\<not> IsInterfaceLocalMulticast (quad a b c d)"
    by (simp_all add: quad_def)
  show ?thesis
    unfolding IsPublic_iff [OF q(1,2)] lb ll pr mc un Contains_quad [OF assms] reserved4_def
    using lm q(3) mc' by argo
qed

subsection \<open>IPv6\<close>

definition in6 :: "nat \<Rightarrow> nat \<Rightarrow> v6 \<Rightarrow> bool" where
  "in6 p n w \<longleftrightarrow> unat w div 2 ^ (128 - n) = p"

definition reserved6 :: "v6 \<Rightarrow> bool" where
  "reserved6 w \<longleftrightarrow> w = 1 \<or> in6 0x7E 7 w \<or> in6 0x3FA 10 w \<or> in6 0xFF 8 w"

text \<open>The two tests that a zone switches off: equality with \<open>::\<close> and the table of prefixes.\<close>

definition reserved6_unzoned :: "v6 \<Rightarrow> bool" where
  "reserved6_unzoned w \<longleftrightarrow> w = 0 \<or> in6 0x20010DB8 32 w"

lemma and_not_mask_eq_0: "w AND NOT (mask n) = 0 \<longleftrightarrow> drop_bit n w = 0" for w :: "'a::len word"
proof
  assume *: "w AND NOT (mask n) = 0"
  show "drop_bit n w = 0"
  proof (rule bit_eqI)
    fix i
    have "bit (w AND NOT (mask n)) (n + i) = False" using * by simp
    then show "bit (drop_bit n w) i = bit 0 i"
      by (auto simp: bit_simps dest: bit_imp_le_length)
  qed
next
  assume *: "drop_bit n w = 0"
  show "w AND NOT (mask n) = 0"
  proof (rule bit_eqI)
    fix i
    have "bit (drop_bit n w) (i - n) = False" using * by simp
    then show "bit (w AND NOT (mask n)) i = bit 0 i"
      by (cases "n \<le> i") (auto simp: bit_simps)
  qed
qed

lemma Contains_P6:
  "Contains (P6 p n) (V6 w z) \<longleftrightarrow> z = [] \<and> unat w div 2 ^ (128 - n) = unat p div 2 ^ (128 - n)"
  unfolding Contains.simps and_not_mask_eq_0 drop_bit_xor_eq_0
  by (simp add: word_unat_eq_iff unat_drop_bit_div)

lemma v6_range: "unat (w :: v6) < 2 ^ 128"
proof -
  have "unat w < 2 ^ LENGTH(128)" by (rule unsigned_less)
  then show ?thesis by simp
qed

lemma v6_octet_0: "unat (v6_octet w 0) = unat w div 2 ^ 120"
proof -
  have "v6_octet w 0 = take_bit 8 (drop_bit 120 w)"
    by (simp add: v6_octet_def take_bit_eq_mask mask_eq_exp_minus_1)
  moreover have "unat w div 2 ^ 120 < 256"
    using v6_range [of w] by (simp add: less_mult_imp_div_less)
  ultimately show ?thesis by (simp add: unat_take_bit_mod unat_drop_bit_div)
qed

lemma v6_u16_0: "unat (v6_u16 w 0) = unat w div 2 ^ 112"
proof -
  have "v6_u16 w 0 = take_bit 16 (drop_bit 112 w)"
    by (simp add: v6_u16_def take_bit_eq_mask mask_eq_exp_minus_1)
  moreover have "unat w div 2 ^ 112 < 65536"
    using v6_range [of w] by (simp add: less_mult_imp_div_less)
  ultimately show ?thesis by (simp add: unat_take_bit_mod unat_drop_bit_div)
qed

lemma IsPrivate_V6: "IsPrivate (V6 w z) \<longleftrightarrow> in6 0x7E 7 w"
proof -
  let ?x = "unat w div 2 ^ 120"
  have x: "?x < 256" using v6_range [of w] by (simp add: less_mult_imp_div_less)
  have "IsPrivate (V6 w z) \<longleftrightarrow> unat (v6_octet w 0 AND 0xFE) = 0xFC"
    by (simp add: word_unat_eq_iff)
  also have "\<dots> \<longleftrightarrow> ?x AND 0xFE = 0xFC" by (simp add: unsigned_and_eq v6_octet_0)
  also have "\<dots> \<longleftrightarrow> ?x = 0xFC \<or> ?x = 0xFD" by (rule octet_masks(3) [OF x])
  also have "\<dots> \<longleftrightarrow> ?x div 2 = 0x7E" by (auto simp only: div_eq_iff_range)
  also have "?x div 2 = unat w div 2 ^ 121" by (simp add: div_mult2_eq [symmetric])
  finally show ?thesis by (simp add: in6_def)
qed

lemma IsLinkLocalUnicast_V6: "IsLinkLocalUnicast (V6 w z) \<longleftrightarrow> in6 0x3FA 10 w"
proof -
  let ?x = "unat w div 2 ^ 112"
  have x: "?x < 2 ^ (6 + 10)" using v6_range [of w] by (simp add: less_mult_imp_div_less)
  have "IsLinkLocalUnicast (V6 w z) \<longleftrightarrow> unat (v6_u16 w 0 AND 0xFFC0) = 0xFE80"
    by (simp add: word_unat_eq_iff)
  also have "\<dots> \<longleftrightarrow> ?x AND push_bit 6 (mask 10) = 0xFE80"
    by (simp add: unsigned_and_eq v6_u16_0 mask_eq_exp_minus_1)
  also have "?x AND push_bit 6 (mask 10) = (?x div 64) * 64"
    using and_high_mask [OF x] by simp
  also have "\<dots> = 0xFE80 \<longleftrightarrow> ?x div 64 = 0x3FA" by auto
  also have "?x div 64 = unat w div 2 ^ 118" by (simp add: div_mult2_eq [symmetric])
  finally show ?thesis by (simp add: in6_def)
qed

lemma multicast_mask:
  assumes "v6_u16 w 0 AND 0xFF0F = m" "0xFF00 \<le> unat m"
  shows "in6 0xFF 8 w"
proof -
  have "m \<le> v6_u16 w 0" unfolding assms(1) [symmetric] by (rule word_and_le2)
  then have "unat m \<le> unat (v6_u16 w 0)" by (simp add: word_le_nat_alt)
  then have "0xFF00 \<le> unat w div 2 ^ 112" using assms(2) by (simp add: v6_u16_0)
  moreover have "unat w div 2 ^ 112 < 65536"
    using v6_range [of w] by (simp add: less_mult_imp_div_less)
  ultimately have "unat w div 2 ^ 112 div 256 = 255" by (simp add: div_eq_iff_range)
  then show ?thesis by (simp add: in6_def div_mult2_eq [symmetric])
qed

lemma IsPublic_V6:
  assumes "\<not> Is4In6 w"
  shows "IsPublic (V6 w z) \<longleftrightarrow> \<not> (reserved6 w \<or> z = [] \<and> reserved6_unzoned w)"
proof -
  have lm: "IsLinkLocalMulticast (V6 w z) \<Longrightarrow> in6 0xFF 8 w"
    and im: "IsInterfaceLocalMulticast (V6 w z) \<Longrightarrow> in6 0xFF 8 w"
    by (auto intro: multicast_mask)
  have mc: "IsMulticast (V6 w z) \<longleftrightarrow> in6 0xFF 8 w"
    by (simp add: in6_def word_unat_eq_iff unat_drop_bit_div)
  have db: "list_ex (\<lambda>p. Contains p (V6 w z)) blockedPrefixes \<longleftrightarrow> z = [] \<and> in6 0x20010DB8 32 w"
    by (simp add: blockedPrefixes_def Contains_P6 in6_def del: Contains.simps(2))
  have q: "Unmap (V6 w z) = V6 w z" "IsValid (V6 w z)" using assms by simp_all
  show ?thesis
    unfolding IsPublic_iff [OF q] IsPrivate_V6 IsLinkLocalUnicast_V6 mc db reserved6_def
      reserved6_unzoned_def
    using lm im by (auto simp: IsUnspecified_def)
qed

subsection \<open>The guard on the text of an address\<close>

lemma itoa_octet_cases:
  assumes "n < 256"
  obtains "n < 10" "itoa n = [digit_char n]"
  | "10 \<le> n" "n < 100" "itoa n = [digit_char (n div 10), digit_char (n mod 10)]"
  | "100 \<le> n" "itoa n = [digit_char (n div 100), digit_char (n div 10 mod 10), digit_char (n mod 10)]"
proof -
  have "n < 10 \<Longrightarrow> itoa n = [digit_char n]" by (simp add: itoa_def format_uint.simps)
  moreover have "10 \<le> n \<Longrightarrow> n < 100 \<Longrightarrow> itoa n = [digit_char (n div 10), digit_char (n mod 10)]"
    by (simp add: itoa_def format_uint.simps [of 10 n] format_uint.simps [of 10 "n div 10"])
  moreover have "100 \<le> n \<Longrightarrow>
      itoa n = [digit_char (n div 100), digit_char (n div 10 mod 10), digit_char (n mod 10)]"
    using assms
    by (simp add: itoa_def format_uint.simps [of 10 n] format_uint.simps [of 10 "n div 10"]
        format_uint.simps [of 10 "n div 100"] div_mult2_eq [symmetric] div_less_iff_less_mult)
  ultimately show ?thesis using that by (metis not_less)
qed

lemma digit_char_10 [simp]:
  "d < 10 \<Longrightarrow> is_digit (digit_char d)" "d < 10 \<Longrightarrow> byte (digit_char d) = 48 + d"
  by (simp_all add: digit_char_def is_digit_def)

lemma parse4_step:
  assumes "d < 10"
  shows "parse4 sep v l fs (digit_char d # s) =
    (if l = 1 \<and> v = 0 \<or> 255 < v * 10 + d then None else parse4 False (v * 10 + d) (Suc l) fs s)"
  using assms by (simp add: Let_def)

lemma parse4_itoa:
  assumes "n < 256"
  shows "parse4 sep 0 0 fs (itoa n @ s) = parse4 False n (length (itoa n)) fs s"
proof (rule itoa_octet_cases [OF assms])
  assume "n < 10" "itoa n = [digit_char n]"
  then show ?thesis using assms by (simp add: parse4_step del: parse4.simps)
next
  assume *: "10 \<le> n" "n < 100" "itoa n = [digit_char (n div 10), digit_char (n mod 10)]"
  then have "n div 10 < 10" "n div 10 \<noteq> 0" by (simp_all add: div_eq_0_iff)
  with * show ?thesis using assms by (simp add: parse4_step del: parse4.simps)
next
  assume *: "100 \<le> n"
    "itoa n = [digit_char (n div 100), digit_char (n div 10 mod 10), digit_char (n mod 10)]"
  then have "n div 100 < 10" "n div 100 \<noteq> 0" "n div 100 * 10 + n div 10 mod 10 = n div 10"
    using assms by (simp_all add: div_eq_0_iff div_mult2_eq [of n 10 10, simplified])
  moreover have "\<not> 255 < n div 10" using assms by linarith
  ultimately show ?thesis using assms * by (simp add: parse4_step del: parse4.simps)
qed

lemma not_digit_dot [simp]: "\<not> is_digit CHR ''.''"
  by (simp add: is_digit_def)

definition quad_text :: "nat \<Rightarrow> nat \<Rightarrow> nat \<Rightarrow> nat \<Rightarrow> string" where
  "quad_text a b c d = itoa a @ ''.'' @ itoa b @ ''.'' @ itoa c @ ''.'' @ itoa d"

lemma itoa_not_Nil [simp]: "itoa n \<noteq> []"
  by (simp add: itoa_def)

lemma parse4_quad_text:
  assumes "a < 256" "b < 256" "c < 256" "d < 256"
  shows "parse4 True 0 0 [] (quad_text a b c d) = Some [a, b, c, d]"
proof -
  have dot: "parse4 False v l fs (CHR ''.'' # s) = parse4 True 0 0 (fs @ [v]) s"
    if "s \<noteq> []" "length fs < 3" for v l fs s
    using that by simp
  show ?thesis
    using parse4_itoa [OF assms(4), of True "[a, b, c]" "[]"] parse4.simps(1) [of False d _ "[a, b, c]"]
    by (simp add: quad_text_def parse4_itoa assms dot del: parse4.simps)
qed

lemma itoa_chars: "x \<in> set (itoa n) \<Longrightarrow> is_digit x"
proof -
  have "x \<in> set (format_uint b n) \<longrightarrow> is_digit x" if "b = 10" for b
    using that
  proof (induction b n rule: format_uint.induct)
    case (1 b n)
    have "is_digit (digit_char (n mod 10))" by (rule digit_char_10) simp
    then show ?case
      using 1 by (cases "n < 10") (auto simp: format_uint.simps [of 10 n])
  qed
  then show "x \<in> set (itoa n) \<Longrightarrow> is_digit x" by (simp add: itoa_def)
qed

lemma ParseAddr_from_dot: "(\<And>c. c \<in> set s \<Longrightarrow> is_digit c) \<Longrightarrow>
    ParseAddr_from w (s @ CHR ''.'' # t) = parseIPv4 w"
proof (induction s)
  case (Cons x s)
  have "is_digit x" by (rule Cons.prems) simp
  then have "x \<noteq> CHR ''.''" "x \<noteq> CHR '':''" "x \<noteq> CHR ''%''" by (auto simp: is_digit_def)
  moreover have "ParseAddr_from w (s @ CHR ''.'' # t) = parseIPv4 w"
    by (rule Cons.IH) (simp add: Cons.prems)
  ultimately show ?case by simp
qed simp

lemma ParseAddr_quad_text:
  assumes "a < 256" "b < 256" "c < 256" "d < 256"
  shows "ParseAddr (quad_text a b c d) = Some (quad a b c d)"
proof -
  have "ParseAddr (quad_text a b c d) = parseIPv4 (quad_text a b c d)"
    unfolding ParseAddr_def quad_text_def append_Cons append_Nil
    by (rule ParseAddr_from_dot) (rule itoa_chars)
  moreover have "bytes_value [a, b, c, d] = ip4 a b c d"
    by (simp add: bytes_value_def ip4_def)
  ultimately show ?thesis
    by (simp only: parseIPv4_def parse4_quad_text [OF assms] option.map quad_def)
qed

text \<open>Octets and a decimal port, the form in which a dialer hands an IPv4 address to its hook.\<close>

lemma quad_text_chars: "x \<in> set (quad_text a b c d) \<Longrightarrow> is_digit x \<or> x = CHR ''.''"
  by (auto simp: quad_text_def dest: itoa_chars)

lemma net_SplitHostPort_quad:
  "net_SplitHostPort (quad_text a b c d @ '':'' @ itoa p) = Some (quad_text a b c d, itoa p)"
proof -
  let ?q = "quad_text a b c d"
  have ne: "x \<notin> set (?q)" "x \<notin> set (itoa p)" if "\<not> is_digit x" "x \<noteq> CHR ''.''" for x
    using that quad_text_chars itoa_chars by blast+
  have ch: "\<not> is_digit CHR '':''" "\<not> is_digit CHR ''[''" "\<not> is_digit CHR '']''"
    by (simp_all add: is_digit_def)
  have "last_index_byte (?q @ CHR '':'' # itoa p) CHR '':'' = Some (length ?q)"
    using index_byte_append_notin [of "CHR '':''" "rev (itoa p)" "rev ?q"] ne ch
    by (simp add: last_index_byte_def)
  moreover have "\<not> has_prefix (?q @ CHR '':'' # itoa p) ''[''"
    using ne(1) [OF ch(2)] by (cases ?q) auto
  ultimately show ?thesis using ne ch by (simp add: net_SplitHostPort_def Let_def)
qed

subsection \<open>Properties\<close>

text \<open>
  C9.  The dial hook on any IPv4 address and port, in the text form the dialer passes: it
  refuses exactly the addresses of the reserved ranges and admits every other one.
\<close>

theorem Control_quad:
  assumes "a < 256" "b < 256" "c < 256" "d < 256"
  shows "Control (quad_text a b c d @ '':'' @ itoa p) =
    (if reserved4 a b c d then Inl ErrBlockedAddress else Inr ())"
  unfolding Control_def net_SplitHostPort_quad option.case prod.case ParseAddr_quad_text [OF assms]
    IsPublic_quad [OF assms] by simp

theorem Control_quad_witness:
  "Control (quad_text 169 254 169 254 @ '':'' @ itoa 80) = Inl ErrBlockedAddress \<and>
   Control (quad_text 93 184 216 34 @ '':'' @ itoa 443) = Inr ()"
  by (simp add: Control_quad reserved4_def del: append_Cons)

text \<open>
  The guard on any IPv6 address: an IPv4-mapped address is judged as the IPv4 address inside
  it, and any other is refused exactly when it is loopback, unique-local, link-local or multicast
  or, provided it has no zone, unspecified or in the documentation range.
\<close>

theorem IsPublic_v6:
  "IsPublic (V6 w z) \<longleftrightarrow>
    (if Is4In6 w then IsPublic (V4 (ucast w)) else \<not> (reserved6 w \<or> z = [] \<and> reserved6_unzoned w))"
proof (cases "Is4In6 w")
  case True
  then show ?thesis by (simp add: IsPublic_def)
next
  case False
  then show ?thesis by (simp add: IsPublic_V6)
qed

text \<open>
  A zone gets the unspecified address, which connects to the local host, past the guard:
  \<open>[::]:80\<close> is refused and \<open>[::%eth0]:80\<close> is not.
\<close>

theorem zoned_unspecified_passes:
  "Control ''[::]:80'' = Inl ErrBlockedAddress \<and> Control ''[::%eth0]:80'' = Inr ()"
  by code_simp

end
