(* ===== verification/Go_Base64.thy ===== *)
theory Go_Base64
  imports Prelude
begin

section \<open>encoding/base64 without padding\<close>

text \<open>
  Go's \<open>base64.RawURLEncoding\<close> (proxy tokens, \<open>link.enc\<close>) and \<open>base64.RawStdEncoding\<close>
  (password hashes, \<open>auth.b64\<close>): three bytes make four digits, a rest of one or two bytes
  makes two or three, and no padding is written.  Decoding skips CR and LF, refuses any
  other byte outside the alphabet and a rest of one digit, and ignores the unused low bits
  of a short last group, as the non-strict decoder does.

  The locale \<open>byte_codec\<close> is what the clients rely on; both encodings interpret it.
\<close>

subsection \<open>Alphabets and digits\<close>

definition url_alphabet :: string where
  "url_alphabet = ''ABCDEFGHIJKLMNOPQRSTUVWXYZabcdefghijklmnopqrstuvwxyz0123456789-_''"

definition std_alphabet :: string where
  "std_alphabet = ''ABCDEFGHIJKLMNOPQRSTUVWXYZabcdefghijklmnopqrstuvwxyz0123456789+/''"

definition b64_digit :: "string \<Rightarrow> nat \<Rightarrow> char" where
  "b64_digit al d = al ! d"

definition b64_value :: "string \<Rightarrow> char \<Rightarrow> nat option" where
  "b64_value al c = index_byte al c"

fun b64_values :: "string \<Rightarrow> string \<Rightarrow> nat list option" where
  "b64_values al [] = Some []"
| "b64_values al (c # s) =
     (case b64_value al c of
        None \<Rightarrow> None
      | Some d \<Rightarrow> map_option (\<lambda>ds. d # ds) (b64_values al s))"

subsection \<open>Groups\<close>

fun b64_groups :: "nat list \<Rightarrow> nat list" where
  "b64_groups [] = []"
| "b64_groups [a] = [a div 4, (a mod 4) * 16]"
| "b64_groups [a, b] = [a div 4, (a mod 4) * 16 + b div 16, (b mod 16) * 4]"
| "b64_groups (a # b # c # r) =
     [a div 4, (a mod 4) * 16 + b div 16, (b mod 16) * 4 + c div 64, c mod 64] @ b64_groups r"

fun b64_ungroup :: "nat list \<Rightarrow> nat list option" where
  "b64_ungroup [] = Some []"
| "b64_ungroup [p] = None"
| "b64_ungroup [p, q] = Some [p * 4 + q div 16]"
| "b64_ungroup [p, q, r] = Some [p * 4 + q div 16, (q mod 16) * 16 + r div 4]"
| "b64_ungroup (p # q # r # t # ds) =
     map_option (\<lambda>bs. (p * 4 + q div 16) # ((q mod 16) * 16 + r div 4) # ((r mod 4) * 64 + t) # bs)
       (b64_ungroup ds)"

definition b64_encode :: "string \<Rightarrow> bytes \<Rightarrow> string" where
  "b64_encode al s = map (b64_digit al) (b64_groups (map of_char s))"

definition b64_decode :: "string \<Rightarrow> string \<Rightarrow> bytes option" where
  "b64_decode al s =
     (case b64_values al (filter (\<lambda>c. byte c \<noteq> 10 \<and> byte c \<noteq> 13) s) of
        None \<Rightarrow> None
      | Some ds \<Rightarrow> map_option (map char_of) (b64_ungroup ds))"

abbreviation url_encode :: "bytes \<Rightarrow> string" where
  "url_encode \<equiv> b64_encode url_alphabet"

abbreviation url_decode :: "string \<Rightarrow> bytes option" where
  "url_decode \<equiv> b64_decode url_alphabet"

abbreviation std_encode :: "bytes \<Rightarrow> string" where
  "std_encode \<equiv> b64_encode std_alphabet"

abbreviation std_decode :: "string \<Rightarrow> bytes option" where
  "std_decode \<equiv> b64_decode std_alphabet"

subsection \<open>The interface\<close>

locale byte_codec =
  fixes enc :: "bytes \<Rightarrow> string"
    and dec :: "string \<Rightarrow> bytes option"
    and alph :: "char set"
  assumes dec_enc: "dec (enc s) = Some s"
    and enc_alph: "set (enc s) \<subseteq> alph"
    and enc_Nil: "enc [] = []"
    and dec_Nil: "dec [] = Some []"
begin

lemma enc_inj: "enc s = enc t \<longleftrightarrow> s = t"
  by (metis dec_enc option.inject)

lemma enc_eq_Nil: "enc s = [] \<longleftrightarrow> s = []"
  by (metis enc_Nil enc_inj)

lemma enc_no_sep: "c \<notin> alph \<Longrightarrow> c \<notin> set (enc s)"
  using enc_alph by blast

end

subsection \<open>Both encodings implement it\<close>

lemma b64_digit_bounds:
  fixes a b c :: nat
  assumes "a < 256" "b < 256" "c < 256"
  shows "a div 4 < 64" "(a mod 4) * 16 < 64" "(a mod 4) * 16 + b div 16 < 64"
    "(b mod 16) * 4 < 64" "(b mod 16) * 4 + c div 64 < 64" "c mod 64 < 64"
proof -
  have "a mod 4 < 4" "b mod 16 < 16" "b div 16 < 16" "c div 64 < 4"
    using assms by auto
  then show "(a mod 4) * 16 < 64" "(a mod 4) * 16 + b div 16 < 64"
    "(b mod 16) * 4 < 64" "(b mod 16) * 4 + c div 64 < 64"
    by linarith+
qed (use assms in auto)

lemma b64_byte_back:
  fixes a b c :: nat
  assumes "b < 256" "c < 256"
  shows "(a div 4) * 4 + ((a mod 4) * 16) div 16 = a"
    "(a div 4) * 4 + ((a mod 4) * 16 + b div 16) div 16 = a"
    "(((a mod 4) * 16 + b div 16) mod 16) * 16 + ((b mod 16) * 4) div 4 = b"
    "(((a mod 4) * 16 + b div 16) mod 16) * 16 + ((b mod 16) * 4 + c div 64) div 4 = b"
    "(((b mod 16) * 4 + c div 64) mod 4) * 64 + c mod 64 = c"
  using assms by auto

lemma b64_groups_bound:
  "list_all (\<lambda>b. b < 256) bs \<Longrightarrow> list_all (\<lambda>d. d < 64) (b64_groups bs)"
  by (induction bs rule: b64_groups.induct) (auto simp: b64_digit_bounds)

lemma b64_ungroup_groups:
  "list_all (\<lambda>b. b < 256) bs \<Longrightarrow> b64_ungroup (b64_groups bs) = Some bs"
  by (induction bs rule: b64_groups.induct) (auto simp: b64_byte_back)

lemma map_of_char_bound: "list_all (\<lambda>b. b < 256) (map byte s)"
  by (simp add: list_all_iff)

text \<open>An alphabet of 64 distinct bytes without CR and LF.\<close>

definition good_alphabet :: "string \<Rightarrow> bool" where
  "good_alphabet al \<longleftrightarrow>
     length al = 64 \<and> distinct al \<and> list_all (\<lambda>c. byte c \<noteq> 10 \<and> byte c \<noteq> 13) al"

lemma b64_value_digit:
  "good_alphabet al \<Longrightarrow> d < 64 \<Longrightarrow> b64_value al (b64_digit al d) = Some d"
proof -
  assume *: "good_alphabet al" "d < 64"
  then have "al ! d \<in> set al" by (simp add: good_alphabet_def)
  then obtain i where i: "index_byte al (al ! d) = Some i"
    using index_byte_None by fastforce
  from index_byte_SomeD [OF i] * have "i = d"
    by (auto simp: good_alphabet_def dest: nth_eq_iff_index_eq)
  with i show ?thesis by (simp add: b64_value_def b64_digit_def)
qed

lemma b64_values_digits:
  "good_alphabet al \<Longrightarrow> list_all (\<lambda>d. d < 64) ds \<Longrightarrow>
   b64_values al (map (b64_digit al) ds) = Some ds"
  by (induction ds) (auto simp: b64_value_digit)

lemma b64_digit_in: "good_alphabet al \<Longrightarrow> d < 64 \<Longrightarrow> b64_digit al d \<in> set al"
  by (simp add: good_alphabet_def b64_digit_def)

lemma set_b64_encode: "good_alphabet al \<Longrightarrow> set (b64_encode al s) \<subseteq> set al"
  using b64_groups_bound [OF map_of_char_bound [of s]]
  by (auto simp: b64_encode_def list_all_iff intro: b64_digit_in)

lemma byte_codec_b64:
  assumes "good_alphabet al"
  shows "byte_codec (b64_encode al) (b64_decode al) (set al)"
proof
  fix s
  let ?ds = "b64_groups (map of_char s)"
  have bound: "list_all (\<lambda>d. d < 64) ?ds"
    by (rule b64_groups_bound) (rule map_of_char_bound)
  have "filter (\<lambda>c. byte c \<noteq> 10 \<and> byte c \<noteq> 13) (b64_encode al s) = b64_encode al s"
    using set_b64_encode [OF assms, of s] assms
    by (subst filter_id_conv) (auto simp: good_alphabet_def list_all_iff)
  with b64_values_digits [OF assms bound] b64_ungroup_groups [OF map_of_char_bound, of s]
  show "b64_decode al (b64_encode al s) = Some s"
    by (simp add: b64_decode_def b64_encode_def map_idI)
  show "set (b64_encode al s) \<subseteq> set al"
    by (rule set_b64_encode [OF assms])
qed (simp_all add: b64_encode_def b64_decode_def)

lemma good_url_alphabet: "good_alphabet url_alphabet"
  by code_simp

lemma good_std_alphabet: "good_alphabet std_alphabet"
  by code_simp

interpretation url64: byte_codec url_encode url_decode "set url_alphabet"
  by (rule byte_codec_b64) (rule good_url_alphabet)

interpretation std64: byte_codec std_encode std_decode "set std_alphabet"
  by (rule byte_codec_b64) (rule good_std_alphabet)

end
