(* ===== verification/Link.thy ===== *)
theory Link
  imports Go_Base64 Go_URL
begin

section \<open>Proxy links (internal/proxy/link)\<close>

text \<open>
  A target is named by one path segment under \<open>/p/\<close>, the unpadded URL-safe base64 of its
  absolute URL.  \<open>Encode\<close> and \<open>EncodeString\<close> write a link, \<open>Decode\<close> and \<open>DecodeRequest\<close>
  read one back with every error of the source as a value, and \<open>Resolve\<close> turns a reference
  found in a page into a link.
\<close>

datatype link_error = ErrEmpty | ErrMalformed | ErrScheme

definition link_Prefix :: string where
  "link_Prefix = ''/p/''"

definition nonNavigational :: "string list" where
  "nonNavigational =
     [''#'', ''data:'', ''blob:'', ''mailto:'', ''tel:'', ''javascript:'', ''about:'', ''ws:'', ''wss:'']"

definition Encode :: "url \<Rightarrow> string" where
  "Encode target = link_Prefix @ url_encode (url_String target)"

definition EncodeString :: "string \<Rightarrow> string" where
  "EncodeString raw = link_Prefix @ url_encode raw"

definition http_scheme :: "string \<Rightarrow> bool" where
  "http_scheme s \<longleftrightarrow> s = ''http'' \<or> s = ''https''"

definition link_token :: "string \<Rightarrow> string" where
  "link_token path =
     (let token = trim_prefix path link_Prefix in
      case index_byte token CHR ''/'' of None \<Rightarrow> token | Some i \<Rightarrow> take i token)"

definition Decode :: "string \<Rightarrow> link_error + url" where
  "Decode path =
     (let token = link_token path in
      if token = [] then Inl ErrEmpty
      else case url_decode token of
          None \<Rightarrow> Inl ErrMalformed
        | Some raw \<Rightarrow>
            (case url_Parse raw of
               None \<Rightarrow> Inl ErrMalformed
             | Some u \<Rightarrow>
                 if \<not> http_scheme (Scheme u) then Inl ErrScheme
                 else if Host u = [] then Inl ErrMalformed
                 else Inr u))"

definition DecodeRequest :: "string \<Rightarrow> string \<Rightarrow> link_error + url" where
  "DecodeRequest escapedPath rawQuery =
     (case Decode escapedPath of
        Inl e \<Rightarrow> Inl e
      | Inr u \<Rightarrow>
          if rawQuery \<noteq> [] then Inr (u\<lparr>RawQuery := rawQuery, ForceQuery := False\<rparr>) else Inr u)"

definition Resolve :: "url \<Rightarrow> string \<Rightarrow> string" where
  "Resolve base ref =
     (let trimmed = trim_space ref in
      if trimmed = [] then ref
      else if list_ex (\<lambda>p. has_prefix (to_lower trimmed) p) nonNavigational then ref
      else case url_Parse trimmed of
          None \<Rightarrow> ref
        | Some u \<Rightarrow>
            let abs = ResolveReference base u in
            if \<not> http_scheme (Scheme abs) then ref else Encode abs)"

subsection \<open>Tokens\<close>

lemma slash_not_in_alphabet: "CHR ''/'' \<notin> set url_alphabet"
  by code_simp

lemma link_token_eq: "link_token path = takeWhile (\<lambda>c. c \<noteq> CHR ''/'') (trim_prefix path link_Prefix)"
  by (simp add: link_token_def Let_def take_index_byte)

lemma link_token_EncodeString:
  assumes "extra = [] \<or> has_prefix extra ''/''"
  shows "link_token (EncodeString raw @ extra) = url_encode raw"
proof -
  have none: "CHR ''/'' \<notin> set (url_encode raw)"
    by (rule url64.enc_no_sep) (rule slash_not_in_alphabet)
  have "takeWhile (\<lambda>c. c \<noteq> CHR ''/'') extra = []"
    using assms by (cases extra) auto
  with none show ?thesis
    by (simp add: link_token_eq EncodeString_def takeWhile_append)
qed

lemma Encode_EncodeString: "Encode u = EncodeString (url_String u)"
  by (simp add: Encode_def EncodeString_def)

lemma Decode_EncodeString_eq:
  assumes "raw \<noteq> []" "extra = [] \<or> has_prefix extra ''/''"
  shows "Decode (EncodeString raw @ extra) =
     (case url_Parse raw of
        None \<Rightarrow> Inl ErrMalformed
      | Some u \<Rightarrow> if \<not> http_scheme (Scheme u) then Inl ErrScheme
                  else if Host u = [] then Inl ErrMalformed else Inr u)"
  using assms by (simp add: Decode_def link_token_EncodeString url64.enc_eq_Nil url64.dec_enc)

subsection \<open>What decoding promises\<close>

lemma Decode_InrD:
  "Decode p = Inr u \<Longrightarrow>
   http_scheme (Scheme u) \<and> Host u \<noteq> [] \<and> (\<exists>raw. url_decode (link_token p) = Some raw \<and> url_Parse raw = Some u)"
  by (auto simp: Decode_def Let_def split: if_splits option.splits)

lemma DecodeRequest_Inr_iff:
  "DecodeRequest p q = Inr v \<longleftrightarrow>
   (\<exists>u. Decode p = Inr u \<and> v = (if q \<noteq> [] then u\<lparr>RawQuery := q, ForceQuery := False\<rparr> else u))"
  by (auto simp: DecodeRequest_def split: sum.splits)

subsection \<open>What resolving promises\<close>

lemma Resolve_cases:
  "Resolve base ref = ref \<or>
   (\<exists>u. url_Parse (trim_space ref) = Some u \<and> http_scheme (Scheme (ResolveReference base u)) \<and>
        Resolve base ref = Encode (ResolveReference base u))"
  by (auto simp: Resolve_def Let_def split: option.splits)

lemma Resolve_nonNavigational:
  "p \<in> set nonNavigational \<Longrightarrow> has_prefix (to_lower (trim_space ref)) p \<Longrightarrow> Resolve base ref = ref"
  by (auto simp: Resolve_def Let_def list_ex_iff)

end
