(* ===== verification/Link_Roundtrip.thy ===== *)
theory Link_Roundtrip
  imports Link
begin

section \<open>A link names exactly the URL it was made from\<close>

text \<open>
  \<open>Encode\<close> prints a URL and wraps it, \<open>Decode\<close> unwraps and parses it.  For every URL value a
  browser can navigate to (an http or https scheme, a host, an absolute path, any query
  and fragment) the two are inverse, field by field.
\<close>

subsection \<open>Percent-encoding\<close>

lemma upper_hex [simp]: "d < 16 \<Longrightarrow> is_hex (upper_hex d)" "d < 16 \<Longrightarrow> unhex (upper_hex d) = d"
  by (auto simp: is_hex_def unhex_def upper_hex_def is_digit_def)

lemma shouldEscape_percent [simp]: "shouldEscape m CHR ''%''"
  by (cases m; hypsubst; code_simp)

lemma unescape_escape_char:
  assumes "m \<noteq> EncHost" "m \<noteq> EncZone"
  shows "unescape m (escape_char m c @ s) = map_option (\<lambda>t. c # t) (unescape m s)"
proof (cases "shouldEscape m c")
  case True
  have "byte c div 16 < 16" "byte c mod 16 < 16"
    using byte_less [of c] by (simp_all add: less_mult_imp_div_less)
  then show ?thesis using True assms by (simp add: escape_char_def hex_pair_ok_def)
next
  case False
  then have "c \<noteq> CHR ''%''" using shouldEscape_percent by metis
  with False assms show ?thesis by (simp add: escape_char_def)
qed

lemma unescape_escape:
  "m \<noteq> EncHost \<Longrightarrow> m \<noteq> EncZone \<Longrightarrow> unescape m (escape m s) = Some s"
  by (induction s) (simp_all add: escape_def unescape_escape_char)

lemma escape_append [simp]: "escape m (s @ t) = escape m s @ escape m t"
  by (simp add: escape_def)

lemma escape_unreserved: "list_all (\<lambda>c. \<not> shouldEscape m c) s \<Longrightarrow> escape m s = s"
  by (induction s) (auto simp: escape_def escape_char_def)

definition hex_digit_chars :: string where
  "hex_digit_chars = ''%0123456789ABCDEF''"

lemma upper_hex_mem: "d < 16 \<Longrightarrow> upper_hex d \<in> set hex_digit_chars"
proof -
  have "list_all (\<lambda>d. List.member hex_digit_chars (upper_hex d)) [0..<16]" by code_simp
  then show "d < 16 \<Longrightarrow> upper_hex d \<in> set hex_digit_chars" by (simp add: list_all_iff)
qed

lemma escape_chars: "c \<in> set (escape m s) \<Longrightarrow> c \<in> set hex_digit_chars \<or> \<not> shouldEscape m c"
proof -
  have pc: "CHR ''%'' \<in> set hex_digit_chars" by (simp add: hex_digit_chars_def)
  have "c \<in> set hex_digit_chars \<or> \<not> shouldEscape m c" if "c \<in> set (escape_char m x)" for x
  proof (cases "shouldEscape m x")
    case True
    have "byte x div 16 < 16" "byte x mod 16 < 16"
      using byte_less [of x] by (simp_all add: less_mult_imp_div_less)
    with that pc True show ?thesis unfolding escape_char_def by (auto intro: upper_hex_mem)
  next
    case False
    with that show ?thesis by (simp add: escape_char_def)
  qed
  then show "c \<in> set (escape m s) \<Longrightarrow> c \<in> set hex_digit_chars \<or> \<not> shouldEscape m c"
    unfolding escape_def set_concat set_map by blast
qed

lemma escape_eq_Nil [simp]: "escape m s = [] \<longleftrightarrow> s = []"
  by (cases s) (simp_all add: escape_def escape_char_def)

text \<open>A byte an escaper always escapes, other than the percent sign and hex digits, never comes out.\<close>

lemma not_in_escape:
  "shouldEscape m c \<Longrightarrow> c \<notin> set hex_digit_chars \<Longrightarrow> c \<notin> set (escape m s)"
  using escape_chars by blast

lemma unescape_plain:
  "m = EncHost \<Longrightarrow> list_all (\<lambda>c. \<not> shouldEscape m c) s \<Longrightarrow> unescape m s = Some s"
proof (induction s)
  case (Cons c s)
  then have "c \<noteq> CHR ''%''" using shouldEscape_percent [of EncHost] by auto
  with Cons show ?case by simp
qed simp

subsection \<open>URL values a browser can navigate to\<close>

definition user_text :: "userinfo option \<Rightarrow> string" where
  "user_text ui = (case ui of None \<Rightarrow> [] | Some i \<Rightarrow> userinfo_String i @ ''@'')"

text \<open>A field and its raw form, as \<open>url.Parse\<close> leaves them: a raw form is kept when it differs.\<close>

definition raw_ok :: "encoding \<Rightarrow> string \<Rightarrow> string \<Rightarrow> bool" where
  "raw_ok m plain raw \<longleftrightarrow>
     raw = [] \<or> validEncoded m raw \<and> unescape m raw = Some plain \<and> raw \<noteq> escape m plain"

definition host_ok :: "string \<Rightarrow> bool" where
  "host_ok h \<longleftrightarrow> h \<noteq> [] \<and> list_all (\<lambda>c. \<not> shouldEscape EncHost c) h \<and> parseHost h = Some h"

definition target_ok :: "url \<Rightarrow> bool" where
  "target_ok u \<longleftrightarrow>
     http_scheme (Scheme u) \<and> Opaque u = [] \<and> host_ok (Host u) \<and> \<not> OmitHost u \<and>
     User u \<noteq> Some (UserPassword [] []) \<and>
     (EscapedPath u = [] \<or> has_prefix (Path u) ''/'' \<and> has_prefix (EscapedPath u) ''/'') \<and>
     (Path u = [] \<longrightarrow> RawPath u = []) \<and> raw_ok EncPath (Path u) (RawPath u) \<and>
     list_all (\<lambda>c. \<not> is_ctl c \<and> c \<noteq> CHR ''#'') (RawQuery u) \<and>
     (ForceQuery u \<longrightarrow> RawQuery u = []) \<and>
     (Fragment u = [] \<longrightarrow> RawFragment u = []) \<and> raw_ok EncFragment (Fragment u) (RawFragment u)"

text \<open>The bytes that delimit a URL never come out of a printed field.\<close>

definition delimiter :: "char \<Rightarrow> bool" where
  "delimiter c \<longleftrightarrow> is_ctl c \<or> c = CHR ''?'' \<or> c = CHR ''#''"

lemma is_ctl_not_mem: "is_ctl c \<Longrightarrow> list_all (\<lambda>d. \<not> is_ctl d) s \<Longrightarrow> c \<notin> set s"
  by (auto simp: list_all_iff)

lemma ctl_escaped:
  assumes "is_ctl c"
  shows "shouldEscape m c"
proof -
  have al: "\<not> is_alnum c" "byte c \<noteq> 39" "byte c \<noteq> 34"
    using assms by (auto simp: is_ctl_def is_alnum_def is_alpha_def is_lower_def is_upper_def is_digit_def)
  have nm: "\<not> List.member s c" if "list_all (\<lambda>d. \<not> is_ctl d) s" for s
    using is_ctl_not_mem [OF assms that] by simp
  have "\<not> List.member ''!$&'' c" "\<not> List.member ''()*+,;=:[]<>'' c" "\<not> List.member ''-_.~'' c"
    "\<not> List.member ''$&+,/:;=?@'' c" "\<not> List.member ''!()*'' c"
    by (rule nm, code_simp)+
  then show ?thesis unfolding shouldEscape_def using al by simp
qed

lemma delimiter_escaped_path:
  assumes "delimiter c"
  shows "shouldEscape EncPath c \<and> \<not> List.member ''!$&()*+,;=:@[]%'' c \<and> byte c \<noteq> 39"
proof (cases "is_ctl c")
  case True
  have "\<not> List.member ''!$&()*+,;=:@[]%'' c"
    using is_ctl_not_mem [OF True, of "''!$&()*+,;=:@[]%''"] by (simp add: is_ctl_def)
  with True show ?thesis by (auto simp: ctl_escaped is_ctl_def)
next
  case False
  then have "c = CHR ''?'' \<or> c = CHR ''#''" using assms by (simp add: delimiter_def)
  moreover have "shouldEscape EncPath CHR ''?''" "shouldEscape EncPath CHR ''#''" by code_simp+
  ultimately show ?thesis by auto
qed

lemma delimiter_not_hex: "delimiter c \<Longrightarrow> c \<notin> set hex_digit_chars"
  by (auto simp: delimiter_def hex_digit_chars_def is_ctl_def)

lemma EscapedPath_facts:
  assumes "target_ok u"
  shows "unescape EncPath (EscapedPath u) = Some (Path u)"
    "RawPath u = (if EscapedPath u = escape EncPath (Path u) then [] else EscapedPath u)"
    "delimiter c \<Longrightarrow> c \<notin> set (EscapedPath u)"
proof -
  have raw: "raw_ok EncPath (Path u) (RawPath u)" using assms by (simp add: target_ok_def)
  show "unescape EncPath (EscapedPath u) = Some (Path u)"
    "RawPath u = (if EscapedPath u = escape EncPath (Path u) then [] else EscapedPath u)"
    "delimiter c \<Longrightarrow> c \<notin> set (EscapedPath u)"
  proof (atomize (full), cases "RawPath u = []")
    case True
    then have ep: "EscapedPath u = escape EncPath (Path u)"
      using assms by (auto simp: EscapedPath_def target_ok_def)
    show "unescape EncPath (EscapedPath u) = Some (Path u) \<and>
      RawPath u = (if EscapedPath u = escape EncPath (Path u) then [] else EscapedPath u) \<and>
      (delimiter c \<longrightarrow> c \<notin> set (EscapedPath u))"
      unfolding ep using True delimiter_escaped_path delimiter_not_hex not_in_escape
      by (auto simp: unescape_escape)
  next
    case False
    with raw have ep: "EscapedPath u = RawPath u" and v: "validEncoded EncPath (RawPath u)"
      and un: "unescape EncPath (RawPath u) = Some (Path u)" and ne: "RawPath u \<noteq> escape EncPath (Path u)"
      by (auto simp: EscapedPath_def raw_ok_def)
    have "c \<notin> set (RawPath u)" if "delimiter c"
      using delimiter_escaped_path [OF that] v unfolding validEncoded_def list_all_iff by blast
    then show "unescape EncPath (EscapedPath u) = Some (Path u) \<and>
      RawPath u = (if EscapedPath u = escape EncPath (Path u) then [] else EscapedPath u) \<and>
      (delimiter c \<longrightarrow> c \<notin> set (EscapedPath u))"
      unfolding ep using un ne by simp
  qed
qed

lemma EscapedFragment_facts:
  assumes "target_ok u"
  shows "unescape EncFragment (EscapedFragment u) = Some (Fragment u)"
    "RawFragment u = (if EscapedFragment u = escape EncFragment (Fragment u) then [] else EscapedFragment u)"
    "EscapedFragment u = [] \<longleftrightarrow> Fragment u = []"
proof -
  have raw: "raw_ok EncFragment (Fragment u) (RawFragment u)"
    "Fragment u = [] \<longrightarrow> RawFragment u = []" using assms by (simp_all add: target_ok_def)
  show "unescape EncFragment (EscapedFragment u) = Some (Fragment u)"
    "RawFragment u = (if EscapedFragment u = escape EncFragment (Fragment u) then [] else EscapedFragment u)"
    "EscapedFragment u = [] \<longleftrightarrow> Fragment u = []"
    using raw unescape_escape [of EncFragment "Fragment u"]
    by (auto simp: EscapedFragment_def raw_ok_def)
qed

subsection \<open>The authority\<close>

lemma reserved_escaped:
  "c \<in> {CHR ''/'', CHR ''?'', CHR ''#'', CHR ''@''} \<Longrightarrow> shouldEscape EncHost c \<and> shouldEscape EncUserPassword c"
  "shouldEscape EncUserPassword CHR '':''"
proof -
  have "list_all (\<lambda>c. shouldEscape EncHost c \<and> shouldEscape EncUserPassword c) ''/?#@''" by code_simp
  then show "c \<in> {CHR ''/'', CHR ''?'', CHR ''#'', CHR ''@''} \<Longrightarrow>
      shouldEscape EncHost c \<and> shouldEscape EncUserPassword c"
    by (auto simp: list_all_iff)
  show "shouldEscape EncUserPassword CHR '':''" by code_simp
qed

definition auth_delim :: "char \<Rightarrow> bool" where
  "auth_delim c \<longleftrightarrow> delimiter c \<or> c = CHR ''/''"

lemma auth_delim_escaped:
  assumes "auth_delim c \<or> c = CHR ''@''"
  shows "shouldEscape EncHost c" "shouldEscape EncUserPassword c" "c \<notin> set hex_digit_chars"
    "c \<noteq> CHR '':''"
  using assms reserved_escaped(1) [of c] ctl_escaped [of c]
  by (auto simp: auth_delim_def delimiter_def hex_digit_chars_def is_ctl_def)

lemma host_chars:
  "host_ok h \<Longrightarrow> auth_delim c \<or> c = CHR ''@'' \<Longrightarrow> c \<notin> set h"
  using auth_delim_escaped(1) by (auto simp: host_ok_def list_all_iff)

lemma userinfo_chars:
  assumes "auth_delim c \<or> c = CHR ''@''"
  shows "c \<notin> set (userinfo_String ui)"
proof -
  have "\<And>s. c \<notin> set (escape EncUserPassword s)"
    by (rule not_in_escape) (rule auth_delim_escaped [OF assms])+
  then show ?thesis using auth_delim_escaped(4) [OF assms]
    by (auto simp: userinfo_String_def split: userinfo.splits if_splits)
qed

lemma validUserinfo_escape: "validUserinfo (escape EncUserPassword s)"
proof -
  have hex: "list_all (\<lambda>c. is_alnum c \<or> List.member ''-._:~!$&()*+,;=%@'' c) hex_digit_chars"
    by code_simp
  have "is_alnum c \<or> List.member ''-._:~!$&()*+,;=%@'' c"
    if "\<not> shouldEscape EncUserPassword c" for c
    using that by (auto simp: shouldEscape_def split: if_splits)
  with hex escape_chars [of _ EncUserPassword s] show ?thesis
    unfolding validUserinfo_def list_all_iff by blast
qed

lemma validUserinfo_append [simp]:
  "validUserinfo (s @ t) \<longleftrightarrow> validUserinfo s \<and> validUserinfo t"
  "validUserinfo (CHR '':'' # t) = validUserinfo t"
  by (simp_all add: validUserinfo_def)

lemma takeWhile_notin: "c \<notin> set s \<Longrightarrow> takeWhile (\<lambda>x. x \<noteq> c) s = s"
  by (induction s) auto

lemma dropWhile_notin: "c \<notin> set s \<Longrightarrow> dropWhile (\<lambda>x. x \<noteq> c) s = []"
  by (induction s) auto

lemma cut_byte_absent: "c \<notin> set s \<Longrightarrow> cut_byte c s = (s, [], False)"
  by (simp add: cut_byte_def takeWhile_notin dropWhile_notin)

lemma cut_byte_present: "c \<notin> set s \<Longrightarrow> cut_byte c (s @ c # t) = (s, t, True)"
  by (simp add: cut_byte_def takeWhile_append dropWhile_append takeWhile_notin dropWhile_notin)

lemma last_index_byte_append:
  "c \<notin> set t \<Longrightarrow> last_index_byte (s @ c # t) c = Some (length s)"
  using index_byte_append_notin [of c "rev t" "rev s"] by (simp add: last_index_byte_def)

lemma last_index_byte_None [simp]: "last_index_byte s c = None \<longleftrightarrow> c \<notin> set s"
  by (simp add: last_index_byte_def)

lemma parse_userinfo:
  assumes "ui \<noteq> UserPassword [] []"
  shows "(let (name, pw, colon) = cut_byte CHR '':'' (userinfo_String ui) in
      if \<not> colon then map_option (\<lambda>n. (Some (UserOnly n), h)) (unescape EncUserPassword (userinfo_String ui))
      else case (unescape EncUserPassword name, unescape EncUserPassword pw) of
          (Some n, Some p) \<Rightarrow> Some (Some (UserPassword n p), h)
        | _ \<Rightarrow> None) = Some (Some ui, h)"
    "validUserinfo (userinfo_String ui)"
proof -
  have colon: "CHR '':'' \<notin> set (escape EncUserPassword s)" for s
    by (rule not_in_escape) (simp_all add: reserved_escaped hex_digit_chars_def)
  show "(let (name, pw, colon) = cut_byte CHR '':'' (userinfo_String ui) in
      if \<not> colon then map_option (\<lambda>n. (Some (UserOnly n), h)) (unescape EncUserPassword (userinfo_String ui))
      else case (unescape EncUserPassword name, unescape EncUserPassword pw) of
          (Some n, Some p) \<Rightarrow> Some (Some (UserPassword n p), h)
        | _ \<Rightarrow> None) = Some (Some ui, h)"
    using assms colon
    by (cases ui) (auto simp: userinfo_String_def cut_byte_absent cut_byte_present unescape_escape)
  show "validUserinfo (userinfo_String ui)"
    by (cases ui) (auto simp: userinfo_String_def validUserinfo_escape, simp add: validUserinfo_def)
qed

lemma parseAuthority_text:
  assumes "host_ok h" "ui \<noteq> Some (UserPassword [] [])"
  shows "parseAuthority (user_text ui @ h) = Some (ui, h)"
proof (cases ui)
  case None
  have "CHR ''@'' \<notin> set h" using host_chars [OF assms(1)] by blast
  then have "last_index_byte h CHR ''@'' = None" by simp
  with None assms(1) show ?thesis
    by (simp add: parseAuthority_def user_text_def host_ok_def del: last_index_byte_None)
next
  case (Some i)
  have h: "CHR ''@'' \<notin> set h" "parseHost h = Some h"
    using host_chars [OF assms(1)] assms(1) by (auto simp: host_ok_def)
  have i: "i \<noteq> UserPassword [] []" using assms(2) Some by simp
  have "last_index_byte (userinfo_String i @ CHR ''@'' # h) CHR ''@'' = Some (length (userinfo_String i))"
    by (rule last_index_byte_append) (rule h(1))
  then show ?thesis
    using parse_userinfo(1) [OF i, of h] parse_userinfo(2) [OF i]
    by (simp add: Some user_text_def parseAuthority_def h Let_def)
qed

subsection \<open>Parsing what was printed\<close>

definition query_text :: "url \<Rightarrow> string" where
  "query_text u = (if ForceQuery u \<or> RawQuery u \<noteq> [] then ''?'' @ RawQuery u else [])"

definition fragment_text :: "url \<Rightarrow> string" where
  "fragment_text u = (if Fragment u \<noteq> [] then ''#'' @ EscapedFragment u else [])"

definition auth_text :: "url \<Rightarrow> string" where
  "auth_text u = user_text (User u) @ Host u"

lemma url_String_target:
  assumes "target_ok u"
  shows "url_String u =
    (Scheme u @ ''://'' @ auth_text u @ EscapedPath u @ query_text u) @ fragment_text u"
proof -
  have "Scheme u \<noteq> []" "Opaque u = []" "Host u \<noteq> []" "EscapedPath u = [] \<or> has_prefix (EscapedPath u) ''/''"
    "escape EncHost (Host u) = Host u"
    using assms by (auto simp: target_ok_def host_ok_def http_scheme_def escape_unreserved)
  then show ?thesis
    by (auto simp: url_String_def authority_String_def user_text_def query_text_def fragment_text_def
        auth_text_def Let_def split: option.splits)
qed

lemma auth_text_chars: "target_ok u \<Longrightarrow> auth_delim c \<Longrightarrow> c \<notin> set (auth_text u)"
  using host_chars [of "Host u" c] userinfo_chars [of c]
  by (auto simp: target_ok_def auth_text_def user_text_def auth_delim_def delimiter_def is_ctl_def
      split: option.splits)

lemma getScheme_http:
  "http_scheme sch \<Longrightarrow> getScheme (sch @ CHR '':'' # s) = Some (sch, s)"
  by (auto simp: getScheme_def http_scheme_def is_alpha_def is_lower_def is_upper_def scheme_char_def is_digit_def)

lemma parse_query_text:
  assumes "CHR ''?'' \<notin> set s" "ForceQuery u \<longrightarrow> RawQuery u = []"
  shows "parse_query (s @ query_text u) = (s, RawQuery u, ForceQuery u)"
proof (cases "RawQuery u = []")
  case True
  with assms show ?thesis
    by (auto simp: query_text_def parse_query_def cut_byte_absent suffix_def)
next
  case False
  then have "\<not> (has_suffix (s @ CHR ''?'' # RawQuery u) ''?'' \<and> count_list (s @ CHR ''?'' # RawQuery u) CHR ''?'' = 1)"
    by (cases "RawQuery u" rule: rev_cases) (auto simp: suffix_def)
  with False assms show ?thesis
    by (simp add: query_text_def parse_query_def cut_byte_present)
qed

lemma takeWhile_slash:
  assumes "CHR ''/'' \<notin> set a" "p = [] \<or> has_prefix p ''/''"
  shows "takeWhile (\<lambda>c. c \<noteq> CHR ''/'') (a @ p) = a" "dropWhile (\<lambda>c. c \<noteq> CHR ''/'') (a @ p) = p"
proof -
  have p: "takeWhile (\<lambda>c. c \<noteq> CHR ''/'') p = []" "dropWhile (\<lambda>c. c \<noteq> CHR ''/'') p = p"
    using assms(2) by (cases p; simp)+
  then show "takeWhile (\<lambda>c. c \<noteq> CHR ''/'') (a @ p) = a" "dropWhile (\<lambda>c. c \<noteq> CHR ''/'') (a @ p) = p"
    using assms(1) by (simp_all add: takeWhile_append dropWhile_append takeWhile_notin dropWhile_notin)
qed

lemma parse_nofrag_target:
  assumes "target_ok u"
  shows "parse_nofrag (Scheme u @ ''://'' @ auth_text u @ EscapedPath u @ query_text u) =
    Some (u\<lparr>Fragment := [], RawFragment := []\<rparr>)"
proof -
  let ?rest = "''//'' @ auth_text u @ EscapedPath u"
  have ok: "http_scheme (Scheme u)" "host_ok (Host u)" "User u \<noteq> Some (UserPassword [] [])"
    "EscapedPath u = [] \<or> has_prefix (EscapedPath u) ''/''" "ForceQuery u \<longrightarrow> RawQuery u = []"
    using assms by (auto simp: target_ok_def)
  have dl: "is_ctl c \<Longrightarrow> auth_delim c" "is_ctl c \<Longrightarrow> delimiter c" for c
    by (simp_all add: auth_delim_def delimiter_def)
  have "\<not> list_ex is_ctl (Scheme u)" using ok(1) by (auto simp: http_scheme_def is_ctl_def)
  moreover have "\<not> list_ex is_ctl (auth_text u)"
    using auth_text_chars [OF assms] dl(1) unfolding list_ex_iff by blast
  moreover have "\<not> list_ex is_ctl (EscapedPath u)"
    using EscapedPath_facts(3) [OF assms] dl(2) unfolding list_ex_iff by blast
  moreover have "\<not> list_ex is_ctl (query_text u)"
  proof -
    have "\<not> is_ctl CHR ''?''" by (simp add: is_ctl_def)
    moreover have "list_all (\<lambda>c. \<not> is_ctl c \<and> c \<noteq> CHR ''#'') (RawQuery u)"
      using assms by (simp add: target_ok_def)
    then have "\<not> list_ex is_ctl (RawQuery u)" unfolding list_ex_iff list_all_iff by blast
    ultimately show ?thesis by (simp add: query_text_def)
  qed
  ultimately have ctl: "\<not> list_ex is_ctl (Scheme u @ ''://'' @ auth_text u @ EscapedPath u @ query_text u)"
    by (simp add: is_ctl_def)
  have ne: "Scheme u @ ''://'' @ auth_text u @ EscapedPath u @ query_text u \<noteq> ''*''"
    using ok(1) by (auto simp: http_scheme_def)
  have "auth_delim CHR ''?''" "delimiter CHR ''?''" by (simp_all add: auth_delim_def delimiter_def)
  then have "CHR ''?'' \<notin> set ?rest"
    using auth_text_chars [OF assms] EscapedPath_facts(3) [OF assms] by simp
  then have pq: "parse_query (?rest @ query_text u) = (?rest, RawQuery u, ForceQuery u)"
    using ok(5) by (rule parse_query_text)
  have sch: "to_lower (Scheme u) = Scheme u" "Scheme u \<noteq> []"
    using ok(1) by (auto simp: http_scheme_def lower_char_def is_upper_def)
  have "CHR ''/'' \<notin> set (auth_text u)" by (rule auth_text_chars [OF assms]) (simp add: auth_delim_def)
  note slash = takeWhile_slash [OF this ok(4)]
  have pa: "parseAuthority (auth_text u) = Some (User u, Host u)"
    unfolding auth_text_def by (rule parseAuthority_text [OF ok(2,3)])
  have gs: "getScheme (Scheme u @ ''://'' @ auth_text u @ EscapedPath u @ query_text u) =
      Some (Scheme u, ?rest @ query_text u)"
    using getScheme_http [OF ok(1)] by simp
  show ?thesis
    using ctl ne assms EscapedPath_facts(1,2) [OF assms]
    by (simp add: parse_nofrag_def gs [simplified] pq [simplified] sch slash [simplified] pa Let_def
        setPath_def target_ok_def empty_url_def)
qed

lemma url_Parse_String:
  assumes "target_ok u"
  shows "url_Parse (url_String u) = Some u"
proof -
  let ?pre = "Scheme u @ ''://'' @ auth_text u @ EscapedPath u @ query_text u"
  have d: "auth_delim CHR ''#''" "delimiter CHR ''#''" by (simp_all add: auth_delim_def delimiter_def)
  have "list_all (\<lambda>c. \<not> is_ctl c \<and> c \<noteq> CHR ''#'') (RawQuery u)"
    using assms by (simp add: target_ok_def)
  then have "CHR ''#'' \<notin> set (RawQuery u)" unfolding list_all_iff by blast
  moreover have "http_scheme (Scheme u)" using assms by (simp add: target_ok_def)
  then have "CHR ''#'' \<notin> set (Scheme u)" by (auto simp: http_scheme_def)
  moreover note d auth_text_chars [OF assms] EscapedPath_facts(3) [OF assms]
  ultimately have pre: "CHR ''#'' \<notin> set ?pre"
    by (simp add: query_text_def)
  show ?thesis
  proof (cases "Fragment u = []")
    case True
    then have "fragment_text u = []" "RawFragment u = []"
      using assms by (simp_all add: fragment_text_def target_ok_def)
    with True pre show ?thesis
      by (simp add: url_Parse_def url_String_target [OF assms] cut_byte_absent
          parse_nofrag_target [OF assms, simplified])
  next
    case False
    then have "fragment_text u = CHR ''#'' # EscapedFragment u" "EscapedFragment u \<noteq> []"
      using EscapedFragment_facts(3) [OF assms] by (simp_all add: fragment_text_def)
    moreover have "cut_byte CHR ''#'' (?pre @ CHR ''#'' # EscapedFragment u) = (?pre, EscapedFragment u, True)"
      by (rule cut_byte_present [OF pre])
    ultimately show ?thesis
      using parse_nofrag_target [OF assms] EscapedFragment_facts(1,2) [OF assms]
      unfolding url_Parse_def url_String_target [OF assms]
      by (simp add: setFragment_def)
  qed
qed

lemma url_String_not_Nil: "target_ok u \<Longrightarrow> url_String u \<noteq> []"
  by (auto simp: url_String_target target_ok_def http_scheme_def)

lemma Decode_Encode_eq:
  assumes "target_ok u" "extra = [] \<or> has_prefix extra ''/''"
  shows "Decode (Encode u @ extra) = Inr u"
proof -
  have "http_scheme (Scheme u)" "Host u \<noteq> []" using assms(1) by (auto simp: target_ok_def host_ok_def)
  then show ?thesis
    unfolding Encode_EncodeString Decode_EncodeString_eq [OF url_String_not_Nil [OF assms(1)] assms(2)]
      url_Parse_String [OF assms(1)]
    by simp
qed

subsection \<open>Properties\<close>

definition sample_target :: url where
  "sample_target = empty_url\<lparr>Scheme := ''https'', User := Some (UserPassword ''me'' ''p:w''),
     Host := ''example.com:8443'', Path := ''/a b/c'', RawPath := ''/a%20b%2Fc'',
     RawQuery := ''q=1&r=?'', Fragment := ''top %''\<rparr>"

text \<open>
  C20.  Links round trip.  Decoding the link of a navigable URL, whatever extra path segments
  follow the token, gives back the URL field by field, and a query on the link request itself (a
  submitted form) replaces the query of the target.
\<close>

theorem DecodeRequest_Encode:
  assumes "target_ok u" "extra = [] \<or> has_prefix extra ''/''"
  shows "DecodeRequest (Encode u @ extra) q =
    Inr (if q = [] then u else u\<lparr>RawQuery := q, ForceQuery := False\<rparr>)"
  using Decode_Encode_eq [OF assms] by (simp add: DecodeRequest_def)

lemma sample_target_ok: "target_ok sample_target"
  unfolding sample_target_def by code_simp

theorem DecodeRequest_Encode_witness:
  "DecodeRequest (Encode sample_target @ ''/extra'') ''x=y'' =
    Inr (sample_target\<lparr>RawQuery := ''x=y'', ForceQuery := False\<rparr>)"
  using DecodeRequest_Encode [OF sample_target_ok, of "''/extra''" "''x=y''"] by simp

text \<open>
  Whatever text a client puts in a link, a target that comes out of it is an http or https
  URL with a host, parsed from the bytes the token encodes; the only other change is the query.
\<close>

theorem DecodeRequest_safe:
  assumes "DecodeRequest p q = Inr v"
  shows "http_scheme (Scheme v) \<and> Host v \<noteq> [] \<and>
    (\<exists>raw u. url_decode (link_token p) = Some raw \<and> url_Parse raw = Some u \<and>
       v = (if q = [] then u else u\<lparr>RawQuery := q, ForceQuery := False\<rparr>))"
proof -
  obtain u where u: "Decode p = Inr u" "v = (if q \<noteq> [] then u\<lparr>RawQuery := q, ForceQuery := False\<rparr> else u)"
    using assms unfolding DecodeRequest_Inr_iff by blast
  have "Scheme v = Scheme u" "Host v = Host u" using u(2) by simp_all
  with Decode_InrD [OF u(1)] u(2) show ?thesis by metis
qed

theorem DecodeRequest_safe_witness:
  "\<exists>v. DecodeRequest (Encode sample_target) [] = Inr v \<and> http_scheme (Scheme v) \<and> Host v \<noteq> []"
  using DecodeRequest_safe [of "Encode sample_target" "[]"]
    Decode_Encode_eq [OF sample_target_ok, of "[]"] by (simp add: DecodeRequest_def)

text \<open>
  C40.  A reference in a page that parses, and that has none of the prefixes which are never
  rewritten, becomes a link whose target is the reference resolved against the page, provided
  that target is navigable: following the link reaches what the page named.
\<close>

theorem Resolve_link:
  assumes "target_ok tgt" "tgt = ResolveReference base u" "url_Parse (trim_space ref) = Some u"
    "trim_space ref \<noteq> []" "\<not> (\<exists>p\<in>set nonNavigational. has_prefix (to_lower (trim_space ref)) p)"
  shows "Decode (Resolve base ref) = Inr tgt"
proof -
  have "http_scheme (Scheme tgt)" using assms(1) by (simp add: target_ok_def)
  then have "Resolve base ref = Encode tgt"
    using assms(2-5) by (simp add: Resolve_def list_ex_iff Let_def)
  then show ?thesis using Decode_Encode_eq [OF assms(1), of "[]"] by simp
qed

definition sample_base :: url where
  "sample_base = empty_url\<lparr>Scheme := ''http'', Host := ''example.org'', Path := ''/docs/a/b.html''\<rparr>"

theorem Resolve_link_witness:
  "Decode (Resolve sample_base '' ../c?d '') =
     Inr (empty_url\<lparr>Scheme := ''http'', Host := ''example.org'', Path := ''/docs/c'', RawQuery := ''d''\<rparr>)"
proof (rule Resolve_link [of _ sample_base "empty_url\<lparr>Path := ''../c'', RawQuery := ''d''\<rparr>"])
  show "target_ok (empty_url\<lparr>Scheme := ''http'', Host := ''example.org'', Path := ''/docs/c'', RawQuery := ''d''\<rparr>)"
    by code_simp
  show "empty_url\<lparr>Scheme := ''http'', Host := ''example.org'', Path := ''/docs/c'', RawQuery := ''d''\<rparr> =
    ResolveReference sample_base (empty_url\<lparr>Path := ''../c'', RawQuery := ''d''\<rparr>)"
    unfolding sample_base_def by code_simp
  show "url_Parse (trim_space '' ../c?d '') = Some (empty_url\<lparr>Path := ''../c'', RawQuery := ''d''\<rparr>)"
    "trim_space '' ../c?d '' \<noteq> []"
    "\<not> (\<exists>p\<in>set nonNavigational. has_prefix (to_lower (trim_space '' ../c?d '')) p)"
    by code_simp+
qed

end
