(* ===== verification/Http.thy ===== *)
theory Http
  imports Go_URL "HOL-Library.AList"
begin

section \<open>net/http: headers, requests and response writers\<close>

text \<open>
  What the server uses of Go's \<open>net/http\<close>.  An \<open>http.Header\<close> is a Go map from keys to lists of
  values; here an association list whose order is the order a \<open>range\<close> loop happens to visit
  the keys in, so a statement for all lists is a statement for every iteration order.  \<open>Get\<close>,
  \<open>Set\<close>, \<open>Add\<close>, \<open>Del\<close> and \<open>Values\<close> canonicalise the key first, as the methods of \<open>http.Header\<close> do.
\<close>

type_synonym header = "(string \<times> string list) list"

subsection \<open>Tokens and canonical keys\<close>

definition token_byte :: "char \<Rightarrow> bool" where
  "token_byte c \<longleftrightarrow> is_alnum c \<or> byte c = 39 \<or> byte c = 96 \<or> List.member ''!#$%&*+-.^_|~'' c"

definition is_http_token :: "string \<Rightarrow> bool" where
  "is_http_token s \<longleftrightarrow> s \<noteq> [] \<and> list_all token_byte s"

definition upper_char :: "char \<Rightarrow> char" where
  "upper_char c = (if is_lower c then char_of (byte c - 32) else c)"

fun canon_from :: "bool \<Rightarrow> string \<Rightarrow> string" where
  "canon_from up [] = []"
| "canon_from up (c # s) = (if up then upper_char c else lower_char c) # canon_from (c = CHR ''-'') s"

definition CanonicalHeaderKey :: "string \<Rightarrow> string" where
  "CanonicalHeaderKey k = (if list_all token_byte k then canon_from True k else k)"

subsection \<open>Header maps\<close>

definition hdr_values :: "header \<Rightarrow> string \<Rightarrow> string list" where
  "hdr_values h k = (case map_of h k of None \<Rightarrow> [] | Some vs \<Rightarrow> vs)"

definition Values :: "header \<Rightarrow> string \<Rightarrow> string list" where
  "Values h k = hdr_values h (CanonicalHeaderKey k)"

definition Get :: "header \<Rightarrow> string \<Rightarrow> string" where
  "Get h k = (case Values h k of [] \<Rightarrow> [] | v # _ \<Rightarrow> v)"

definition hdr_assign :: "string \<Rightarrow> string list \<Rightarrow> header \<Rightarrow> header" where
  "hdr_assign k vs h = AList.update k vs h"

definition Set_hdr :: "string \<Rightarrow> string \<Rightarrow> header \<Rightarrow> header" where
  "Set_hdr k v h = hdr_assign (CanonicalHeaderKey k) [v] h"

definition Add_hdr :: "string \<Rightarrow> string \<Rightarrow> header \<Rightarrow> header" where
  "Add_hdr k v h = hdr_assign (CanonicalHeaderKey k) (Values h k @ [v]) h"

definition Del_hdr :: "string \<Rightarrow> header \<Rightarrow> header" where
  "Del_hdr k h = AList.delete (CanonicalHeaderKey k) h"

text \<open>Canonicalisation is stable, so stored keys are found again.\<close>

lemma byte_upper_char: "byte (upper_char c) = (if is_lower c then byte c - 32 else byte c)"
proof -
  have "byte c - 32 < 256" using byte_less [of c] by linarith
  then show ?thesis by (simp add: upper_char_def)
qed

lemma upper_char_cases:
  "is_lower c \<and> is_upper (upper_char c) \<or> \<not> is_lower c \<and> upper_char c = c"
  by (cases "is_lower c") (auto simp: is_upper_def byte_upper_char, auto simp: upper_char_def is_lower_def)

lemma lower_char_cases:
  "is_upper c \<and> is_lower (lower_char c) \<or> \<not> is_upper c \<and> lower_char c = c"
  by (cases "is_upper c") (auto simp: is_lower_def byte_lower_char, auto simp: lower_char_def is_upper_def)

lemma token_byte_alpha: "is_lower c \<Longrightarrow> token_byte c" "is_upper c \<Longrightarrow> token_byte c"
  by (simp_all add: token_byte_def is_alnum_def is_alpha_def)

lemma token_byte_case [simp]: "token_byte (upper_char c) = token_byte c" "token_byte (lower_char c) = token_byte c"
  using upper_char_cases [of c] lower_char_cases [of c] token_byte_alpha by metis+

lemma dash_case [simp]: "upper_char c = CHR ''-'' \<longleftrightarrow> c = CHR ''-''" "lower_char c = CHR ''-'' \<longleftrightarrow> c = CHR ''-''"
proof -
  have "\<not> is_upper CHR ''-''" "\<not> is_lower CHR ''-''" by (simp_all add: is_upper_def is_lower_def)
  then show "upper_char c = CHR ''-'' \<longleftrightarrow> c = CHR ''-''" "lower_char c = CHR ''-'' \<longleftrightarrow> c = CHR ''-''"
    using upper_char_cases [of c] upper_char_cases [of "CHR ''-''"] lower_char_cases [of c] by metis+
qed

lemma upper_char_idem [simp]: "upper_char (upper_char c) = upper_char c"
proof -
  have "is_upper (upper_char c) \<Longrightarrow> \<not> is_lower (upper_char c)" by (auto simp: is_upper_def is_lower_def)
  then show ?thesis using upper_char_cases [of c] upper_char_cases [of "upper_char c"] by metis
qed

lemma list_all_canon_from [simp]: "list_all token_byte (canon_from up s) = list_all token_byte s"
  by (induction up s rule: canon_from.induct) simp_all

lemma canon_from_idem: "canon_from up (canon_from up s) = canon_from up s"
  by (induction up s rule: canon_from.induct) simp_all

lemma Canonical_idem [simp]: "CanonicalHeaderKey (CanonicalHeaderKey k) = CanonicalHeaderKey k"
  by (simp add: CanonicalHeaderKey_def canon_from_idem)

text \<open>The map laws of the operations, on the abstraction \<open>map_of\<close>.\<close>

lemma map_of_assign [simp]: "map_of (hdr_assign k vs h) = (map_of h)(k \<mapsto> vs)"
  by (simp add: hdr_assign_def update_conv')

lemma map_of_Set [simp]: "map_of (Set_hdr k v h) = (map_of h)(CanonicalHeaderKey k \<mapsto> [v])"
  by (simp add: Set_hdr_def)

lemma map_of_Add [simp]: "map_of (Add_hdr k v h) = (map_of h)(CanonicalHeaderKey k \<mapsto> Values h k @ [v])"
  by (simp add: Add_hdr_def)

lemma map_of_Del [simp]: "map_of (Del_hdr k h) = (map_of h)(CanonicalHeaderKey k := None)"
  by (simp add: Del_hdr_def delete_conv')

lemma Values_Set: "Values (Set_hdr k v h) j = (if CanonicalHeaderKey j = CanonicalHeaderKey k then [v] else Values h j)"
  by (simp add: Values_def hdr_values_def)

lemma Values_Del: "Values (Del_hdr k h) j = (if CanonicalHeaderKey j = CanonicalHeaderKey k then [] else Values h j)"
  by (simp add: Values_def hdr_values_def)

lemma Get_Set: "Get (Set_hdr k v h) j = (if CanonicalHeaderKey j = CanonicalHeaderKey k then v else Get h j)"
  by (simp add: Get_def Values_Set)

lemma Get_Del: "Get (Del_hdr k h) j = (if CanonicalHeaderKey j = CanonicalHeaderKey k then [] else Get h j)"
  by (simp add: Get_def Values_Del)

lemma Values_map_of: "map_of g = map_of h \<Longrightarrow> Values g k = Values h k"
  by (simp add: Values_def hdr_values_def)

lemmas hdr_laws = map_of_assign map_of_Set map_of_Add map_of_Del

subsection \<open>Requests and responses\<close>

text \<open>
  The parts of an \<open>http.Request\<close> the handlers read: \<open>URL\<close>, \<open>Host\<close>, the address of the peer and
  whether the connection is TLS.  \<open>ContentLength\<close> is \<open>-1\<close> when unknown.
\<close>

record request =
  rMethod :: string
  rURL :: url
  rHost :: string
  rHeader :: header
  rRemoteAddr :: string
  rTLS :: bool
  rContentLength :: int
  rBody :: bytes

text \<open>
  A response being written: the staged header map, the status once it has been sent (with the
  header map frozen at that moment), and the body bytes written so far.
\<close>

record writer =
  wHeader :: header
  wSent :: "(nat \<times> header) option"
  wBody :: bytes

definition fresh_writer :: writer where
  "fresh_writer = \<lparr>wHeader = [], wSent = None, wBody = []\<rparr>"

definition WriteHeader :: "nat \<Rightarrow> writer \<Rightarrow> writer" where
  "WriteHeader code w = (if wSent w = None then w\<lparr>wSent := Some (code, wHeader w)\<rparr> else w)"

definition Write :: "bytes \<Rightarrow> writer \<Rightarrow> writer" where
  "Write p w = (let w = WriteHeader 200 w in w\<lparr>wBody := wBody w @ p\<rparr>)"

definition hset :: "string \<Rightarrow> string \<Rightarrow> writer \<Rightarrow> writer" where
  "hset k v w = w\<lparr>wHeader := Set_hdr k v (wHeader w)\<rparr>"

definition newline :: string where
  "newline = [CHR 0x0A]"

definition http_Error :: "string \<Rightarrow> nat \<Rightarrow> writer \<Rightarrow> writer" where
  "http_Error msg code w =
     Write (msg @ newline) (WriteHeader code
       (hset ''X-Content-Type-Options'' ''nosniff'' (hset ''Content-Type'' ''text/plain; charset=utf-8''
         (w\<lparr>wHeader := Del_hdr ''Content-Length'' (wHeader w)\<rparr>))))"

definition http_NotFound :: "writer \<Rightarrow> writer" where
  "http_NotFound w = http_Error ''404 page not found'' 404 w"

definition wStatus :: "writer \<Rightarrow> nat option" where
  "wStatus w = map_option fst (wSent w)"

text \<open>
  \<open>http.Redirect\<close> to an absolute path: \<open>path.Clean\<close> removes dot segments and doubled slashes, unless
  the text parses with a host.
\<close>

fun clean_step :: "string \<Rightarrow> string list \<Rightarrow> string list" where
  "clean_step seg out =
     (if seg = [] \<or> seg = ''.'' then out else if seg = ''..'' then tl out else seg # out)"

definition path_Clean :: "string \<Rightarrow> string" where
  "path_Clean p = ''/'' @ join ''/'' (rev (fold clean_step (split_byte CHR ''/'' p) []))"

definition redirect_target :: "string \<Rightarrow> string" where
  "redirect_target u =
     (case url_Parse u of
        None \<Rightarrow> u
      | Some p \<Rightarrow>
          if Scheme p \<noteq> [] \<or> Host p \<noteq> [] then u
          else
            let (path, _, _) = cut_byte CHR ''?'' u; query = drop (length path) u; clean = path_Clean path in
            (if has_suffix path ''/'' \<and> \<not> has_suffix clean ''/'' then clean @ ''/'' else clean) @ query)"

definition html_escape :: "string \<Rightarrow> string" where
  "html_escape s = concat (map (\<lambda>c.
     if c = CHR ''&'' then ''&amp;'' else if c = CHR ''<'' then ''&lt;'' else if c = CHR ''>'' then ''&gt;''
     else if byte c = 34 then ''&#34;'' else if byte c = 39 then ''&#39;'' else [c]) s)"

definition hex_escape_non_ascii :: "string \<Rightarrow> string" where
  "hex_escape_non_ascii s = concat (map (\<lambda>c.
     if byte c < 128 then [c] else [CHR ''%'', digit_char (byte c div 16), digit_char (byte c mod 16)]) s)"

definition status_text :: "nat \<Rightarrow> string" where
  "status_text code = (if code = 301 then ''Moved Permanently'' else if code = 303 then ''See Other'' else [])"

definition http_Redirect :: "request \<Rightarrow> string \<Rightarrow> nat \<Rightarrow> writer \<Rightarrow> writer" where
  "http_Redirect r target code w =
     (let url = redirect_target target;
          had = map_of (wHeader w) ''Content-Type'' \<noteq> None;
          w1 = hset ''Location'' (hex_escape_non_ascii url) w;
          w2 = (if \<not> had \<and> (rMethod r = ''GET'' \<or> rMethod r = ''HEAD'')
                then hset ''Content-Type'' ''text/html; charset=utf-8'' w1 else w1);
          w3 = WriteHeader code w2
      in if \<not> had \<and> rMethod r = ''GET''
         then Write (''<a href='' @ [CHR 0x22] @ html_escape url @ [CHR 0x22, CHR ''>''] @ status_text code @ ''</a>.'' @ newline @ newline) w3
         else w3)"

lemma writer_simps [simp]:
  "wSent (WriteHeader c w) = (if wSent w = None then Some (c, wHeader w) else wSent w)"
  "wHeader (WriteHeader c w) = wHeader w" "wBody (WriteHeader c w) = wBody w"
  "wSent (Write p w) = (if wSent w = None then Some (200, wHeader w) else wSent w)"
  "wHeader (Write p w) = wHeader w" "wBody (Write p w) = wBody w @ p"
  "wSent (hset k v w) = wSent w" "wBody (hset k v w) = wBody w"
  "wHeader (hset k v w) = Set_hdr k v (wHeader w)"
  by (auto simp: WriteHeader_def Write_def hset_def Let_def)

lemma wStatus_Error [simp]: "wSent w = None \<Longrightarrow> wStatus (http_Error msg code w) = Some code"
  "wSent w = None \<Longrightarrow> wBody w = [] \<Longrightarrow> wBody (http_Error msg code w) = msg @ newline"
  by (simp_all add: http_Error_def wStatus_def)

end
