(* ===== verification/Cookies.thy ===== *)
theory Cookies
  imports Http
begin

unbundle bit_operations_syntax

section \<open>Cookie namespacing (internal/proxy/cookies.go)\<close>

text \<open>
  Cookies of all proxied sites share one browser jar.  \<open>packSetCookie\<close> stores a cookie under a
  name that carries the hash of its scope, \<open>unpackCookies\<close> selects the ones in scope of a target
  and restores their names.  The parsing and printing of cookies by \<open>net/http\<close> is written out;
  the one part left abstract is the date of \<open>Expires\<close>: \<open>expires\<close> maps the attribute's text to
  the date as the printer formats it, or to \<open>None\<close> when it does not parse.
\<close>

subsection \<open>Cookies in net/http\<close>

definition text_space :: "char \<Rightarrow> bool" where
  "text_space c \<longleftrightarrow> byte c = 32 \<or> byte c = 9 \<or> byte c = 10 \<or> byte c = 13"

definition trim_text :: "string \<Rightarrow> string" where
  "trim_text s = rev (dropWhile text_space (rev (dropWhile text_space s)))"

definition validCookieValueByte :: "char \<Rightarrow> bool" where
  "validCookieValueByte c \<longleftrightarrow> 32 \<le> byte c \<and> byte c < 127 \<and> byte c \<noteq> 34 \<and> c \<noteq> CHR '';'' \<and> byte c \<noteq> 92"

definition quote_char :: char where
  "quote_char = CHR 0x22"

text \<open>\<open>parseCookieValue\<close>: one pair of surrounding quotes is removed where that is allowed.\<close>

definition parseCookieValue :: "string \<Rightarrow> bool \<Rightarrow> (string \<times> bool) option" where
  "parseCookieValue raw0 allowQuote =
     (let quoted = (allowQuote \<and> 1 < length raw0 \<and> hd raw0 = quote_char \<and> last raw0 = quote_char);
          raw = (if quoted then butlast (tl raw0) else raw0)
      in if list_all validCookieValueByte raw then Some (raw, quoted) else None)"

record cookie =
  cName :: string
  cValue :: string
  cQuoted :: bool
  cPath :: string
  cDomain :: string
  cExpires :: "string option"
  cMaxAge :: int
  cSecure :: bool
  cHttpOnly :: bool

definition cookie_attr :: "(string \<Rightarrow> string option) \<Rightarrow> string \<Rightarrow> cookie \<Rightarrow> cookie" where
  "cookie_attr expires part0 c =
     (let part = trim_text part0 in
      if part = [] then c
      else let (attr, val0, _) = cut_byte CHR ''='' part in
        if \<not> list_all (\<lambda>b. 32 \<le> byte b \<and> byte b \<le> 126) attr then c
        else case parseCookieValue val0 False of
          None \<Rightarrow> c
        | Some (val, _) \<Rightarrow>
            let low = to_lower attr in
            if low = ''secure'' then c\<lparr>cSecure := True\<rparr>
            else if low = ''httponly'' then c\<lparr>cHttpOnly := True\<rparr>
            else if low = ''domain'' then c\<lparr>cDomain := val\<rparr>
            else if low = ''max-age'' then
              (case atoi val of
                 None \<Rightarrow> c
               | Some n \<Rightarrow> if n \<noteq> 0 \<and> has_prefix val ''0'' then c
                           else c\<lparr>cMaxAge := (if n \<le> 0 then - 1 else n)\<rparr>)
            else if low = ''expires'' then c\<lparr>cExpires := expires val\<rparr>
            else if low = ''path'' then c\<lparr>cPath := val\<rparr>
            else c)"

definition ParseSetCookie :: "(string \<Rightarrow> string option) \<Rightarrow> string \<Rightarrow> cookie option" where
  "ParseSetCookie expires line =
     (let parts = split_byte CHR '';'' (trim_text line);
          (name0, value0, ok) = cut_byte CHR ''='' (trim_text (hd parts)); name = trim_text name0
      in if parts = [[]] \<or> \<not> ok \<or> \<not> is_http_token name then None
         else case parseCookieValue value0 True of
             None \<Rightarrow> None
           | Some (value, quoted) \<Rightarrow>
               Some (fold (cookie_attr expires) (tl parts)
                 \<lparr>cName = name, cValue = value, cQuoted = quoted, cPath = [], cDomain = [],
                  cExpires = None, cMaxAge = 0, cSecure = False, cHttpOnly = False\<rparr>))"

definition sanitizeCookieValue :: "string \<Rightarrow> bool \<Rightarrow> string" where
  "sanitizeCookieValue v0 quoted =
     (let v = filter validCookieValueByte v0 in
      if v = [] then v
      else if contains_any v '' ,'' \<or> quoted then [quote_char] @ v @ [quote_char] else v)"

text \<open>\<open>Cookie.String\<close> for a cookie without a domain; bytes a path may not hold are dropped.\<close>

definition validCookiePathByte :: "char \<Rightarrow> bool" where
  "validCookiePathByte c \<longleftrightarrow> 32 \<le> byte c \<and> byte c < 127 \<and> c \<noteq> CHR '';''"

definition cookie_String :: "string \<Rightarrow> cookie \<Rightarrow> string" where
  "cookie_String sameSite c =
     (if \<not> is_http_token (cName c) then []
      else cName c @ ''='' @ sanitizeCookieValue (cValue c) (cQuoted c) @
        (if cPath c \<noteq> [] then ''; Path='' @ filter validCookiePathByte (cPath c) else []) @
        (case cExpires c of None \<Rightarrow> [] | Some d \<Rightarrow> ''; Expires='' @ d) @
        (if 0 < cMaxAge c then ''; Max-Age='' @ itoa (nat (cMaxAge c))
         else if cMaxAge c < 0 then ''; Max-Age=0'' else []) @
        (if cHttpOnly c then ''; HttpOnly'' else []) @
        (if cSecure c then ''; Secure'' else []) @ ''; SameSite='' @ sameSite)"

abbreviation cookie_String_lax :: "cookie \<Rightarrow> string" where
  "cookie_String_lax \<equiv> cookie_String ''Lax''"

text \<open>\<open>Request.Cookies\<close>: the name and value of every pair that parses, in order.\<close>

definition read_pair :: "string \<Rightarrow> (string \<times> string) list" where
  "read_pair part0 =
     (let part = trim_text part0; (name0, val0, _) = cut_byte CHR ''='' part; name = trim_text name0 in
      if part = [] \<or> \<not> is_http_token name then []
      else case parseCookieValue val0 True of None \<Rightarrow> [] | Some (v, _) \<Rightarrow> [(name, v)])"

definition readCookies :: "header \<Rightarrow> (string \<times> string) list" where
  "readCookies h =
     concat (map (\<lambda>line. concat (map read_pair (split_byte CHR '';'' (trim_text line)))) (Values h ''Cookie''))"

definition request_Cookie :: "request \<Rightarrow> string \<Rightarrow> string option" where
  "request_Cookie r name = map_of (readCookies (rHeader r)) name"

subsection \<open>Scopes\<close>

definition cookieNamePrefix :: string where
  "cookieNamePrefix = ''b_''"

definition minScopeLabels :: nat where
  "minScopeLabels = 2"

definition fnv1a64 :: "string \<Rightarrow> 64 word" where
  "fnv1a64 s = fold (\<lambda>c h. (h XOR of_nat (byte c)) * 1099511628211) s 14695981039346656037"

definition cookiePrefix :: "string \<Rightarrow> bool \<Rightarrow> string" where
  "cookiePrefix scope domainMatch =
     cookieNamePrefix @ format_uint 16 (unat (fnv1a64 (to_lower scope))) @
       (if domainMatch then ''d'' else ''h'') @ ''_''"

definition cookieScope :: "string \<Rightarrow> string \<Rightarrow> string \<times> bool" where
  "cookieScope domainAttr requestHost =
     (let host = to_lower (trim_suffix requestHost ''.'');
          d = trim_suffix (trim_prefix (to_lower (trim_space domainAttr)) ''.'') ''.''
      in if d = [] \<or> count_list d CHR ''.'' < minScopeLabels - 1 then (host, False)
         else if d \<noteq> host \<and> \<not> has_suffix host (''.'' @ d) then (host, False)
         else (d, True))"

function scopePrefixes_loop :: "string \<Rightarrow> string list" where
  "scopePrefixes_loop rest =
     (case index_byte rest CHR ''.'' of
        None \<Rightarrow> []
      | Some dot \<Rightarrow>
          let rest' = drop (Suc dot) rest in
          if count_list rest' CHR ''.'' < minScopeLabels - 1 then []
          else cookiePrefix rest' True # scopePrefixes_loop rest')"
  by pat_completeness auto
termination
  by (relation "measure length") (auto dest: index_byte_SomeD)

declare scopePrefixes_loop.simps [simp del]

definition scopePrefixes :: "string \<Rightarrow> string list" where
  "scopePrefixes host =
     (let h = to_lower (trim_suffix host ''.'') in
      if h = [] then [] else [cookiePrefix h False, cookiePrefix h True] @ scopePrefixes_loop h)"

subsection \<open>Packing and unpacking\<close>

definition packSetCookie :: "(string \<Rightarrow> string option) \<Rightarrow> string \<Rightarrow> url \<Rightarrow> bool \<Rightarrow> string option" where
  "packSetCookie expires raw target secure =
     (case ParseSetCookie expires raw of
        None \<Rightarrow> None
      | Some c \<Rightarrow>
          if cName c = [] then None
          else let (scope, domainMatch) = cookieScope (cDomain c) (Hostname target);
                   out = \<lparr>cName = cookiePrefix scope domainMatch @ cName c, cValue = cValue c,
                     cQuoted = False, cPath = ''/'', cDomain = [], cExpires = cExpires c,
                     cMaxAge = cMaxAge c, cSecure = secure \<or> cSecure c, cHttpOnly = cHttpOnly c\<rparr>;
                   s = cookie_String_lax out
               in if s = [] then None else Some s)"

fun stripCookiePrefix :: "string \<Rightarrow> string list \<Rightarrow> string option" where
  "stripCookiePrefix name [] = None"
| "stripCookiePrefix name (p # ps) =
     (if \<not> has_prefix name cookieNamePrefix then None
      else if has_prefix name p \<and> length p < length name then Some (drop (length p) name)
      else stripCookiePrefix name ps)"

definition unpackCookies :: "request \<Rightarrow> string \<Rightarrow> string" where
  "unpackCookies r targetHost =
     (let prefixes = scopePrefixes targetHost in
      if prefixes = [] then []
      else fold (\<lambda>(cname, v) b.
          (case stripCookiePrefix cname prefixes of
             None \<Rightarrow> b
           | Some name \<Rightarrow> (if b \<noteq> [] then b @ ''; '' else b) @ name @ ''='' @ v))
        (readCookies (rHeader r)) [])"

end
