(* ===== verification/Cookie_Isolation.thy ===== *)
theory Cookie_Isolation
  imports Cookies
begin

unbundle bit_operations_syntax

section \<open>Which cookies reach which host\<close>

text \<open>
  The scopes a host accepts, stated on names of hosts, and the proof that packing and unpacking
  a cookie through the browser's jar delivers it to exactly those hosts.  The mapping goes
  through a 64-bit hash, so the exactness needs the scopes in play not to collide; the last
  part shows what happens where they do.
\<close>

subsection \<open>Scopes accepted by a host\<close>

definition scope_matches :: "string \<Rightarrow> bool \<Rightarrow> string \<Rightarrow> bool" where
  "scope_matches s dm h \<longleftrightarrow>
     s = h \<or> dm \<and> has_suffix h (''.'' @ s) \<and> 1 \<le> count_list s CHR ''.''"

definition norm_host :: "string \<Rightarrow> string" where
  "norm_host h = to_lower (trim_suffix h ''.'')"

lemma suffix_count_list: "suffix s t \<Longrightarrow> count_list s c \<le> count_list t c"
  by (auto simp: suffix_def)

lemma index_byte_split: "index_byte s c = Some i \<Longrightarrow> s = take i s @ c # drop (Suc i) s \<and> c \<notin> set (take i s)"
  using index_byte_SomeD [of s c i] id_take_nth_drop [of i s] by simp

lemma suffix_after_first:
  assumes "c \<notin> set a"
  shows "suffix (c # s) (a @ c # t) \<longleftrightarrow> s = t \<or> suffix (c # s) t"
proof
  assume "suffix (c # s) (a @ c # t)"
  then obtain z where z: "a @ c # t = z @ c # s" by (auto simp: suffix_def)
  then obtain w where "(a = z @ w \<and> w @ c # t = c # s) \<or> (a @ w = z \<and> c # t = w @ c # s)"
    by (auto simp: append_eq_append_conv2)
  then show "s = t \<or> suffix (c # s) t"
  proof
    assume "a = z @ w \<and> w @ c # t = c # s"
    then show ?thesis using assms by (cases w) auto
  next
    assume "a @ w = z \<and> c # t = w @ c # s"
    then show ?thesis by (cases w) (auto simp: suffix_def)
  qed
qed (auto simp: suffix_def)

lemma set_scopePrefixes_loop:
  "set (scopePrefixes_loop h) =
     {cookiePrefix s True | s. has_suffix h (''.'' @ s) \<and> 1 \<le> count_list s CHR ''.''}"
proof (induction h rule: scopePrefixes_loop.induct)
  case (1 h)
  show ?case
  proof (cases "index_byte h CHR ''.''")
    case None
    then have no: "\<not> has_suffix h (''.'' @ s)" for s by (auto simp: suffix_def)
    have "scopePrefixes_loop h = []"
      by (subst scopePrefixes_loop.simps) (simp only: None option.case)
    with no show ?thesis by simp
  next
    case (Some dot)
    let ?r = "drop (Suc dot) h"
    from index_byte_split [OF Some] obtain a where a: "h = a @ CHR ''.'' # ?r" "CHR ''.'' \<notin> set a" by blast
    have suf: "has_suffix h (''.'' @ s) \<longleftrightarrow> s = ?r \<or> has_suffix ?r (''.'' @ s)" for s
      using suffix_after_first [OF a(2), of s ?r] by (simp flip: a(1))
    show ?thesis
    proof (cases "count_list ?r CHR ''.'' < minScopeLabels - 1")
      case True
      then have "\<not> (has_suffix h (''.'' @ s) \<and> 1 \<le> count_list s CHR ''.'')" for s
        unfolding suf using suffix_count_list [of "''.'' @ s" ?r "CHR ''.''"] by (auto simp: minScopeLabels_def)
      with Some True show ?thesis by (subst scopePrefixes_loop.simps) (auto simp: Let_def)
    next
      case False
      then have "set (scopePrefixes_loop h) = insert (cookiePrefix ?r True) (set (scopePrefixes_loop ?r))"
        using Some by (subst scopePrefixes_loop.simps) (simp add: Let_def)
      also have "\<dots> = {cookiePrefix s True | s. has_suffix h (''.'' @ s) \<and> 1 \<le> count_list s CHR ''.''}"
        unfolding "1.IH" [OF Some refl False] suf using False by (auto simp: minScopeLabels_def)
      finally show ?thesis .
    qed
  qed
qed

lemma set_scopePrefixes:
  assumes "norm_host h \<noteq> []"
  shows "set (scopePrefixes h) = {cookiePrefix s dm | s dm. scope_matches s dm (norm_host h)}"
proof -
  let ?h = "norm_host h"
  have "set (scopePrefixes h) =
      {cookiePrefix ?h False, cookiePrefix ?h True} \<union>
      {cookiePrefix s True | s. has_suffix ?h (''.'' @ s) \<and> 1 \<le> count_list s CHR ''.''}"
    using assms by (simp add: scopePrefixes_def norm_host_def set_scopePrefixes_loop Let_def)
  also have "\<dots> = {cookiePrefix s dm | s dm. scope_matches s dm ?h}"
    unfolding scope_matches_def by (auto intro: exI [of _ ?h] split: bool.splits) (metis (full_types))+
  finally show ?thesis .
qed

subsection \<open>Names and prefixes\<close>

definition scope_key :: "string \<Rightarrow> bool \<Rightarrow> string" where
  "scope_key s dm = format_uint 16 (unat (fnv1a64 (to_lower s))) @ (if dm then ''d'' else ''h'')"

lemma cookiePrefix_eq: "cookiePrefix s dm = cookieNamePrefix @ scope_key s dm @ ''_''"
  by (simp add: cookiePrefix_def scope_key_def)

lemma scope_key_no_underscore: "CHR ''_'' \<notin> set (scope_key s dm)"
proof -
  have "digit_char d \<noteq> CHR ''_''" if "d < 16" for d
    using digit_char_hex [OF that] by (auto simp: is_digit_def is_lower_def)
  then have "CHR ''_'' \<notin> set (format_uint 16 (unat (fnv1a64 (to_lower s))))"
    using format_uint_chars [of 16 "CHR ''_''" "unat (fnv1a64 (to_lower s))"] by force
  then show ?thesis by (simp add: scope_key_def)
qed

lemma scope_key_inj:
  "scope_key s dm = scope_key t dn \<longleftrightarrow> fnv1a64 (to_lower s) = fnv1a64 (to_lower t) \<and> dm = dn"
  by (auto simp: scope_key_def format_uint_inj word_unat_eq_iff)

lemma prefix_sep:
  assumes "c \<notin> set a" "c \<notin> set b"
  shows "prefix (a @ [c]) (b @ c # n) \<longleftrightarrow> a = b"
proof
  assume "prefix (a @ [c]) (b @ c # n)"
  then obtain z where z: "b @ c # n = a @ c # z" by (auto simp: prefix_def)
  have "takeWhile (\<lambda>x. x \<noteq> c) (b @ c # n) = b" "takeWhile (\<lambda>x. x \<noteq> c) (a @ c # z) = a"
    using assms by (auto simp: takeWhile_append takeWhile_eq_all_conv)
  then show "a = b" using z by simp
qed simp

lemma has_prefix_cookiePrefix:
  "has_prefix (cookiePrefix s dm @ n) (cookiePrefix t dn) \<longleftrightarrow> cookiePrefix t dn = cookiePrefix s dm"
  using prefix_sep [OF scope_key_no_underscore scope_key_no_underscore, of t dn s dm n]
  by (simp add: cookiePrefix_eq)

lemma cookiePrefix_inj:
  "cookiePrefix s dm = cookiePrefix t dn \<longleftrightarrow> fnv1a64 (to_lower s) = fnv1a64 (to_lower t) \<and> dm = dn"
  by (simp add: cookiePrefix_eq scope_key_inj)

lemma stripCookiePrefix_packed:
  assumes "\<forall>p\<in>set ps. \<exists>t dn. p = cookiePrefix t dn" "n \<noteq> []"
  shows "stripCookiePrefix (cookiePrefix s dm @ n) ps =
    (if cookiePrefix s dm \<in> set ps then Some n else None)"
  using assms(1)
proof (induction ps)
  case (Cons p ps)
  then obtain t dn where p: "p = cookiePrefix t dn" by auto
  have "has_prefix (cookiePrefix s dm @ n) cookieNamePrefix" by (simp add: cookiePrefix_eq)
  with Cons assms(2) show ?case
    by (auto simp: p has_prefix_cookiePrefix)
qed simp

text \<open>A name without the marker is dropped, whatever the prefixes.\<close>

lemma stripCookiePrefix_unmarked: "\<not> has_prefix name cookieNamePrefix \<Longrightarrow> stripCookiePrefix name ps = None"
  by (cases ps) auto

text \<open>What a strip yields is always a packed name of an accepted scope.\<close>

lemma stripCookiePrefix_SomeD:
  "stripCookiePrefix name ps = Some n \<Longrightarrow> \<exists>p\<in>set ps. name = p @ n \<and> n \<noteq> []"
proof (induction ps)
  case (Cons p ps)
  show ?case
  proof (cases "has_prefix name cookieNamePrefix \<and> has_prefix name p \<and> length p < length name")
    case True
    with Cons.prems have n: "drop (length p) name = n" by simp
    from True obtain z where "name = p @ z" by (auto simp: prefix_def)
    with True n have "name = p @ n" "n \<noteq> []" by auto
    then show ?thesis by auto
  next
    case False
    with Cons show ?thesis by (auto split: if_splits)
  qed
qed simp

subsection \<open>The value through the jar\<close>

lemma trim_text_id:
  assumes "s \<noteq> []" "\<not> text_space (hd s)" "\<not> text_space (last s)"
  shows "trim_text s = s"
proof -
  have "dropWhile text_space s = s" using assms(1,2) by (cases s) auto
  moreover have "dropWhile text_space (rev s) = rev s"
    using assms(1,3) by (cases s rule: rev_cases) auto
  ultimately show ?thesis by (simp add: trim_text_def)
qed

lemma token_byte_facts:
  assumes "token_byte c"
  shows "\<not> text_space c" "c \<noteq> CHR ''=''" "c \<noteq> CHR '';''"
  using assms by (auto simp: token_byte_def text_space_def is_alnum_def is_alpha_def is_lower_def
      is_upper_def is_digit_def)

lemma token_list_facts:
  assumes "is_http_token n"
  shows "trim_text n = n" "CHR ''='' \<notin> set n" "CHR '';'' \<notin> set n" "n \<noteq> []"
    "\<not> text_space (hd n)" "\<not> text_space (last n)"
proof -
  have all: "\<And>c. c \<in> set n \<Longrightarrow> token_byte c" and ne: "n \<noteq> []"
    using assms by (auto simp: is_http_token_def list_all_iff)
  show "CHR ''='' \<notin> set n" "CHR '';'' \<notin> set n"
    using all token_byte_facts by blast+
  show hl: "\<not> text_space (hd n)" "\<not> text_space (last n)"
    using all token_byte_facts(1) ne by (meson hd_in_set last_in_set)+
  show "n \<noteq> []" by (rule ne)
  show "trim_text n = n" by (rule trim_text_id [OF ne hl])
qed

definition value_ok :: "string \<Rightarrow> bool" where
  "value_ok v \<longleftrightarrow> list_all validCookieValueByte v"

lemma quote_invalid [simp]: "\<not> validCookieValueByte quote_char"
  by (simp add: validCookieValueByte_def quote_char_def)

lemma value_ok_no_quote: "value_ok v \<Longrightarrow> quote_char \<notin> set v"
  by (auto simp: value_ok_def list_all_iff)

lemma value_ok_semicolon: "value_ok v \<Longrightarrow> CHR '';'' \<notin> set v"
  by (auto simp: value_ok_def list_all_iff validCookieValueByte_def)

lemma parseCookieValue_sanitized:
  assumes "value_ok v"
  shows "\<exists>q. parseCookieValue (sanitizeCookieValue v q0) True = Some (v, q)"
proof -
  have f: "filter validCookieValueByte v = v"
    using assms by (auto simp: value_ok_def list_all_iff intro: filter_True)
  have plain: "\<exists>q. parseCookieValue v True = Some (v, q)"
  proof (cases "v = []")
    case False
    then have "hd v \<noteq> quote_char" using value_ok_no_quote [OF assms] by (metis hd_in_set)
    then have "parseCookieValue v True = Some (v, False)"
      using assms by (simp add: parseCookieValue_def value_ok_def)
    then show ?thesis by blast
  qed (simp add: parseCookieValue_def, blast)
  have quoted: "parseCookieValue (quote_char # v @ [quote_char]) True = Some (v, True)"
    using assms by (simp add: parseCookieValue_def value_ok_def)
  show ?thesis
    using plain quoted by (cases "v = []") (auto simp: sanitizeCookieValue_def f Let_def)
qed

text \<open>The value as sent: no bytes that end it early, and no space at its end.\<close>

lemma sanitized_facts:
  assumes "value_ok v"
  shows "CHR '';'' \<notin> set (sanitizeCookieValue v q)"
    "sanitizeCookieValue v q = [] \<or> \<not> text_space (last (sanitizeCookieValue v q))"
proof -
  have f: "filter validCookieValueByte v = v"
    using assms by (auto simp: value_ok_def list_all_iff intro: filter_True)
  show "CHR '';'' \<notin> set (sanitizeCookieValue v q)"
    using value_ok_semicolon [OF assms(1)] by (simp add: sanitizeCookieValue_def f Let_def quote_char_def)
  have "contains_any v '' ,''" if "text_space (last v)" "v \<noteq> []"
  proof -
    have "validCookieValueByte (last v)"
      using assms that by (simp add: value_ok_def list_all_iff)
    then have "byte (last v) = byte (CHR '' '')"
      using that by (auto simp: text_space_def validCookieValueByte_def)
    then have "last v = CHR '' ''" by (simp only: byte_eq_iff)
    then show "contains_any v '' ,''"
      using that(2) last_in_set [of v] by (force simp: contains_any_def list_ex_iff)
  qed
  moreover have "\<not> text_space quote_char" by (simp add: text_space_def quote_char_def)
  ultimately show "sanitizeCookieValue v q = [] \<or> \<not> text_space (last (sanitizeCookieValue v q))"
    by (auto simp: sanitizeCookieValue_def f Let_def)
qed

lemma cut_byte_first: "c \<notin> set a \<Longrightarrow> cut_byte c (a @ c # b) = (a, b, True)"
  by (simp add: cut_byte_def takeWhile_append dropWhile_append takeWhile_eq_all_conv dropWhile_eq_Nil_conv)

lemma read_pair_printed:
  assumes "is_http_token n" "value_ok v"
  shows "readCookies [(''Cookie'', [n @ ''='' @ sanitizeCookieValue v q])] = [(n, v)]"
proof -
  let ?p = "n @ CHR ''='' # sanitizeCookieValue v q"
  note nf = token_list_facts [OF assms(1)] and sf = sanitized_facts [OF assms(2), of q]
  have "hd ?p = hd n" using nf(4) by (simp add: hd_append)
  moreover have "\<not> text_space (last ?p)"
    using sf(2) by (auto simp: text_space_def)
  ultimately have t: "trim_text ?p = ?p"
    using nf(5) by (intro trim_text_id) auto
  have "split_byte CHR '';'' ?p = [?p]"
    using nf(3) sf(1) by (intro split_byte_notin) simp
  moreover have "Values [(''Cookie'', [?p])] ''Cookie'' = [?p]" by code_simp
  moreover obtain q' where "parseCookieValue (sanitizeCookieValue v q) True = Some (v, q')"
    using parseCookieValue_sanitized [OF assms(2)] by blast
  ultimately show ?thesis
    using assms(1) t nf(1,2,4) by (simp add: readCookies_def read_pair_def cut_byte_first)
qed

subsection \<open>From one site's Set-Cookie to another site's request\<close>

lemma cookie_attr_name [simp]:
  "cName (cookie_attr ex p c) = cName c" "cValue (cookie_attr ex p c) = cValue c"
  by (auto simp: cookie_attr_def Let_def split: prod.splits option.splits)

lemma fold_cookie_attr [simp]:
  "cName (fold (cookie_attr ex) ps c) = cName c" "cValue (fold (cookie_attr ex) ps c) = cValue c"
  by (induction ps arbitrary: c) simp_all

lemma parseCookieValue_ok: "parseCookieValue raw a = Some (v, q) \<Longrightarrow> value_ok v"
  by (auto simp: parseCookieValue_def value_ok_def Let_def split: if_splits)

lemma ParseSetCookie_ok:
  assumes "ParseSetCookie ex raw = Some c"
  shows "is_http_token (cName c)" "value_ok (cValue c)"
  using assms by (auto simp: ParseSetCookie_def Let_def split: prod.splits if_splits option.splits
      dest: parseCookieValue_ok)

lemma token_append: "list_all token_byte a \<Longrightarrow> is_http_token n \<Longrightarrow> is_http_token (a @ n)"
  by (simp add: is_http_token_def)

lemma cookiePrefix_token: "list_all token_byte (cookiePrefix s dm)"
proof -
  have d: "token_byte (digit_char d)" if "d < 16" for d
    using digit_char_hex [OF that] by (auto simp: token_byte_def is_alnum_def is_alpha_def)
  have "list_all token_byte (format_uint 16 (unat (fnv1a64 (to_lower s))))"
    unfolding list_all_iff using format_uint_chars [of 16 _ "unat (fnv1a64 (to_lower s))"] d by force
  moreover have "token_byte CHR ''b''" "token_byte CHR ''d''" "token_byte CHR ''h''" "token_byte CHR ''_''"
    by (simp_all add: token_byte_def is_alnum_def is_alpha_def is_lower_def)
  ultimately show ?thesis by (simp add: cookiePrefix_def cookieNamePrefix_def)
qed

lemma cookie_String_lax_pair:
  assumes "is_http_token (cName c)"
  obtains rest where "cookie_String_lax c = cName c @ ''='' @ sanitizeCookieValue (cValue c) (cQuoted c) @ CHR '';'' # rest"
  using assms by (cases "cPath c = []"; cases "cExpires c"; cases "0 < cMaxAge c"; cases "cMaxAge c < 0";
      cases "cHttpOnly c"; cases "cSecure c") (auto simp: cookie_String_def)

lemma packSetCookie_pair:
  assumes "packSetCookie ex raw origin secure = Some line" "ParseSetCookie ex raw = Some c"
    "cookieScope (cDomain c) (Hostname origin) = (s, dm)"
  shows "takeWhile (\<lambda>b. b \<noteq> CHR '';'') line =
    (cookiePrefix s dm @ cName c) @ ''='' @ sanitizeCookieValue (cValue c) False"
proof -
  note ok = ParseSetCookie_ok [OF assms(2)]
  let ?n = "cookiePrefix s dm @ cName c"
  have tok: "is_http_token ?n" by (rule token_append [OF cookiePrefix_token ok(1)])
  define out where "out = \<lparr>cName = ?n, cValue = cValue c, cQuoted = False, cPath = ''/'', cDomain = [],
    cExpires = cExpires c, cMaxAge = cMaxAge c, cSecure = secure \<or> cSecure c, cHttpOnly = cHttpOnly c\<rparr>"
  then have out: "cName out = ?n" "cValue out = cValue c" "cQuoted out = False" by simp_all
  have line: "line = cookie_String_lax out"
    using assms unfolding packSetCookie_def out_def by (simp add: Let_def split: if_splits)
  obtain rest where rest: "line = (?n @ ''='' @ sanitizeCookieValue (cValue c) False) @ CHR '';'' # rest"
    using cookie_String_lax_pair [of out] tok unfolding out line by (metis append_assoc)
  have "CHR '';'' \<notin> set (?n @ ''='' @ sanitizeCookieValue (cValue c) False)"
    using token_list_facts(3) [OF tok] sanitized_facts(1) [OF ok(2), of False] by simp
  then show ?thesis unfolding rest by (simp add: takeWhile_append takeWhile_eq_all_conv)
qed

lemma packSetCookie_defined:
  assumes "ParseSetCookie ex raw = Some c"
  obtains line where "packSetCookie ex raw origin secure = Some line"
proof -
  obtain s dm where sc: "cookieScope (cDomain c) (Hostname origin) = (s, dm)" by fastforce
  define out where "out = \<lparr>cName = cookiePrefix s dm @ cName c, cValue = cValue c, cQuoted = False, cPath = ''/'',
    cDomain = [], cExpires = cExpires c, cMaxAge = cMaxAge c, cSecure = secure \<or> cSecure c, cHttpOnly = cHttpOnly c\<rparr>"
  have "is_http_token (cName out)"
    using token_append [OF cookiePrefix_token ParseSetCookie_ok(1) [OF assms]] by (simp add: out_def)
  then have "cookie_String_lax out \<noteq> []"
    using cookie_String_lax_pair [of out] by (metis Nil_is_append_conv list.distinct(1))
  moreover have "cName c \<noteq> []" using token_list_facts(4) [OF ParseSetCookie_ok(1) [OF assms]] .
  ultimately have "packSetCookie ex raw origin secure = Some (cookie_String_lax out)"
    using assms sc by (simp add: packSetCookie_def out_def Let_def)
  then show ?thesis by (rule that)
qed





lemma scopePrefixes_packed: "\<forall>p\<in>set (scopePrefixes h). \<exists>t dn. p = cookiePrefix t dn"
proof (cases "norm_host h = []")
  case True
  then show ?thesis by (simp add: scopePrefixes_def norm_host_def Let_def)
qed (auto simp: set_scopePrefixes)

lemma unpack_single:
  assumes "readCookies (rHeader r) = [(cookiePrefix s dm @ n, v)]" "n \<noteq> []"
  shows "unpackCookies r host =
    (if cookiePrefix s dm \<in> set (scopePrefixes host) then n @ ''='' @ v else [])"
  using stripCookiePrefix_packed [OF scopePrefixes_packed assms(2), of s dm host]
  by (auto simp: unpackCookies_def assms(1) Let_def)

text \<open>Delivery decided by the hash alone.\<close>

lemma delivery_by_hash:
  assumes "packSetCookie ex raw origin secure = Some line" "ParseSetCookie ex raw = Some c"
    "cookieScope (cDomain c) (Hostname origin) = (s, dm)"
    "rHeader r = [(''Cookie'', [takeWhile (\<lambda>b. b \<noteq> CHR '';'') line])]" "norm_host host \<noteq> []"
  shows "unpackCookies r host =
    (if cookiePrefix s dm \<in> set (scopePrefixes host) then cName c @ ''='' @ cValue c else [])"
proof -
  note ok = ParseSetCookie_ok [OF assms(2)]
  have tok: "is_http_token (cookiePrefix s dm @ cName c)" by (rule token_append [OF cookiePrefix_token ok(1)])
  have "readCookies (rHeader r) = [(cookiePrefix s dm @ cName c, cValue c)]"
    unfolding assms(4) packSetCookie_pair [OF assms(1-3)] by (rule read_pair_printed [OF tok ok(2)])
  then show ?thesis using unpack_single token_list_facts(4) [OF ok(1)] by simp
qed

subsection \<open>A whole jar\<close>

definition selected :: "header \<Rightarrow> string \<Rightarrow> (string \<times> string) list" where
  "selected hs host = List.map_filter
     (\<lambda>(cname, v). map_option (\<lambda>n. (n, v)) (stripCookiePrefix cname (scopePrefixes host))) (readCookies hs)"

definition pair_text :: "string \<times> string \<Rightarrow> string" where
  "pair_text = (\<lambda>(n, v). n @ ''='' @ v)"

lemma append_pieces:
  assumes "\<forall>p\<in>set ps. p \<noteq> []"
  shows "fold (\<lambda>p b. (if b \<noteq> [] then b @ sep else b) @ p) ps b =
    (if b = [] then join sep ps else if ps = [] then b else b @ sep @ join sep ps)"
  using assms
proof (induction ps arbitrary: b)
  case (Cons p ps)
  from Cons.prems have "p \<noteq> []" by simp
  then show ?case using Cons.IH [of "(if b \<noteq> [] then b @ sep else b) @ p"] Cons.prems
    by (simp add: join_Cons)
qed simp

lemma unpackCookies_selected:
  "unpackCookies r host = join ''; '' (map pair_text (selected (rHeader r) host))"
proof (cases "scopePrefixes host = []")
  case True
  then have "selected (rHeader r) host = []"
    by (simp add: selected_def List.map_filter_def)
  with True show ?thesis by (simp add: unpackCookies_def)
next
  case False
  let ?step = "\<lambda>p b. (if b \<noteq> [] then b @ ''; '' else b) @ p"
  have eq: "fold (\<lambda>(cname, v) b. (case stripCookiePrefix cname (scopePrefixes host) of
             None \<Rightarrow> b | Some name \<Rightarrow> (if b \<noteq> [] then b @ ''; '' else b) @ name @ ''='' @ v)) cs b
      = fold ?step (map pair_text (List.map_filter
          (\<lambda>(cname, v). map_option (\<lambda>n. (n, v)) (stripCookiePrefix cname (scopePrefixes host))) cs)) b"
    for cs b
    by (induction cs arbitrary: b) (auto simp: List.map_filter_def pair_text_def split: option.splits)
  have "\<forall>p\<in>set (map pair_text (selected (rHeader r) host)). p \<noteq> []"
    by (auto simp: pair_text_def)
  from append_pieces [OF this] show ?thesis
    using False unfolding unpackCookies_def Let_def eq by (simp add: selected_def)
qed

lemma selected_scopes:
  "set (selected hs host) \<subseteq>
     {(n, v). n \<noteq> [] \<and> (\<exists>s dm. (cookiePrefix s dm @ n, v) \<in> set (readCookies hs) \<and> scope_matches s dm (norm_host host))}"
proof
  fix x assume "x \<in> set (selected hs host)"
  then obtain cname n v where c: "x = (n, v)" "(cname, v) \<in> set (readCookies hs)"
      "stripCookiePrefix cname (scopePrefixes host) = Some n"
    by (auto simp: selected_def List.map_filter_def split: option.splits)
  from stripCookiePrefix_SomeD [OF c(3)] obtain p where
    p: "p \<in> set (scopePrefixes host)" "cname = p @ n" "n \<noteq> []" by blast
  then have "norm_host host \<noteq> []" by (auto simp: scopePrefixes_def norm_host_def Let_def split: if_splits)
  with p(1) obtain s dm where "p = cookiePrefix s dm" "scope_matches s dm (norm_host host)"
    by (auto simp: set_scopePrefixes)
  with c p show "x \<in> {(n, v). n \<noteq> [] \<and>
      (\<exists>s dm. (cookiePrefix s dm @ n, v) \<in> set (readCookies hs) \<and> scope_matches s dm (norm_host host))}"
    by auto
qed

subsection \<open>Properties\<close>


definition no_dates :: "string \<Rightarrow> string option" where
  "no_dates s = None"

definition site :: "string \<Rightarrow> url" where
  "site h = empty_url\<lparr>Scheme := ''https'', Host := h\<rparr>"

definition cookie_request :: "string \<Rightarrow> request" where
  "cookie_request pair = \<lparr>rMethod = ''GET'', rURL = empty_url, rHost = ''proxy.test'',
     rHeader = [(''Cookie'', [pair])], rRemoteAddr = ''203.0.113.9:1000'', rTLS = True,
     rContentLength = 0, rBody = []\<rparr>"

definition jar_of :: "string \<Rightarrow> string \<Rightarrow> request" where
  "jar_of raw h = (case packSetCookie no_dates raw (site h) True of
     None \<Rightarrow> cookie_request [] | Some line \<Rightarrow> cookie_request (takeWhile (\<lambda>b. b \<noteq> CHR '';'') line))"


text \<open>
  Nothing else leaves the jar: the \<open>Cookie\<close> header built for a host lists pairs of cookies
  in the request whose names carry the marker and the hash of a scope of that host, and nothing
  more.  In particular a cookie without the marker, such as the access token, never goes out.
\<close>

theorem unpackCookies_only_in_scope:
  "\<exists>ps. unpackCookies r host = join ''; '' (map pair_text ps) \<and>
     set ps \<subseteq> {(n, v). n \<noteq> [] \<and> (\<exists>s dm. (cookiePrefix s dm @ n, v) \<in> set (readCookies (rHeader r)) \<and>
       scope_matches s dm (norm_host host))}"
  using unpackCookies_selected selected_scopes by blast

lemma jar_delivery:
  assumes "ParseSetCookie no_dates raw = Some c" "cookieScope (cDomain c) (Hostname (site h)) = (s, dm)"
    "norm_host host \<noteq> []" "scope_matches t dm (norm_host host)"
    "fnv1a64 (to_lower t) = fnv1a64 (to_lower s)"
  shows "unpackCookies (jar_of raw h) host = cName c @ ''='' @ cValue c"
proof -
  obtain line where line: "packSetCookie no_dates raw (site h) True = Some line"
    using packSetCookie_defined [OF assms(1)] by blast
  have "rHeader (jar_of raw h) = [(''Cookie'', [takeWhile (\<lambda>b. b \<noteq> CHR '';'') line])]"
    by (simp add: jar_of_def line cookie_request_def)
  moreover have "cookiePrefix s dm = cookiePrefix t dm" using assms(5) by (simp add: cookiePrefix_inj)
  then have "cookiePrefix s dm \<in> set (scopePrefixes host)"
    unfolding set_scopePrefixes [OF assms(3)] using assms(4) by blast
  ultimately show ?thesis using delivery_by_hash [OF line assms(1,2)] assms(3) by simp
qed

text \<open>
  Two ways out of isolation.  The two-label limit admits \<open>Domain=co.uk\<close>, so a cookie one
  British site sets with it is sent to every other, and two unrelated hosts whose names have the
  same FNV hash receive each other's cookies.
\<close>

theorem isolation_limits:
  "unpackCookies (jar_of ''id=1; Domain=co.uk'' ''evil.co.uk'') ''bank.co.uk'' = ''id=1'' \<and>
   unpackCookies (jar_of ''id=1'' ''0qezg5td1yscf.example.org'') ''s0dagskccwtlm.example.com'' = ''id=1''"
proof
  let ?c = "\<lambda>d. \<lparr>cName = ''id'', cValue = ''1'', cQuoted = False, cPath = [], cDomain = d, cExpires = None,
      cMaxAge = 0, cSecure = False, cHttpOnly = False\<rparr>"
  have "ParseSetCookie no_dates ''id=1; Domain=co.uk'' = Some (?c ''co.uk'')"
    "cookieScope (cDomain (?c ''co.uk'')) (Hostname (site ''evil.co.uk'')) = (''co.uk'', True)"
    "norm_host ''bank.co.uk'' \<noteq> []" "scope_matches ''co.uk'' True (norm_host ''bank.co.uk'')"
    by code_simp+
  from jar_delivery [OF this refl]
  show "unpackCookies (jar_of ''id=1; Domain=co.uk'' ''evil.co.uk'') ''bank.co.uk'' = ''id=1''" by simp
  let ?a = "''0qezg5td1yscf.example.org''" and ?b = "''s0dagskccwtlm.example.com''"
  have "ParseSetCookie no_dates ''id=1'' = Some (?c [])"
    "cookieScope (cDomain (?c [])) (Hostname (site ?a)) = (?a, False)"
    "norm_host ?b \<noteq> []" "scope_matches ?b False (norm_host ?b)" by code_simp+
  note j = jar_delivery [OF this]
  have "fnv1a64 (to_lower ?b) = fnv1a64 (to_lower ?a)" by code_simp
  from j [OF this] show "unpackCookies (jar_of ''id=1'' ?a) ?b = ''id=1''" by simp
qed

end
