(* ===== verification/Telemetry.thy ===== *)
theory Telemetry
  imports Http
begin

section \<open>Telemetry sinks (internal/proxy/telemetry.go)\<close>

text \<open>
  The table of beacon endpoints and the test that sends a target to the local 204 answer.  The
  host test is on text; the lemma below reads it on DNS labels.
\<close>

record telemetryRule =
  hostSuffix :: string
  pathPrefix :: string
  exactPath :: bool

definition telemetrySinks :: "telemetryRule list" where
  "telemetrySinks =
     [\<lparr>hostSuffix = ''google.com'', pathPrefix = ''/gen_204'', exactPath = True\<rparr>,
      \<lparr>hostSuffix = ''google.com'', pathPrefix = ''/client_204'', exactPath = True\<rparr>,
      \<lparr>hostSuffix = ''google.com'', pathPrefix = ''/httpservice/retry/jserror'', exactPath = False\<rparr>,
      \<lparr>hostSuffix = ''play.google.com'', pathPrefix = ''/log'', exactPath = False\<rparr>,
      \<lparr>hostSuffix = ''google.com'', pathPrefix = ''/log'', exactPath = True\<rparr>,
      \<lparr>hostSuffix = ''youtube.com'', pathPrefix = ''/api/stats/'', exactPath = False\<rparr>,
      \<lparr>hostSuffix = ''youtube.com'', pathPrefix = ''/ptracking'', exactPath = False\<rparr>,
      \<lparr>hostSuffix = ''google-analytics.com'', pathPrefix = ''/collect'', exactPath = False\<rparr>,
      \<lparr>hostSuffix = ''google-analytics.com'', pathPrefix = ''/g/collect'', exactPath = False\<rparr>,
      \<lparr>hostSuffix = ''google-analytics.com'', pathPrefix = ''/j/collect'', exactPath = False\<rparr>,
      \<lparr>hostSuffix = ''google-analytics.com'', pathPrefix = ''/batch'', exactPath = False\<rparr>,
      \<lparr>hostSuffix = ''analytics.google.com'', pathPrefix = ''/g/collect'', exactPath = False\<rparr>,
      \<lparr>hostSuffix = ''facebook.com'', pathPrefix = ''/tr'', exactPath = True\<rparr>,
      \<lparr>hostSuffix = ''ingest.sentry.io'', pathPrefix = ''/api/'', exactPath = False\<rparr>,
      \<lparr>hostSuffix = ''api.mixpanel.com'', pathPrefix = ''/track'', exactPath = False\<rparr>,
      \<lparr>hostSuffix = ''api.amplitude.com'', pathPrefix = ''/'', exactPath = False\<rparr>,
      \<lparr>hostSuffix = ''api.segment.io'', pathPrefix = ''/v1/'', exactPath = False\<rparr>,
      \<lparr>hostSuffix = ''scorecardresearch.com'', pathPrefix = ''/'', exactPath = False\<rparr>]"

definition hostMatches :: "string \<Rightarrow> string \<Rightarrow> bool" where
  "hostMatches host suf \<longleftrightarrow> host = suf \<or> has_suffix host (''.'' @ suf)"

fun isTelemetrySink_loop :: "string \<Rightarrow> string \<Rightarrow> telemetryRule list \<Rightarrow> bool" where
  "isTelemetrySink_loop host path [] = False"
| "isTelemetrySink_loop host path (r # rs) =
     (if hostSuffix r \<noteq> [] \<and> \<not> hostMatches host (hostSuffix r) then isTelemetrySink_loop host path rs
      else if exactPath r then
        (if path = pathPrefix r then True else isTelemetrySink_loop host path rs)
      else if has_prefix path (pathPrefix r) then True
      else isTelemetrySink_loop host path rs)"

definition isTelemetrySink :: "url \<Rightarrow> bool" where
  "isTelemetrySink target =
     isTelemetrySink_loop (to_lower (trim_suffix (Hostname target) ''.'')) (EscapedPath target) telemetrySinks"

definition labels :: "string \<Rightarrow> string list" where
  "labels = split_byte CHR ''.''"

lemma labels_cases: "\<exists>l ls. labels s = l # ls \<and> CHR ''.'' \<notin> set l"
  by (metis labels_def list.exhaust list.set_intros(1) split_byte_not_Nil split_byte_pieces)

lemma labels_append: "labels (z @ CHR ''.'' # s) = labels z @ labels s"
proof (induction z)
  case (Cons x z)
  obtain l ls where "labels z = l # ls" using labels_cases by blast
  with Cons show ?case by (auto simp: labels_def)
qed (simp add: labels_def)

lemma join_labels: "join ''.'' (labels s) = s"
  by (simp add: labels_def join_split_byte)

lemma join_append: "xs \<noteq> [] \<Longrightarrow> ys \<noteq> [] \<Longrightarrow> join sep (xs @ ys) = join sep xs @ sep @ join sep ys"
  by (induction xs) (auto simp: join_Cons)

text \<open>A host matches a suffix exactly when its labels end in the labels of the suffix.\<close>

lemma hostMatches_labels: "hostMatches host suf \<longleftrightarrow> suffix (labels suf) (labels host)"
proof
  assume "hostMatches host suf"
  then show "suffix (labels suf) (labels host)"
    by (auto simp: hostMatches_def suffix_def labels_append)
next
  assume "suffix (labels suf) (labels host)"
  then obtain ls where ls: "labels host = ls @ labels suf" by (auto simp: suffix_def)
  show "hostMatches host suf"
  proof (cases "ls = []")
    case True
    then have "labels host = labels suf" using ls by simp
    then have "host = suf" using join_labels [of host] join_labels [of suf] by metis
    then show ?thesis by (simp add: hostMatches_def)
  next
    case False
    have "labels suf \<noteq> []" by (simp add: labels_def)
    from join_append [OF False this, of "''.''"] have "host = join ''.'' ls @ ''.'' @ suf"
      unfolding ls [symmetric] join_labels .
    then show ?thesis unfolding hostMatches_def suffix_def by blast
  qed
qed

lemma isTelemetrySink_loop_iff:
  "isTelemetrySink_loop host path rs \<longleftrightarrow>
     (\<exists>r\<in>set rs. (hostSuffix r = [] \<or> suffix (labels (hostSuffix r)) (labels host)) \<and>
        (if exactPath r then path = pathPrefix r else has_prefix path (pathPrefix r)))"
proof (induction rs)
  case (Cons r rs)
  show ?case
    unfolding isTelemetrySink_loop.simps hostMatches_labels Cons.IH bex_simps(5) list.set by argo
qed simp

text \<open>
  A target is answered locally exactly when some rule's host, label by label, ends the
  target's host name and the rule's path is the escaped path or, for a prefix rule, starts it; in
  particular \<open>notgoogle.com\<close> is not \<open>google.com\<close>.
\<close>

theorem isTelemetrySink_labels:
  "isTelemetrySink u \<longleftrightarrow>
     (\<exists>r\<in>set telemetrySinks. suffix (labels (hostSuffix r)) (labels (to_lower (trim_suffix (Hostname u) ''.''))) \<and>
        (if exactPath r then EscapedPath u = pathPrefix r else has_prefix (EscapedPath u) (pathPrefix r)))"
proof -
  have "\<forall>r\<in>set telemetrySinks. hostSuffix r \<noteq> []" by (simp add: telemetrySinks_def)
  then show ?thesis unfolding isTelemetrySink_def isTelemetrySink_loop_iff by blast
qed

theorem isTelemetrySink_labels_witness:
  "isTelemetrySink (empty_url\<lparr>Scheme := ''https'', Host := ''WWW.google.com.'', Path := ''/gen_204''\<rparr>)"
proof -
  let ?u = "empty_url\<lparr>Scheme := ''https'', Host := ''WWW.google.com.'', Path := ''/gen_204''\<rparr>"
  let ?r = "\<lparr>hostSuffix = ''google.com'', pathPrefix = ''/gen_204'', exactPath = True\<rparr>"
  have "?r \<in> set telemetrySinks" by (simp add: telemetrySinks_def)
  moreover have "suffix (labels (hostSuffix ?r)) (labels (to_lower (trim_suffix (Hostname ?u) ''.'')))"
    "EscapedPath ?u = pathPrefix ?r" by code_simp+
  ultimately show ?thesis unfolding isTelemetrySink_labels by (metis telemetryRule.select_convs(3))
qed

text \<open>
  Scripts are blocked after all: the rules for whole hosts match every path, so a
  library such as ScorecardResearch's \<open>/beacon.js\<close> is answered with 204 in place of its code.
\<close>

theorem telemetry_blocks_script:
  "isTelemetrySink (empty_url\<lparr>Scheme := ''https'', Host := ''sb.scorecardresearch.com'', Path := ''/beacon.js''\<rparr>)"
  by code_simp

end
