(* ===== verification/Go_Utf8.thy ===== *)
theory Go_Utf8
  imports Prelude
begin

section \<open>unicode/utf8\<close>

text \<open>
  Go's UTF-8: \<open>utf8\<close> is \<open>WriteRune\<close>, with U+FFFD in place of a surrogate; \<open>decode_rune\<close> is
  \<open>DecodeRune\<close>, with U+FFFD of width one for an invalid byte.
\<close>

definition utf8 :: "nat \<Rightarrow> string" where
  "utf8 r =
     (if r < 0x80 then [char_of r]
      else if r < 0x800 then [char_of (0xC0 + r div 64), char_of (0x80 + r mod 64)]
      else if 0xD800 \<le> r \<and> r \<le> 0xDFFF then [CHR 0xEF, CHR 0xBF, CHR 0xBD]
      else if r < 0x10000 then
        [char_of (0xE0 + r div 4096), char_of (0x80 + r div 64 mod 64), char_of (0x80 + r mod 64)]
      else [char_of (0xF0 + r div 262144), char_of (0x80 + r div 4096 mod 64),
            char_of (0x80 + r div 64 mod 64), char_of (0x80 + r mod 64)])"

text \<open>Decoding gives the rune and its width.\<close>

definition cont :: "char \<Rightarrow> bool" where
  "cont c \<longleftrightarrow> 0x80 \<le> byte c \<and> byte c \<le> 0xBF"

definition second_ok :: "nat \<Rightarrow> char \<Rightarrow> bool" where
  "second_ok a c \<longleftrightarrow>
     (if a = 0xE0 then 0xA0 \<le> byte c \<and> byte c \<le> 0xBF
      else if a = 0xED then 0x80 \<le> byte c \<and> byte c \<le> 0x9F
      else if a = 0xF0 then 0x90 \<le> byte c \<and> byte c \<le> 0xBF
      else if a = 0xF4 then 0x80 \<le> byte c \<and> byte c \<le> 0x8F
      else cont c)"

definition decode_rune :: "char \<Rightarrow> string \<Rightarrow> nat \<times> nat" where
  "decode_rune a s =
     (let n = byte a in
      if n < 0x80 then (n, 1)
      else if 0xC2 \<le> n \<and> n \<le> 0xDF \<and> 1 \<le> length s \<and> cont (s ! 0)
        then ((n - 0xC0) * 64 + (byte (s ! 0) - 0x80), 2)
      else if 0xE0 \<le> n \<and> n \<le> 0xEF \<and> 2 \<le> length s \<and> second_ok n (s ! 0) \<and> cont (s ! 1)
        then ((n - 0xE0) * 4096 + (byte (s ! 0) - 0x80) * 64 + (byte (s ! 1) - 0x80), 3)
      else if 0xF0 \<le> n \<and> n \<le> 0xF4 \<and> 3 \<le> length s \<and> second_ok n (s ! 0) \<and> cont (s ! 1) \<and> cont (s ! 2)
        then ((n - 0xF0) * 262144 + (byte (s ! 0) - 0x80) * 4096 + (byte (s ! 1) - 0x80) * 64 + (byte (s ! 2) - 0x80), 4)
      else (0xFFFD, 1))"

lemma decode_rune_pos: "0 < snd (decode_rune a s)"
  by (simp add: decode_rune_def Let_def)

subsection \<open>Round trips\<close>

lemma decode_rune_width: "snd (decode_rune a s) \<le> Suc (length s)"
  by (simp add: decode_rune_def Let_def)

lemma second_cont: "second_ok a c \<Longrightarrow> cont c"
  by (auto simp: second_ok_def cont_def split: if_splits)

lemma digit64: "z < 64 \<Longrightarrow> (q * 64 + z) div 64 = q" "z < 64 \<Longrightarrow> (q * 64 + z) mod 64 = (z :: nat)"
  by simp_all

text \<open>The encoder on the digits of a rune in base 64.\<close>

lemma utf8_digits3:
  fixes x y z :: nat
  defines "r \<equiv> (x * 64 + y) * 64 + z"
  assumes y: "y < 64" and z: "z < 64" and "0x800 \<le> r" "r < 0x10000" "r < 0xD800 \<or> 0xDFFF < r"
  shows "utf8 r = [char_of (0xE0 + x), char_of (0x80 + y), char_of (0x80 + z)]"
proof -
  have d: "r div 64 = x * 64 + y" "r mod 64 = z" unfolding r_def using z by (rule digit64)+
  have "r div 4096 = r div 64 div 64" by (simp add: div_mult2_eq [symmetric])
  then have q: "r div 4096 = x" unfolding d by (simp only: digit64(1) [OF y])
  have m: "r div 64 mod 64 = y" unfolding d by (rule digit64(2) [OF y])
  have n: "\<not> r < 0x80" "\<not> r < 0x800" "\<not> (0xD800 \<le> r \<and> r \<le> 0xDFFF)" using assms by linarith+
  show ?thesis
    unfolding utf8_def if_not_P [OF n(1)] if_not_P [OF n(2)] if_not_P [OF n(3)] if_P [OF assms(5)] q m d(2) ..
qed

lemma utf8_digits4:
  fixes w x y z :: nat
  defines "r \<equiv> ((w * 64 + x) * 64 + y) * 64 + z"
  assumes x: "x < 64" and y: "y < 64" and z: "z < 64" and "0x10000 \<le> r"
  shows "utf8 r = [char_of (0xF0 + w), char_of (0x80 + x), char_of (0x80 + y), char_of (0x80 + z)]"
proof -
  have d: "r div 64 = (w * 64 + x) * 64 + y" "r mod 64 = z" unfolding r_def using z by (rule digit64)+
  have "r div 4096 = r div 64 div 64" by (simp add: div_mult2_eq [symmetric])
  then have q: "r div 4096 = w * 64 + x" unfolding d by (simp only: digit64(1) [OF y])
  have "r div 262144 = r div 4096 div 64" by (simp add: div_mult2_eq [symmetric])
  then have p: "r div 262144 = w" unfolding q by (simp only: digit64(1) [OF x])
  have m: "r div 64 mod 64 = y" "r div 4096 mod 64 = x" unfolding d q by (rule digit64(2) [OF y] digit64(2) [OF x])+
  have n: "\<not> r < 0x80" "\<not> r < 0x800" "\<not> (0xD800 \<le> r \<and> r \<le> 0xDFFF)" "\<not> r < 0x10000" using assms by linarith+
  show ?thesis
    unfolding utf8_def if_not_P [OF n(1)] if_not_P [OF n(2)] if_not_P [OF n(3)] if_not_P [OF n(4)] p m d(2) ..
qed

text \<open>Encoding what was decoded gives the bytes back, unless they were invalid.\<close>

lemma lead_byte: "m \<le> byte c \<Longrightarrow> char_of (m + (byte c - m)) = c"
  by simp

lemma cont_byte: "cont c \<Longrightarrow> char_of (0x80 + (byte c - 0x80)) = c" "cont c \<Longrightarrow> byte c - 0x80 < 64"
  by (auto simp: cont_def)

lemma utf8_two:
  assumes "0xC2 \<le> byte a" "byte a \<le> 0xDF" "cont b"
  shows "utf8 ((byte a - 0xC0) * 64 + (byte b - 0x80)) = [a, b]"
proof -
  define x y where "x = byte a - 0xC0" and "y = byte b - 0x80"
  have "y < 64" "2 \<le> x" "x < 32" using assms by (auto simp: x_def y_def cont_def)
  then have "utf8 (x * 64 + y) = [char_of (0xC0 + x), char_of (0x80 + y)]" by (simp add: utf8_def)
  moreover have "char_of (0xC0 + x) = a" "char_of (0x80 + y) = b"
    using assms cont_byte(1) [OF assms(3)] by (simp_all only: x_def y_def lead_byte)
  ultimately show ?thesis by (simp only: x_def y_def)
qed

lemma utf8_three:
  assumes "0xE0 \<le> byte a" "byte a \<le> 0xEF" "second_ok (byte a) b" "cont c"
  shows "utf8 ((byte a - 0xE0) * 4096 + (byte b - 0x80) * 64 + (byte c - 0x80)) = [a, b, c]"
proof -
  define x y z where "x = byte a - 0xE0" and "y = byte b - 0x80" and "z = byte c - 0x80"
  have b: "cont b" using assms(3) by (rule second_cont)
  have bounds: "y < 64" "z < 64" "x < 16"
    using assms(2) cont_byte(2) [OF b] cont_byte(2) [OF assms(4)] by (auto simp: x_def y_def z_def)
  have low: "x = 0 \<Longrightarrow> 32 \<le> y" using assms(1,3) by (auto simp: x_def y_def second_ok_def split: if_splits)
  have surr: "x = 13 \<Longrightarrow> y < 32" using assms(1,3) by (auto simp: x_def y_def second_ok_def split: if_splits)
  consider "x = 0" "32 \<le> y" | "1 \<le> x" "x \<le> 12" | "x = 13" "y < 32" | "14 \<le> x" using low surr by linarith
  then have "0x800 \<le> (x * 64 + y) * 64 + z \<and> ((x * 64 + y) * 64 + z < 0xD800 \<or> 0xDFFF < (x * 64 + y) * 64 + z)"
    by cases (use bounds in simp_all)
  moreover have "(x * 64 + y) * 64 + z < 0x10000" using bounds by simp
  ultimately have "utf8 ((x * 64 + y) * 64 + z) = [char_of (0xE0 + x), char_of (0x80 + y), char_of (0x80 + z)]"
    using utf8_digits3 [OF bounds(1,2)] by blast
  moreover have "char_of (0xE0 + x) = a" "char_of (0x80 + y) = b" "char_of (0x80 + z) = c"
    using assms(1) cont_byte(1) [OF b] cont_byte(1) [OF assms(4)] by (simp_all only: x_def y_def z_def lead_byte)
  moreover have "(x * 64 + y) * 64 + z = x * 4096 + y * 64 + z" by simp
  ultimately show ?thesis by (simp only: x_def y_def z_def)
qed

lemma utf8_four:
  assumes "0xF0 \<le> byte a" "byte a \<le> 0xF4" "second_ok (byte a) b" "cont c" "cont d"
  shows "utf8 ((byte a - 0xF0) * 262144 + (byte b - 0x80) * 4096 + (byte c - 0x80) * 64 + (byte d - 0x80)) = [a, b, c, d]"
proof -
  define w x y z where "w = byte a - 0xF0" and "x = byte b - 0x80" and "y = byte c - 0x80" and "z = byte d - 0x80"
  have b: "cont b" using assms(3) by (rule second_cont)
  have bounds: "x < 64" "y < 64" "z < 64"
    using cont_byte(2) [OF b] cont_byte(2) [OF assms(4)] cont_byte(2) [OF assms(5)] by (auto simp: x_def y_def z_def)
  have low: "w = 0 \<Longrightarrow> 16 \<le> x" using assms(1,3) by (auto simp: w_def x_def second_ok_def split: if_splits)
  consider "w = 0" "16 \<le> x" | "1 \<le> w" using low by linarith
  then have "0x10000 \<le> ((w * 64 + x) * 64 + y) * 64 + z"
  proof cases
    case 1
    then show ?thesis by simp
  next
    case 2
    then have "0x10000 \<le> w * 64 * 64 * 64" by simp
    also have "\<dots> \<le> ((w * 64 + x) * 64 + y) * 64 + z" by (simp add: algebra_simps)
    finally show ?thesis .
  qed
  with bounds have "utf8 (((w * 64 + x) * 64 + y) * 64 + z) =
      [char_of (0xF0 + w), char_of (0x80 + x), char_of (0x80 + y), char_of (0x80 + z)]"
    by (rule utf8_digits4)
  moreover have "char_of (0xF0 + w) = a" "char_of (0x80 + x) = b" "char_of (0x80 + y) = c" "char_of (0x80 + z) = d"
    using assms(1) cont_byte(1) [OF b] cont_byte(1) [OF assms(4)] cont_byte(1) [OF assms(5)]
    by (simp_all only: w_def x_def y_def z_def lead_byte)
  moreover have "((w * 64 + x) * 64 + y) * 64 + z = w * 262144 + x * 4096 + y * 64 + z" by simp
  ultimately show ?thesis by (simp only: w_def x_def y_def z_def)
qed

text \<open>An invalid byte decodes to U+FFFD of width one; a text of none is valid UTF-8.\<close>

definition bad_rune :: "char \<Rightarrow> string \<Rightarrow> bool" where
  "bad_rune a s \<longleftrightarrow> decode_rune a s = (0xFFFD, 1)"

lemma decode_rune_cases:
  obtains (ascii) "byte a < 0x80" "decode_rune a s = (byte a, 1)"
  | (two) b t where "s = b # t" "0xC2 \<le> byte a" "byte a \<le> 0xDF" "cont b"
      "decode_rune a s = ((byte a - 0xC0) * 64 + (byte b - 0x80), 2)"
  | (three) b c t where "s = b # c # t" "0xE0 \<le> byte a" "byte a \<le> 0xEF" "second_ok (byte a) b" "cont c"
      "decode_rune a s = ((byte a - 0xE0) * 4096 + (byte b - 0x80) * 64 + (byte c - 0x80), 3)"
  | (four) b c d t where "s = b # c # d # t" "0xF0 \<le> byte a" "byte a \<le> 0xF4" "second_ok (byte a) b" "cont c" "cont d"
      "decode_rune a s = ((byte a - 0xF0) * 262144 + (byte b - 0x80) * 4096 + (byte c - 0x80) * 64 + (byte d - 0x80), 4)"
  | (bad) "0x80 \<le> byte a" "decode_rune a s = (0xFFFD, 1)"
proof -
  let ?n = "byte a"
  have two: "s = s ! 0 # tl s" if "1 \<le> length s" using that by (cases s) auto
  have three: "s = s ! 0 # s ! 1 # tl (tl s)" if "2 \<le> length s"
    using that by (cases s; cases "tl s") auto
  have four: "s = s ! 0 # s ! 1 # s ! 2 # tl (tl (tl s))" if "3 \<le> length s"
    using that by (cases s; cases "tl s"; cases "tl (tl s)") auto
  let ?A = "?n < 0x80" let ?B = "0xC2 \<le> ?n \<and> ?n \<le> 0xDF \<and> 1 \<le> length s \<and> cont (s ! 0)"
  let ?C = "0xE0 \<le> ?n \<and> ?n \<le> 0xEF \<and> 2 \<le> length s \<and> second_ok ?n (s ! 0) \<and> cont (s ! 1)"
  let ?D = "0xF0 \<le> ?n \<and> ?n \<le> 0xF4 \<and> 3 \<le> length s \<and> second_ok ?n (s ! 0) \<and> cont (s ! 1) \<and> cont (s ! 2)"
  consider ?A | "\<not> ?A" ?B | "\<not> ?A" "\<not> ?B" ?C | "\<not> ?A" "\<not> ?B" "\<not> ?C" ?D
    | "\<not> ?A" "\<not> ?B" "\<not> ?C" "\<not> ?D" by blast
  then show ?thesis
  proof cases
    case 1
    then have "decode_rune a s = (?n, 1)" unfolding decode_rune_def Let_def by (simp only: if_True)
    with 1 that(1) show ?thesis by blast
  next
    case 2
    have "decode_rune a s = ((?n - 0xC0) * 64 + (byte (s ! 0) - 0x80), 2)"
      unfolding decode_rune_def Let_def if_not_P [OF 2(1)] if_P [OF 2(2)] by (rule refl)
    with 2 that(2) [OF two] show ?thesis by blast
  next
    case 3
    have "decode_rune a s = ((?n - 0xE0) * 4096 + (byte (s ! 0) - 0x80) * 64 + (byte (s ! 1) - 0x80), 3)"
      unfolding decode_rune_def Let_def if_not_P [OF 3(1)] if_not_P [OF 3(2)] if_P [OF 3(3)] by (rule refl)
    with 3 that(3) [OF three] show ?thesis by blast
  next
    case 4
    have "decode_rune a s = ((?n - 0xF0) * 262144 + (byte (s ! 0) - 0x80) * 4096 + (byte (s ! 1) - 0x80) * 64 + (byte (s ! 2) - 0x80), 4)"
      unfolding decode_rune_def Let_def if_not_P [OF 4(1)] if_not_P [OF 4(2)] if_not_P [OF 4(3)] if_P [OF 4(4)] by (rule refl)
    with 4 that(4) [OF four] show ?thesis by blast
  next
    case 5
    have "decode_rune a s = (0xFFFD, 1)"
      unfolding decode_rune_def Let_def if_not_P [OF 5(1)] if_not_P [OF 5(2)] if_not_P [OF 5(3)] if_not_P [OF 5(4)] by (rule refl)
    with 5 that(5) show ?thesis by simp
  qed
qed

lemma utf8_decode:
  "decode_rune a s = (r, n) \<Longrightarrow> \<not> bad_rune a s \<Longrightarrow> utf8 r = take n (a # s)"
proof (cases rule: decode_rune_cases [of a s])
  case ascii
  assume "decode_rune a s = (r, n)"
  with ascii show ?thesis by (simp add: utf8_def)
qed (auto simp: utf8_two utf8_three utf8_four bad_rune_def)

text \<open>A rune is read from its own bytes, whatever follows.\<close>

lemma decode_rune_local:
  "decode_rune a s = (r, n) \<Longrightarrow> \<not> bad_rune a s \<Longrightarrow> decode_rune a (take (n - 1) s @ t) = (r, n)"
  by (cases rule: decode_rune_cases [of a s]) (auto simp: decode_rune_def bad_rune_def Let_def)

function valid_utf8 :: "string \<Rightarrow> bool" where
  "valid_utf8 [] = True"
| "valid_utf8 (a # s) = (\<not> bad_rune a s \<and> valid_utf8 (drop (snd (decode_rune a s)) (a # s)))"
  by pat_completeness auto
termination
  by (relation "measure length") (use decode_rune_pos in \<open>force+\<close>)

declare valid_utf8.simps(2) [simp del]

lemma valid_utf8_ascii: "is_ascii s \<Longrightarrow> valid_utf8 s"
proof (induction s)
  case (Cons a s)
  then have "byte a < 0x80" by (simp add: is_ascii_def)
  then have "decode_rune a s = (byte a, 1)" by (simp add: decode_rune_def)
  moreover from this \<open>byte a < 0x80\<close> have "\<not> bad_rune a s" by (simp add: bad_rune_def)
  moreover have "valid_utf8 s" using Cons by (simp add: is_ascii_def)
  ultimately show ?case by (simp add: valid_utf8.simps(2))
qed simp

text \<open>The text that JSON makes of a string: U+FFFD for each byte that is not UTF-8.\<close>

function to_utf8 :: "string \<Rightarrow> string" where
  "to_utf8 [] = []"
| "to_utf8 (a # s) =
     (if bad_rune a s then utf8 0xFFFD @ to_utf8 s
      else let n = snd (decode_rune a s) in take n (a # s) @ to_utf8 (drop n (a # s)))"
  by pat_completeness auto
termination
  by (relation "measure length") (use decode_rune_pos in \<open>force+\<close>)

declare to_utf8.simps(2) [simp del]

lemma to_utf8_id: "valid_utf8 s \<Longrightarrow> to_utf8 s = s"
proof (induction s rule: to_utf8.induct)
  case (2 a s)
  then have "\<not> bad_rune a s" "valid_utf8 (drop (snd (decode_rune a s)) (a # s))" by (simp_all add: valid_utf8.simps(2))
  with 2 show ?case by (simp add: to_utf8.simps(2) Let_def)
qed simp

lemma valid_utf8_replacement: "valid_utf8 (utf8 0xFFFD @ t) = valid_utf8 t"
proof -
  have shape: "utf8 0xFFFD @ t = char_of (0xEF :: nat) # char_of (0xBF :: nat) # char_of (0xBD :: nat) # t"
    by (simp add: utf8_def)
  have "decode_rune (char_of (0xEF :: nat)) (char_of (0xBF :: nat) # char_of (0xBD :: nat) # t) = (0xFFFD, 3)"
    by (simp add: decode_rune_def second_ok_def cont_def)
  then show ?thesis unfolding shape by (simp add: valid_utf8.simps(2) bad_rune_def)
qed

lemma valid_to_utf8: "valid_utf8 (to_utf8 s)"
proof (induction s rule: to_utf8.induct)
  case (2 a s)
  show ?case
  proof (cases "bad_rune a s")
    case True
    with 2 show ?thesis by (simp add: to_utf8.simps(2) valid_utf8_replacement)
  next
    case False
    obtain r n where d: "decode_rune a s = (r, n)" by fastforce
    have n: "0 < n" "n - 1 \<le> length s" using decode_rune_pos [of a s] decode_rune_width [of a s] d by auto
    let ?t = "to_utf8 (drop n (a # s))"
    have loc: "decode_rune a (take (n - 1) s @ ?t) = (r, n)" by (rule decode_rune_local [OF d False])
    have shape: "to_utf8 (a # s) = a # take (n - 1) s @ ?t"
      using n(1) by (simp add: to_utf8.simps(2) False d Let_def take_Cons')
    have "drop n (a # take (n - 1) s @ ?t) = ?t" using n by (simp add: drop_Cons' min_absorb2)
    moreover have "\<not> bad_rune a (take (n - 1) s @ ?t)" using False loc d by (simp add: bad_rune_def)
    moreover have "valid_utf8 ?t" using 2(2) [OF False refl] d by simp
    ultimately show ?thesis unfolding shape valid_utf8.simps(2) loc snd_conv by simp
  qed
qed simp

lemma to_utf8_idem [simp]: "to_utf8 (to_utf8 s) = to_utf8 s"
  by (rule to_utf8_id [OF valid_to_utf8])

end
