(* ===== verification/Html_Scan.thy ===== *)
theory Html_Scan
  imports Link Go_Utf8
begin

section \<open>Start tags and character references (internal/proxy/rewrite/scan.go)\<close>

text \<open>
  Byte classes, the element and attribute tables, the parser of one start tag, the search for the
  end tag of a raw-text element, and character references.  Positions are indices into the
  document, as in the source; a Go loop \<open>for j < len(s) && P(s[j]) { j++ }\<close> is \<open>skip P s j\<close>.
\<close>

subsection \<open>Byte classes\<close>

definition isHTMLSpace :: "char \<Rightarrow> bool" where
  "isHTMLSpace c \<longleftrightarrow> byte c = 32 \<or> byte c = 9 \<or> byte c = 10 \<or> byte c = 12 \<or> byte c = 13"

definition isASCIILetter :: "char \<Rightarrow> bool" where
  "isASCIILetter c \<longleftrightarrow> 97 \<le> byte c \<and> byte c \<le> 122 \<or> 65 \<le> byte c \<and> byte c \<le> 90"

definition isTagNameEnd :: "char \<Rightarrow> bool" where
  "isTagNameEnd c \<longleftrightarrow> isHTMLSpace c \<or> c = CHR ''/'' \<or> c = CHR ''>''"

definition isAttrNameEnd :: "char \<Rightarrow> bool" where
  "isAttrNameEnd c \<longleftrightarrow> isTagNameEnd c \<or> c = CHR ''=''"

definition isUnquotedValueEnd :: "char \<Rightarrow> bool" where
  "isUnquotedValueEnd c \<longleftrightarrow> isHTMLSpace c \<or> c = CHR ''>''"

definition dquote :: char where
  "dquote = CHR 0x22"

definition squote :: char where
  "squote = CHR 0x27"

subsection \<open>Tables\<close>

definition rawText :: "string list" where
  "rawText = [''script'', ''style'', ''textarea'', ''title'', ''xmp'', ''iframe'', ''noembed'',
     ''noframes'', ''noscript'']"

text \<open>\<open>None\<close> is the nil element set: any element.\<close>

definition urlAttrs :: "(string \<times> string list option) list" where
  "urlAttrs =
     [(''href'', None), (''src'', None), (''data-src'', None), (''data-href'', None),
      (''action'', Some [''form'']), (''formaction'', Some [''button'', ''input'']),
      (''poster'', Some [''video'']), (''data'', Some [''object'']),
      (''cite'', Some [''blockquote'', ''q'', ''del'', ''ins'']),
      (''background'', Some [''body'', ''table'', ''td'', ''th'']),
      (''longdesc'', Some [''img'', ''iframe'', ''frame'']),
      (''manifest'', Some [''html'']), (''profile'', Some [''head'']),
      (''codebase'', Some [''object'', ''applet''])]"

definition srcsetAttrs :: "string list" where
  "srcsetAttrs = [''srcset'', ''imagesrcset'', ''data-srcset'']"

definition headContent :: "string list" where
  "headContent = [''html'', ''head'', ''base'', ''basefont'', ''bgsound'', ''link'', ''meta'',
     ''noscript'', ''script'', ''style'', ''template'', ''title'']"

definition isURLAttr :: "string \<Rightarrow> string \<Rightarrow> bool" where
  "isURLAttr tag name =
     (case map_of urlAttrs name of
        None \<Rightarrow> False
      | Some None \<Rightarrow> True
      | Some (Some tags) \<Rightarrow> List.member tags tag)"

subsection \<open>Spans\<close>

definition sub :: "string \<Rightarrow> nat \<Rightarrow> nat \<Rightarrow> string" where
  "sub s a b = take (b - a) (drop a s)"

definition skip :: "(char \<Rightarrow> bool) \<Rightarrow> string \<Rightarrow> nat \<Rightarrow> nat" where
  "skip P s j = j + length (takeWhile P (drop j s))"

text \<open>\<open>j < len(s) && P(s[j])\<close>.\<close>

definition at :: "string \<Rightarrow> nat \<Rightarrow> (char \<Rightarrow> bool) \<Rightarrow> bool" where
  "at s j P = (case drop j s of [] \<Rightarrow> False | c # _ \<Rightarrow> P c)"

lemma at_iff: "at s j P \<longleftrightarrow> j < length s \<and> P (s ! j)"
  by (cases "j < length s") (simp_all add: at_def Cons_nth_drop_Suc [symmetric])

lemma skip_ge: "j \<le> skip P s j"
  by (simp add: skip_def)

lemma le_skip: "a \<le> j \<Longrightarrow> a \<le> skip P s j"
  by (simp add: skip_def)

lemma skip_le: "j \<le> length s \<Longrightarrow> skip P s j \<le> length s"
  using length_takeWhile_le [of P "drop j s"] by (simp add: skip_def)

lemma skip_gt: "at s j P \<Longrightarrow> j < skip P s j"
  by (auto simp: at_def skip_def split: list.splits)

lemma skip_stop: "\<not> at s (skip P s j) P"
proof -
  have "drop (skip P s j) s = dropWhile P (drop j s)"
    by (simp add: skip_def dropWhile_eq_drop add.commute)
  then show ?thesis by (auto simp: at_def dropWhile_eq_Cons_conv split: list.splits)
qed

lemma sub_append: "a \<le> b \<Longrightarrow> b \<le> c \<Longrightarrow> sub s a b @ sub s b c = sub s a c"
proof -
  assume *: "a \<le> b" "b \<le> c"
  then have "take (c - a) (drop a s) = take (b - a) (drop a s) @ take (c - b) (drop (b - a) (drop a s))"
    using take_add [of "b - a" "c - b" "drop a s"] by simp
  with * show ?thesis by (simp add: sub_def)
qed

lemma sub_full: "sub s 0 (length s) = s" "sub s a a = []"
  by (simp_all add: sub_def)

lemma sub_end: "length s \<le> b \<Longrightarrow> sub s a b = drop a s"
  by (simp add: sub_def)

subsection \<open>Start tags\<close>

record htmlAttr =
  aName :: string
  aStart :: nat
  aEnd :: nat
  aNameEnd :: nat
  aValStart :: nat
  aValEnd :: nat
  aQuote :: "char option"
  aHasValue :: bool

record htmlTag =
  tName :: string
  tStart :: nat
  tEnd :: nat
  tAttrs :: "htmlAttr list"
  tSelfClosing :: bool

definition parse_attr :: "string \<Rightarrow> nat \<Rightarrow> htmlAttr" where
  "parse_attr s j =
     (let nameEnd = skip (\<lambda>c. \<not> isAttrNameEnd c) s j;
          name = to_lower (sub s j nameEnd);
          k = skip isHTMLSpace s nameEnd
      in if at s k (\<lambda>c. c = CHR ''='') then
           (let k = skip isHTMLSpace s (k + 1) in
            if at s k (\<lambda>c. c = dquote \<or> c = squote) then
              (let q = s ! k; valStart = k + 1; valEnd = skip (\<lambda>c. c \<noteq> q) s valStart;
                   e = (if valEnd < length s then valEnd + 1 else valEnd)
               in \<lparr>aName = name, aStart = j, aEnd = e, aNameEnd = nameEnd, aValStart = valStart,
                   aValEnd = valEnd, aQuote = Some q, aHasValue = True\<rparr>)
            else
              (let valEnd = skip (\<lambda>c. \<not> isUnquotedValueEnd c) s k
               in \<lparr>aName = name, aStart = j, aEnd = valEnd, aNameEnd = nameEnd, aValStart = k,
                   aValEnd = valEnd, aQuote = None, aHasValue = True\<rparr>))
         else \<lparr>aName = name, aStart = j, aEnd = nameEnd, aNameEnd = nameEnd, aValStart = nameEnd,
                aValEnd = nameEnd, aQuote = None, aHasValue = False\<rparr>)"

lemma parse_attr_spans:
  "aStart (parse_attr s j) = j" "j \<le> aNameEnd (parse_attr s j)"
  "aNameEnd (parse_attr s j) \<le> aValStart (parse_attr s j)"
  "aValStart (parse_attr s j) \<le> aValEnd (parse_attr s j)"
  "aValEnd (parse_attr s j) \<le> aEnd (parse_attr s j)"
  by (auto simp: parse_attr_def Let_def intro: le_skip le_SucI)

lemma parse_attr_progress:
  assumes "j < length s" "\<not> isHTMLSpace (s ! j)" "s ! j \<noteq> CHR ''>''" "s ! j \<noteq> CHR ''/''"
  shows "j < aEnd (parse_attr s j)"
proof (cases "s ! j = CHR ''=''")
  case True
  then have "drop j s = CHR ''='' # drop (Suc j) s" using assms(1) Cons_nth_drop_Suc [of j s] by simp
  then have "skip (\<lambda>c. \<not> isAttrNameEnd c) s j = j" "skip isHTMLSpace s j = j" "at s j (\<lambda>c. c = CHR ''='')"
    by (simp_all add: skip_def at_def isAttrNameEnd_def isHTMLSpace_def)
  then show ?thesis by (auto simp: parse_attr_def Let_def Suc_le_eq [symmetric] intro: le_skip le_SucI)
next
  case False
  then have "at s j (\<lambda>c. \<not> isAttrNameEnd c)"
    using assms by (simp add: at_iff isAttrNameEnd_def isTagNameEnd_def)
  then have "j < aNameEnd (parse_attr s j)"
    using skip_gt by (auto simp: parse_attr_def Let_def)
  with parse_attr_spans(3-5) [of s j] show ?thesis by linarith
qed

lemma parse_attr_end_le: "j \<le> length s \<Longrightarrow> aEnd (parse_attr s j) \<le> length s"
  by (auto simp: parse_attr_def Let_def at_iff not_less intro!: skip_le le_antisym)

function parse_attrs :: "string \<Rightarrow> htmlTag \<Rightarrow> nat \<Rightarrow> htmlTag" where
  "parse_attrs s t j0 =
     (let j = skip isHTMLSpace s j0 in
      if length s \<le> j then t\<lparr>tEnd := length s\<rparr>
      else if s ! j = CHR ''>'' then t\<lparr>tEnd := j + 1\<rparr>
      else if s ! j = CHR ''/'' then
        (if at s (j + 1) (\<lambda>c. c = CHR ''>'') then t\<lparr>tSelfClosing := True, tEnd := j + 2\<rparr>
         else parse_attrs s t (j + 1))
      else
        let a = parse_attr s j
        in parse_attrs s (if aName a \<noteq> [] then t\<lparr>tAttrs := tAttrs t @ [a]\<rparr> else t) (aEnd a))"
  by pat_completeness auto
termination
proof (relation "measure (\<lambda>(s, t, j). length s - j)", goal_cases)
  case (2 s t j0 j)
  then show ?case using skip_ge [of j0 isHTMLSpace s] by simp
next
  case (3 s t j0 j a)
  have "\<not> isHTMLSpace (s ! j)" using 3 skip_stop [of s isHTMLSpace j0] by (simp add: at_iff)
  then have "j < aEnd a" using 3 parse_attr_progress [of j s] by simp
  then show ?case using 3 skip_ge [of j0 isHTMLSpace s] by simp
qed simp

declare parse_attrs.simps [simp del]

definition parseStartTag :: "string \<Rightarrow> nat \<Rightarrow> htmlTag option" where
  "parseStartTag s i =
     (let nameEnd = skip (\<lambda>c. \<not> isTagNameEnd c) s (i + 1) in
      if nameEnd = i + 1 then None
      else Some (parse_attrs s
        \<lparr>tName = to_lower (sub s (i + 1) nameEnd), tStart = i, tEnd = 0, tAttrs = [], tSelfClosing = False\<rparr>
        nameEnd))"

subsection \<open>End tags of raw text\<close>

definition hasTagNameAt :: "string \<Rightarrow> nat \<Rightarrow> string \<Rightarrow> bool" where
  "hasTagNameAt s pos name =
     (if length s < pos + length name \<or> \<not> equal_fold (sub s pos (pos + length name)) name then False
      else if pos + length name = length s then True
      else at s (pos + length name) isTagNameEnd)"

function findEndTag :: "string \<Rightarrow> string \<Rightarrow> nat \<Rightarrow> nat" where
  "findEndTag s name i =
     (if length s \<le> i then length s
      else case index_byte (drop i s) CHR ''<'' of
          None \<Rightarrow> length s
        | Some j \<Rightarrow>
            if at s (i + j + 1) (\<lambda>c. c = CHR ''/'') \<and> hasTagNameAt s (i + j + 2) name then i + j
            else findEndTag s name (i + j + 1))"
  by pat_completeness auto
termination
  by (relation "measure (\<lambda>(s, name, i). length s - i)") auto

declare findEndTag.simps [simp del]

subsection \<open>Character references\<close>

text \<open>\<open>strconv.ParseInt(digits, base, 32)\<close> for bases 10 and 16, where a result counts only if
  positive: a minus sign never gives one.\<close>

definition parse_digits :: "nat \<Rightarrow> string \<Rightarrow> nat option" where
  "parse_digits base digits =
     (let ds = trim_prefix digits ''+'' in
      if ds \<noteq> [] \<and> list_all (\<lambda>c. if base = 16 then is_hex c else is_digit c) ds
      then Some (foldl (\<lambda>acc c. acc * base + unhex c) 0 ds) else None)"

definition decodeEntity :: "string \<Rightarrow> nat option" where
  "decodeEntity e =
     (let low = to_lower e in
      if low = ''amp'' then Some 38
      else if low = ''lt'' then Some 60
      else if low = ''gt'' then Some 62
      else if low = ''quot'' then Some 34
      else if low = ''apos'' then Some 39
      else if low = ''nbsp'' then Some 0xA0
      else if 1 < length e \<and> hd e = CHR ''#'' then
        (let hexa = (e ! 1 = CHR ''x'' \<or> e ! 1 = CHR ''X'');
             digits = (if hexa then drop 2 e else drop 1 e)
         in case parse_digits (if hexa then 16 else 10) digits of
              None \<Rightarrow> None
            | Some n \<Rightarrow> if 0 < n \<and> n \<le> 0x10FFFF then Some n else None)
      else None)"

text \<open>One step at an ampersand: the bytes to write and the number of bytes consumed.\<close>

definition entity_step :: "string \<Rightarrow> string \<times> nat" where
  "entity_step s =
     (case index_byte s CHR '';'' of
        None \<Rightarrow> (''&'', 1)
      | Some semi \<Rightarrow>
          if 1 < semi \<and> semi \<le> 12 then
            (case decodeEntity (take (semi - 1) (drop 1 s)) of
               None \<Rightarrow> (''&'', 1) | Some r \<Rightarrow> (utf8 r, semi + 1))
          else (''&'', 1))"

lemma entity_step_pos: "0 < snd (entity_step s)"
  by (auto simp: entity_step_def split: option.splits)

function unescape_loop :: "string \<Rightarrow> string" where
  "unescape_loop [] = []"
| "unescape_loop (c # s) =
     (if c \<noteq> CHR ''&'' then c # unescape_loop s
      else let (w, n) = entity_step (c # s) in w @ unescape_loop (drop n (c # s)))"
  by pat_completeness auto
termination
proof (relation "measure length", goal_cases)
  case (3 c s x w n)
  then have "0 < n" using entity_step_pos [of "c # s"] by (metis snd_conv)
  then show ?case by simp
qed simp_all

declare unescape_loop.simps(2) [simp del]

definition unescapeHTML :: "string \<Rightarrow> string" where
  "unescapeHTML s = (if \<not> List.member s CHR ''&'' then s else unescape_loop s)"

definition escapeAttrValue :: "string \<Rightarrow> char option \<Rightarrow> string" where
  "escapeAttrValue v quote =
     (let v = replace_byte CHR ''&'' ''&amp;'' v in
      if quote = Some dquote then replace_byte dquote ''&quot;'' v
      else if quote = Some squote then replace_byte squote ''&#39;'' v
      else v)"

end
