(* ===== verification/Html_Rewrite.thy ===== *)
theory Html_Rewrite
  imports Html_Scan
begin

section \<open>Rewriting documents and stylesheets (internal/proxy/rewrite)\<close>

text \<open>
  The two regular expressions of the stylesheet rewriter, the rewriters of attribute values, the
  scanner that walks a document, and the search for its base URL.
\<close>

subsection \<open>Regular expressions\<close>

text \<open>
  A pattern maps a string to the ways a prefix of it matches, as pairs of the matched text and the
  rest, in the order in which a leftmost-first matcher prefers them: for a greedy repetition the
  longest first, for an alternation the left one first.
\<close>

type_synonym pat = "string \<Rightarrow> (string \<times> string) list"

definition lit_fold :: "string \<Rightarrow> pat" where
  "lit_fold w s = (if length w \<le> length s \<and> equal_fold (take (length w) s) w
                   then [(take (length w) s, drop (length w) s)] else [])"

definition splits_down :: "nat \<Rightarrow> nat \<Rightarrow> string \<Rightarrow> (string \<times> string) list" where
  "splits_down lo hi s = map (\<lambda>n. (take n s, drop n s)) (rev [lo..<Suc hi])"

definition many :: "nat \<Rightarrow> (char \<Rightarrow> bool) \<Rightarrow> pat" where
  "many lo P s = splits_down lo (length (takeWhile P s)) s"

definition alt :: "pat \<Rightarrow> pat \<Rightarrow> pat" where
  "alt p q s = p s @ q s"

definition seq :: "pat \<Rightarrow> pat \<Rightarrow> pat" where
  "seq p q s = concat (map (\<lambda>(m, r). map (\<lambda>(m', r'). (m @ m', r')) (q r)) (p s))"

definition quoted_pat :: "char \<Rightarrow> pat" where
  "quoted_pat q = seq (lit_fold [q]) (seq (many 0 (\<lambda>c. c \<noteq> q)) (lit_fold [q]))"

text \<open>A match with its one group: the text before the group, the group, the text after, the rest.\<close>

definition grouped :: "pat \<Rightarrow> pat \<Rightarrow> pat \<Rightarrow> string \<Rightarrow> (string \<times> string \<times> string \<times> string) option" where
  "grouped p g q s =
     (case concat (map (\<lambda>(m1, r1). concat (map (\<lambda>(m2, r2). map (\<lambda>(m3, r3). (m1, m2, m3, r3)) (q r2)) (g r1))) (p s)) of
        [] \<Rightarrow> None | x # _ \<Rightarrow> Some x)"

definition cssURL_match :: "string \<Rightarrow> (string \<times> string \<times> string \<times> string) option" where
  "cssURL_match =
     grouped (seq (lit_fold ''url('') (many 0 isHTMLSpace))
       (alt (quoted_pat dquote) (alt (quoted_pat squote)
         (many 1 (\<lambda>c. c \<noteq> CHR '')'' \<and> c \<noteq> squote \<and> c \<noteq> dquote))))
       (seq (many 0 isHTMLSpace) (lit_fold '')''))"

definition cssImport_match :: "string \<Rightarrow> (string \<times> string \<times> string \<times> string) option" where
  "cssImport_match =
     grouped (seq (lit_fold ''@import'') (many 1 isHTMLSpace))
       (alt (quoted_pat dquote) (quoted_pat squote)) (lit_fold [])"

text \<open>\<open>FindStringSubmatch\<close>: the group of the leftmost match.\<close>

fun find_group :: "(string \<Rightarrow> (string \<times> string \<times> string \<times> string) option) \<Rightarrow> string \<Rightarrow> string option" where
  "find_group m s =
     (case m s of
        Some (a, g, b, r) \<Rightarrow> Some g
      | None \<Rightarrow> (case s of [] \<Rightarrow> None | c # s' \<Rightarrow> find_group m s'))"

declare find_group.simps [simp del]

text \<open>\<open>ReplaceAllStringFunc\<close>: leftmost matches, one after the other.\<close>

function replace_all :: "(string \<Rightarrow> (string \<times> string \<times> string \<times> string) option) \<Rightarrow> (string \<Rightarrow> string) \<Rightarrow> string \<Rightarrow> string" where
  "replace_all m f [] = []"
| "replace_all m f (c # s) =
     (case m (c # s) of
        None \<Rightarrow> c # replace_all m f s
      | Some (a, g, b, r) \<Rightarrow>
          let n = length (a @ g @ b) in
          if n = 0 then c # replace_all m f s
          else f (a @ g @ b) @ replace_all m f (drop n (c # s)))"
  by pat_completeness auto
termination
  by (relation "measure (\<lambda>(m, f, s). length s)") auto

declare replace_all.simps(2) [simp del]

subsection \<open>Stylesheets\<close>

definition splitQuoted :: "string \<Rightarrow> string \<times> string" where
  "splitQuoted raw =
     (if 2 \<le> length raw \<and> (hd raw = dquote \<or> hd raw = squote) \<and> last raw = hd raw
      then ([hd raw], butlast (tl raw)) else ([], raw))"

definition css_url_repl :: "url \<Rightarrow> string \<Rightarrow> string" where
  "css_url_repl base m =
     (case find_group cssURL_match m of
        None \<Rightarrow> m
      | Some g1 \<Rightarrow>
          let (quote, val) = splitQuoted g1; nxt = Resolve base val in
          if nxt = val then m
          else let quote = (if quote = [] then [dquote] else quote)
               in ''url('' @ quote @ nxt @ quote @ '')'')"

definition css_import_repl :: "url \<Rightarrow> string \<Rightarrow> string" where
  "css_import_repl base m =
     (case find_group cssImport_match m of
        None \<Rightarrow> m
      | Some g1 \<Rightarrow>
          let (quote, val) = splitQuoted g1; nxt = Resolve base val in
          if nxt = val then m
          else take (length m - length g1) m @ quote @ nxt @ quote)"

definition rewriteCSS :: "url \<Rightarrow> string \<Rightarrow> string" where
  "rewriteCSS base css =
     (let out = replace_all cssURL_match (css_url_repl base) css
      in replace_all cssImport_match (css_import_repl base) out)"

definition CSS :: "url \<Rightarrow> bytes \<Rightarrow> bytes" where
  "CSS base body = rewriteCSS base body"

definition Classify :: "string \<Rightarrow> bool \<times> bool" where
  "Classify contentType =
     (let ct = to_lower (trim_space contentType) in
      if has_prefix ct ''text/html'' \<or> has_prefix ct ''application/xhtml+xml'' then (True, False)
      else if has_prefix ct ''text/css'' then (False, True)
      else (False, False))"

subsection \<open>Attribute values\<close>

definition srcset_sep :: "char \<Rightarrow> bool" where
  "srcset_sep c \<longleftrightarrow> isHTMLSpace c \<or> c = CHR '',''"

text \<open>
  The loop of \<open>rewriteSrcset\<close> on what is left of the value: the candidates with their
  descriptors, in the order they are written.
\<close>

function srcset_candidates :: "string \<Rightarrow> (string \<times> string) list" where
  "srcset_candidates v0 =
     (let v = dropWhile srcset_sep v0 in
      if v = [] then []
      else let cand0 = takeWhile (\<lambda>c. \<not> isHTMLSpace c) v; r = dropWhile (\<lambda>c. \<not> isHTMLSpace c) v;
               comma = has_suffix cand0 '','';
               cand = (if comma then trim_right_set '','' cand0 else cand0);
               desc = (if comma then [] else trim_space (takeWhile (\<lambda>c. c \<noteq> CHR '','') r));
               r' = (if comma then r else dropWhile (\<lambda>c. c \<noteq> CHR '','') r)
           in (if cand = [] then [] else [(cand, desc)]) @ srcset_candidates r')"
  by pat_completeness auto
termination
proof (relation "measure length", goal_cases)
  case (2 v0 v cand0 r comma cand desc r')
  have "length v \<le> length v0" using 2 by (simp add: length_dropWhile_le)
  moreover obtain c t where v: "v = c # t" using 2(2) by (cases v) auto
  moreover have "\<not> srcset_sep c" using 2(1) v by (metis dropWhile_eq_Cons_conv)
  then have "length r \<le> length t" using 2(4) v by (simp add: srcset_sep_def length_dropWhile_le)
  moreover have "length r' \<le> length r" using 2 by (simp add: length_dropWhile_le)
  ultimately show ?case by simp
qed simp

declare srcset_candidates.simps [simp del]

definition rewriteSrcset :: "url \<Rightarrow> string \<Rightarrow> string" where
  "rewriteSrcset base v =
     (let cs = srcset_candidates v in
      if cs = [] then v
      else join '', '' (map (\<lambda>(cand, desc). Resolve base cand @ (if desc \<noteq> [] then '' '' @ desc else [])) cs))"

definition rewriteURLList :: "url \<Rightarrow> string \<Rightarrow> string" where
  "rewriteURLList base v =
     (let fs = Prelude.fields v in if fs = [] then v else join '' '' (map (Resolve base) fs))"

definition refresh_space :: string where
  "refresh_space = '' '' @ [CHR 9, CHR 10, CHR 12, CHR 13]"

definition rewriteMetaRefresh :: "url \<Rightarrow> string \<Rightarrow> string" where
  "rewriteMetaRefresh base v =
     (case index_byte v CHR '';'' of
        None \<Rightarrow> v
      | Some semi \<Rightarrow>
          let rest = drop (semi + 1) v; trimmed = trim_left_set refresh_space rest;
              lead = take (length rest - length trimmed) rest
          in if length trimmed < 4 \<or> \<not> equal_fold (take 3 trimmed) ''url'' then v
             else let k = skip isHTMLSpace trimmed 3 in
               if \<not> at trimmed k (\<lambda>c. c = CHR ''='') then v
               else let k = skip isHTMLSpace trimmed (k + 1); ref0 = drop k trimmed;
                        ref = (case ref0 of
                            [] \<Rightarrow> []
                          | q # r \<Rightarrow>
                              if q = dquote \<or> q = squote
                              then (case index_byte r q of None \<Rightarrow> r | Some j \<Rightarrow> take j r)
                              else trim_right_set refresh_space ref0);
                        nxt = Resolve base ref
                    in if nxt = ref then v else take (semi + 1) v @ lead @ ''url='' @ nxt)"

subsection \<open>The scanner\<close>

definition attr_text :: "string \<Rightarrow> htmlAttr \<Rightarrow> string" where
  "attr_text s a = unescapeHTML (sub s (aValStart a) (aValEnd a))"

definition isRefreshMeta :: "string \<Rightarrow> htmlTag \<Rightarrow> bool" where
  "isRefreshMeta s t \<longleftrightarrow>
     tName t = ''meta'' \<and>
     list_ex (\<lambda>a. aName a = ''http-equiv'' \<and> aHasValue a \<and> equal_fold (trim_space (attr_text s a)) ''refresh'')
       (tAttrs t)"

definition rewritesOwnBody :: "string \<Rightarrow> htmlTag \<Rightarrow> bool" where
  "rewritesOwnBody s t \<longleftrightarrow>
     tName t = ''link'' \<and>
     list_ex (\<lambda>a. aHasValue a \<and>
        (let value = to_lower (attr_text s a) in
         aName a = ''rel'' \<and> List.member (Prelude.fields value) ''stylesheet'' \<or>
         aName a = ''as'' \<and> trim_space value = ''style''))
       (tAttrs t)"

text \<open>\<open>newValue\<close>: \<open>None\<close> when nothing changes.\<close>

definition newValue :: "url \<Rightarrow> string \<Rightarrow> string \<Rightarrow> htmlAttr \<Rightarrow> bool \<Rightarrow> string option" where
  "newValue base s tag a refreshMeta =
     (let val = attr_text s a;
          nxt = (if List.member srcsetAttrs (aName a) then Some (rewriteSrcset base val)
                 else if aName a = ''ping'' \<and> tag = ''a'' then Some (rewriteURLList base val)
                 else if aName a = ''style'' then Some (rewriteCSS base val)
                 else if refreshMeta \<and> aName a = ''content'' then Some (rewriteMetaRefresh base val)
                 else if isURLAttr tag (aName a) then Some (Resolve base val)
                 else None)
      in case nxt of None \<Rightarrow> None | Some n \<Rightarrow> if n \<noteq> val then Some n else None)"

text \<open>The attribute loop of \<open>writeStartTag\<close>, from the cursor \<open>cur\<close>.\<close>

fun write_attrs :: "url \<Rightarrow> string \<Rightarrow> htmlTag \<Rightarrow> bool \<Rightarrow> bool \<Rightarrow> nat \<Rightarrow> htmlAttr list \<Rightarrow> string" where
  "write_attrs base s t refresh dropIntegrity cur [] = sub s cur (tEnd t)"
| "write_attrs base s t refresh dropIntegrity cur (a # as) =
     (if dropIntegrity \<and> aName a = ''integrity'' then
        sub s cur (aStart a) @ write_attrs base s t refresh dropIntegrity (aEnd a) as
      else if tName t = ''base'' \<and> aName a = ''href'' then
        sub s cur (aStart a) @ write_attrs base s t refresh dropIntegrity (aEnd a) as
      else if \<not> aHasValue a then write_attrs base s t refresh dropIntegrity cur as
      else case newValue base s (tName t) a refresh of
          None \<Rightarrow> write_attrs base s t refresh dropIntegrity cur as
        | Some value \<Rightarrow>
            if aQuote a = None then
              sub s cur (aStart a) @ sub s (aStart a) (aNameEnd a) @ ''='' @ [dquote] @
              escapeAttrValue value (Some dquote) @ [dquote] @
              write_attrs base s t refresh dropIntegrity (aEnd a) as
            else
              sub s cur (aValStart a) @ escapeAttrValue value (aQuote a) @
              write_attrs base s t refresh dropIntegrity (aValEnd a) as)"

definition writeStartTag :: "url \<Rightarrow> string \<Rightarrow> htmlTag \<Rightarrow> string" where
  "writeStartTag base s t =
     write_attrs base s t (isRefreshMeta s t) (rewritesOwnBody s t) (tStart t) (tAttrs t)"

text \<open>
  One turn of the scanner at a \<open><\<close>: what it writes, and where it goes on (\<open>None\<close>: it returns,
  the rest having been written).
\<close>

definition scan_step :: "url \<Rightarrow> string \<Rightarrow> nat \<Rightarrow> string \<times> nat option" where
  "scan_step base s i =
     (if has_prefix (drop i s) ''<!--'' then
        (case index_str (drop (i + 4) s) ''-->'' of
           None \<Rightarrow> (drop i s, None)
         | Some e \<Rightarrow> (sub s i (i + 4 + e + 3), Some (i + 4 + e + 3)))
      else if has_prefix (drop i s) ''<!'' \<or> has_prefix (drop i s) ''<?'' \<or> has_prefix (drop i s) ''</'' then
        (case index_byte (drop i s) CHR ''>'' of
           None \<Rightarrow> (drop i s, None)
         | Some e \<Rightarrow> (sub s i (i + e + 1), Some (i + e + 1)))
      else if at s (i + 1) isASCIILetter then
        (case parseStartTag s i of
           None \<Rightarrow> (''<'', Some (i + 1))
         | Some t \<Rightarrow>
             let out = writeStartTag base s t in
             if tName t = ''plaintext'' then (out @ drop (tEnd t) s, None)
             else if List.member rawText (tName t) \<and> \<not> tSelfClosing t then
               (let e = findEndTag s (tName t) (tEnd t) in
                (out @ (if tName t = ''style'' then rewriteCSS base (sub s (tEnd t) e) else sub s (tEnd t) e),
                 Some e))
             else (out, Some (tEnd t)))
      else (''<'', Some (i + 1)))"

lemma parse_attrs_end:
  "j \<le> length s \<Longrightarrow> j \<le> tEnd (parse_attrs s t j) \<and> tEnd (parse_attrs s t j) \<le> length s"
proof (induction s t j rule: parse_attrs.induct)
  case (1 s t j0)
  let ?j = "skip isHTMLSpace s j0"
  have j: "j0 \<le> ?j" "?j \<le> length s" using skip_ge skip_le 1(3) by blast+
  show ?case
  proof (cases "length s \<le> ?j \<or> s ! ?j = CHR ''>''")
    case True
    then show ?thesis using j 1(3) by (subst (1 2) parse_attrs.simps) (auto simp: Let_def)
  next
    case False
    show ?thesis
    proof (cases "s ! ?j = CHR ''/''")
      case True
      show ?thesis
      proof (cases "at s (?j + 1) (\<lambda>c. c = CHR ''>'')")
        case c: True
        with True False j show ?thesis by (subst (1 2) parse_attrs.simps) (simp add: Let_def at_iff)
      next
        case c: False
        have "?j + 1 \<le> length s" using False j by linarith
        from "1.IH"(1) [OF refl _ _ True c this] False True c j show ?thesis
          by (subst (1 2) parse_attrs.simps) (simp add: Let_def)
      qed
    next
      case slash: False
      let ?a = "parse_attr s ?j"
      have e: "aEnd ?a \<le> length s" "?j \<le> aEnd ?a"
        using parse_attr_end_le [OF j(2)] parse_attr_spans(2) [of ?j s] parse_attr_spans(3-5) [of s ?j]
      by linarith+
      from "1.IH"(2) [OF refl _ _ slash refl e(1)] False slash j e show ?thesis
        by (subst (1 2) parse_attrs.simps) (simp add: Let_def)
    qed
  qed
qed

lemma parseStartTag_end:
  assumes "parseStartTag s i = Some t" "i < length s"
  shows "i < tEnd t" "tEnd t \<le> length s"
proof -
  let ?n = "skip (\<lambda>c. \<not> isTagNameEnd c) s (i + 1)"
  have n: "i + 1 \<le> ?n" "?n \<le> length s" using assms(2) by (auto intro: skip_ge skip_le)
  obtain t0 where "t = parse_attrs s t0 ?n" using assms(1) by (auto simp: parseStartTag_def Let_def split: if_splits)
  with parse_attrs_end [OF n(2), of t0] n(1) show "i < tEnd t" "tEnd t \<le> length s" by simp_all
qed

lemma findEndTag_bounds: "i \<le> length s \<Longrightarrow> i \<le> findEndTag s name i \<and> findEndTag s name i \<le> length s"
proof (induction s name i rule: findEndTag.induct)
  case (1 s name i)
  show ?case
  proof (cases "length s \<le> i")
    case False
    show ?thesis
    proof (cases "index_byte (drop i s) CHR ''<''")
      case None
      with False show ?thesis by (subst (1 2) findEndTag.simps) (simp del: index_byte_None)
    next
      case (Some j)
      have "j < length (drop i s)" using index_byte_SomeD [OF Some] by blast
      then have "i + j < length s" using False by simp
      with False Some 1 show ?thesis by (subst (1 2) findEndTag.simps) (auto intro: le_trans)
    qed
  qed (use 1 in \<open>subst (1 2) findEndTag.simps, simp\<close>)
qed

lemma scan_step_progress:
  assumes "snd (scan_step base s i) = Some j" "i < length s"
  shows "i < j"
proof (cases "has_prefix (drop i s) ''<!--'' \<or> has_prefix (drop i s) ''<!'' \<or> has_prefix (drop i s) ''<?'' \<or>
    has_prefix (drop i s) ''</'' \<or> \<not> at s (i + 1) isASCIILetter")
  case True
  with assms(1) show ?thesis by (auto simp: scan_step_def split: if_splits option.splits)
next
  case False
  show ?thesis
  proof (cases "parseStartTag s i")
    case None
    with False assms(1) show ?thesis by (simp add: scan_step_def)
  next
    case (Some t)
    have "j = tEnd t \<or> j = findEndTag s (tName t) (tEnd t)"
      using False assms(1) by (auto simp: scan_step_def Some Let_def split: if_splits)
    with parseStartTag_end [OF Some assms(2)] findEndTag_bounds [of "tEnd t" s "tName t"]
    show ?thesis by auto
  qed
qed

function run :: "url \<Rightarrow> string \<Rightarrow> nat \<Rightarrow> string" where
  "run base s i =
     (if length s \<le> i then []
      else case index_byte (drop i s) CHR ''<'' of
          None \<Rightarrow> drop i s
        | Some lt \<Rightarrow>
            (case scan_step base s (i + lt) of
               (out, None) \<Rightarrow> sub s i (i + lt) @ out
             | (out, Some j) \<Rightarrow> sub s i (i + lt) @ out @ run base s j))"
  by pat_completeness auto
termination
proof (relation "measure (\<lambda>(base, s, i). length s - i)")
  fix base s i lt out y j
  assume *: "\<not> length s \<le> i" "index_byte (drop i s) CHR ''<'' = Some lt"
    "(out, y) = scan_step base s (i + lt)" "y = Some j"
  have "lt < length (drop i s)" using index_byte_SomeD [OF *(2)] by blast
  then have lt: "i + lt < length s" by (simp add: less_diff_conv add.commute)
  have "snd (scan_step base s (i + lt)) = Some j" using *(3,4) by (metis snd_conv)
  from scan_step_progress [OF this lt] lt show "((base, s, j), base, s, i) \<in> measure (\<lambda>(base, s, i). length s - i)"
    by simp
qed simp

declare run.simps [simp del]

subsection \<open>The document's base URL\<close>

text \<open>The loop over the attributes of a \<open><base>\<close> element: the first usable reference.\<close>

fun base_href :: "string \<Rightarrow> url \<Rightarrow> htmlAttr list \<Rightarrow> url option" where
  "base_href s target [] = None"
| "base_href s target (a # as) =
     (if aName a \<noteq> ''href'' \<or> \<not> aHasValue a then base_href s target as
      else let ref = trim_space (attr_text s a) in
        if ref = [] then base_href s target as
        else case url_Parse ref of
            None \<Rightarrow> base_href s target as
          | Some u \<Rightarrow>
              let tgt = ResolveReference target u in
              if http_scheme (Scheme tgt) then Some tgt else base_href s target as)"

text \<open>One turn of \<open>documentBase\<close> at a \<open><\<close>: the result (\<open>Inl\<close>), or where to go on.\<close>

definition base_step :: "string \<Rightarrow> url \<Rightarrow> nat \<Rightarrow> url + nat" where
  "base_step s target i =
     (if has_prefix (drop i s) ''<!--'' then
        (case index_str (drop (i + 4) s) ''-->'' of
           None \<Rightarrow> Inl target | Some e \<Rightarrow> Inr (i + (4 + e + 3)))
      else if has_prefix (drop i s) ''</'' then
        (if hasTagNameAt s (i + 2) ''head'' then Inl target else Inr (i + 1))
      else if length s \<le> i + 1 \<or> \<not> at s (i + 1) isASCIILetter then Inr (i + 1)
      else case parseStartTag s i of
          None \<Rightarrow> Inr (i + 1)
        | Some t \<Rightarrow>
            (let nxt = (if List.member rawText (tName t) \<and> \<not> tSelfClosing t
                        then findEndTag s (tName t) (tEnd t) else tEnd t)
             in if tName t = ''base'' then
                  (case base_href s target (tAttrs t) of Some b \<Rightarrow> Inl b | None \<Rightarrow> Inr nxt)
                else if \<not> List.member headContent (tName t) then Inl target
                else Inr nxt))"

lemma base_step_progress:
  assumes "base_step s target i = Inr j" "i < length s"
  shows "i < j"
proof (cases "has_prefix (drop i s) ''<!--'' \<or> has_prefix (drop i s) ''</'' \<or>
    length s \<le> i + 1 \<or> \<not> at s (i + 1) isASCIILetter")
  case True
  with assms(1) show ?thesis by (auto simp: base_step_def split: if_splits option.splits)
next
  case False
  show ?thesis
  proof (cases "parseStartTag s i")
    case None
    with False assms(1) show ?thesis by (simp add: base_step_def)
  next
    case (Some t)
    have "j = tEnd t \<or> j = findEndTag s (tName t) (tEnd t)"
      using False assms(1) by (auto simp: base_step_def Some Let_def split: if_splits option.splits)
    with parseStartTag_end [OF Some assms(2)] findEndTag_bounds [of "tEnd t" s "tName t"]
    show ?thesis by auto
  qed
qed

function documentBase_from :: "string \<Rightarrow> url \<Rightarrow> nat \<Rightarrow> url" where
  "documentBase_from s target i =
     (if length s \<le> i then target
      else case index_byte (drop i s) CHR ''<'' of
          None \<Rightarrow> target
        | Some lt \<Rightarrow>
            (case base_step s target (i + lt) of
               Inl b \<Rightarrow> b
             | Inr j \<Rightarrow> documentBase_from s target j))"
  by pat_completeness auto
termination
proof (relation "measure (\<lambda>(s, target, i). length s - i)")
  fix s target i lt j
  assume *: "\<not> length s \<le> i" "index_byte (drop i s) CHR ''<'' = Some lt" "base_step s target (i + lt) = Inr j"
  have "lt < length (drop i s)" using index_byte_SomeD [OF *(2)] by blast
  then have lt: "i + lt < length s" by (simp add: less_diff_conv add.commute)
  from base_step_progress [OF *(3) lt] lt show "((s, target, j), s, target, i) \<in> measure (\<lambda>(s, target, i). length s - i)"
    by simp
qed simp

declare documentBase_from.simps [simp del]

definition documentBase :: "string \<Rightarrow> url \<Rightarrow> url" where
  "documentBase s target = documentBase_from s target 0"

definition HTML :: "url \<Rightarrow> bytes \<Rightarrow> bytes" where
  "HTML target body = run (documentBase body target) body 0"

end
