(* ===== verification/Go_Unicode.thy ===== *)
theory Go_Unicode
  imports Go_Utf8
begin

section \<open>unicode.ToLower and strings.ToLower\<close>

text \<open>
  The lower-case mapping of Unicode, as the \<open>CaseRanges\<close> of Go's package \<open>unicode\<close> give it: the
  runes of a range, one in \<open>stride\<close>, are lowered by adding the entry's delta, and every other rune is
  its own lower case.  \<open>strings.ToLower\<close> has a path of its own for ASCII; other text goes rune by
  rune, and each byte that is no UTF-8 comes out as U+FFFD.
\<close>

definition lower_ranges :: "(nat \<times> nat \<times> nat \<times> int) list" where
  "lower_ranges =
     [(65, 90, 1, 32), (192, 214, 1, 32), (216, 222, 1, 32), (256, 302, 2, 1), (304, 304, 1, - 199),
      (306, 310, 2, 1), (313, 327, 2, 1), (330, 374, 2, 1), (376, 376, 1, - 121), (377, 381, 2, 1),
      (385, 385, 1, 210), (386, 388, 2, 1), (390, 390, 1, 206), (391, 391, 1, 1), (393, 394, 1, 205),
      (395, 395, 1, 1), (398, 398, 1, 79), (399, 399, 1, 202), (400, 400, 1, 203), (401, 401, 1, 1),
      (403, 403, 1, 205), (404, 404, 1, 207), (406, 406, 1, 211), (407, 407, 1, 209), (408, 408, 1, 1),
      (412, 412, 1, 211), (413, 413, 1, 213), (415, 415, 1, 214), (416, 420, 2, 1), (422, 422, 1, 218),
      (423, 423, 1, 1), (425, 425, 1, 218), (428, 428, 1, 1), (430, 430, 1, 218), (431, 431, 1, 1),
      (433, 434, 1, 217), (435, 437, 2, 1), (439, 439, 1, 219), (440, 440, 1, 1), (444, 444, 1, 1),
      (452, 452, 1, 2), (453, 453, 1, 1), (455, 455, 1, 2), (456, 456, 1, 1), (458, 458, 1, 2),
      (459, 475, 2, 1), (478, 494, 2, 1), (497, 497, 1, 2), (498, 500, 2, 1), (502, 502, 1, - 97),
      (503, 503, 1, - 56), (504, 542, 2, 1), (544, 544, 1, - 130), (546, 562, 2, 1), (570, 570, 1, 10795),
      (571, 571, 1, 1), (573, 573, 1, - 163), (574, 574, 1, 10792), (577, 577, 1, 1), (579, 579, 1, - 195),
      (580, 580, 1, 69), (581, 581, 1, 71), (582, 590, 2, 1), (880, 882, 2, 1), (886, 886, 1, 1),
      (895, 895, 1, 116), (902, 902, 1, 38), (904, 906, 1, 37), (908, 908, 1, 64), (910, 911, 1, 63),
      (913, 929, 1, 32), (931, 939, 1, 32), (975, 975, 1, 8), (984, 1006, 2, 1), (1012, 1012, 1, - 60),
      (1015, 1015, 1, 1), (1017, 1017, 1, - 7), (1018, 1018, 1, 1), (1021, 1023, 1, - 130),
      (1024, 1039, 1, 80), (1040, 1071, 1, 32), (1120, 1152, 2, 1), (1162, 1214, 2, 1), (1216, 1216, 1, 15),
      (1217, 1229, 2, 1), (1232, 1326, 2, 1), (1329, 1366, 1, 48), (4256, 4293, 1, 7264),
      (4295, 4295, 1, 7264), (4301, 4301, 1, 7264), (5024, 5103, 1, 38864), (5104, 5109, 1, 8),
      (7312, 7354, 1, - 3008), (7357, 7359, 1, - 3008), (7680, 7828, 2, 1), (7838, 7838, 1, - 7615),
      (7840, 7934, 2, 1), (7944, 7951, 1, - 8), (7960, 7965, 1, - 8), (7976, 7983, 1, - 8),
      (7992, 7999, 1, - 8), (8008, 8013, 1, - 8), (8025, 8031, 2, - 8), (8040, 8047, 1, - 8),
      (8072, 8079, 1, - 8), (8088, 8095, 1, - 8), (8104, 8111, 1, - 8), (8120, 8121, 1, - 8),
      (8122, 8123, 1, - 74), (8124, 8124, 1, - 9), (8136, 8139, 1, - 86), (8140, 8140, 1, - 9),
      (8152, 8153, 1, - 8), (8154, 8155, 1, - 100), (8168, 8169, 1, - 8), (8170, 8171, 1, - 112),
      (8172, 8172, 1, - 7), (8184, 8185, 1, - 128), (8186, 8187, 1, - 126), (8188, 8188, 1, - 9),
      (8486, 8486, 1, - 7517), (8490, 8490, 1, - 8383), (8491, 8491, 1, - 8262), (8498, 8498, 1, 28),
      (8544, 8559, 1, 16), (8579, 8579, 1, 1), (9398, 9423, 1, 26), (11264, 11311, 1, 48),
      (11360, 11360, 1, 1), (11362, 11362, 1, - 10743), (11363, 11363, 1, - 3814),
      (11364, 11364, 1, - 10727), (11367, 11371, 2, 1), (11373, 11373, 1, - 10780),
      (11374, 11374, 1, - 10749), (11375, 11375, 1, - 10783), (11376, 11376, 1, - 10782),
      (11378, 11378, 1, 1), (11381, 11381, 1, 1), (11390, 11391, 1, - 10815), (11392, 11490, 2, 1),
      (11499, 11501, 2, 1), (11506, 11506, 1, 1), (42560, 42604, 2, 1), (42624, 42650, 2, 1),
      (42786, 42798, 2, 1), (42802, 42862, 2, 1), (42873, 42875, 2, 1), (42877, 42877, 1, - 35332),
      (42878, 42886, 2, 1), (42891, 42891, 1, 1), (42893, 42893, 1, - 42280), (42896, 42898, 2, 1),
      (42902, 42920, 2, 1), (42922, 42922, 1, - 42308), (42923, 42923, 1, - 42319),
      (42924, 42924, 1, - 42315), (42925, 42925, 1, - 42305), (42926, 42926, 1, - 42308),
      (42928, 42928, 1, - 42258), (42929, 42929, 1, - 42282), (42930, 42930, 1, - 42261),
      (42931, 42931, 1, 928), (42932, 42946, 2, 1), (42948, 42948, 1, - 48), (42949, 42949, 1, - 42307),
      (42950, 42950, 1, - 35384), (42951, 42953, 2, 1), (42960, 42960, 1, 1), (42966, 42968, 2, 1),
      (42997, 42997, 1, 1), (65313, 65338, 1, 32), (66560, 66599, 1, 40), (66736, 66771, 1, 40),
      (66928, 66938, 1, 39), (66940, 66954, 1, 39), (66956, 66962, 1, 39), (66964, 66965, 1, 39),
      (68736, 68786, 1, 64), (71840, 71871, 1, 32), (93760, 93791, 1, 32), (125184, 125217, 1, 34)]"

definition in_range :: "nat \<Rightarrow> nat \<times> nat \<times> nat \<times> int \<Rightarrow> bool" where
  "in_range r e = (case e of (lo, hi, stride, _) \<Rightarrow> lo \<le> r \<and> r \<le> hi \<and> (r - lo) mod stride = 0)"

definition unicode_ToLower :: "nat \<Rightarrow> nat" where
  "unicode_ToLower r =
     (case List.find (in_range r) lower_ranges of
        None \<Rightarrow> r
      | Some (_, _, _, d) \<Rightarrow> nat (int r + d))"

function map_ToLower :: "string \<Rightarrow> string" where
  "map_ToLower [] = []"
| "map_ToLower (a # s) =
     utf8 (unicode_ToLower (fst (decode_rune a s))) @ map_ToLower (drop (snd (decode_rune a s)) (a # s))"
  by pat_completeness auto
termination
  by (relation "measure length") (use decode_rune_pos in \<open>force+\<close>)

declare map_ToLower.simps(2) [simp del]

definition strings_ToLower :: "string \<Rightarrow> string" where
  "strings_ToLower s = (if is_ascii s then to_lower s else map_ToLower s)"

subsection \<open>What lowering can produce\<close>

text \<open>
  The images of an entry lie between its bounds moved by its delta.  No image is a white-space rune;
  from outside ASCII only two images fall into it, \<open>i\<close> (of U+0130) and \<open>k\<close> (of U+212A).
\<close>

definition space_runes :: "int list" where
  "space_runes = [0x85, 0xA0, 0x1680, 0x2000, 0x2001, 0x2002, 0x2003, 0x2004, 0x2005, 0x2006, 0x2007,
     0x2008, 0x2009, 0x200A, 0x2028, 0x2029, 0x202F, 0x205F, 0x3000]"

definition good_range :: "nat \<times> nat \<times> nat \<times> int \<Rightarrow> bool" where
  "good_range e = (case e of (lo, hi, _, d) \<Rightarrow>
     lo = 65 \<and> hi = 90 \<and> d = 32 \<or>
     128 \<le> lo \<and>
     (lo = hi \<and> (int lo + d = 105 \<or> int lo + d = 107) \<or>
      128 \<le> int lo + d \<and> int hi + d < 0x110000 \<and> list_all (\<lambda>w. w < int lo + d \<or> int hi + d < w) space_runes))"

lemma good_lower_ranges: "list_all good_range lower_ranges"
  by code_simp

lemma unicode_ToLower_cases:
  obtains (same) "unicode_ToLower r = r" "\<not> (65 \<le> r \<and> r \<le> 90)"
  | (upper) "65 \<le> r" "r \<le> 90" "unicode_ToLower r = r + 32"
  | (ascii) "128 \<le> r" "unicode_ToLower r = 105 \<or> unicode_ToLower r = 107"
  | (beyond) "128 \<le> r" "128 \<le> unicode_ToLower r" "r < 0x110000 \<longrightarrow> unicode_ToLower r < 0x110000" "int (unicode_ToLower r) \<notin> set space_runes"
proof (cases "List.find (in_range r) lower_ranges")
  case None
  have u: "(65, 90, 1, 32) \<in> set lower_ranges" by (simp add: lower_ranges_def)
  with None have "\<not> in_range r (65, 90, 1, 32)" by (auto simp: find_None_iff)
  then have "\<not> (65 \<le> r \<and> r \<le> 90)" by (simp add: in_range_def)
  moreover from None have "unicode_ToLower r = r" by (simp add: unicode_ToLower_def)
  ultimately show ?thesis by (rule that(1) [rotated])
next
  case (Some e)
  then have e: "e \<in> set lower_ranges" "in_range r e" by (auto simp: find_Some_iff)
  obtain lo hi stride d where q: "e = (lo, hi, stride, d)" using prod_cases4 by blast
  have u: "unicode_ToLower r = nat (int r + d)" by (simp add: unicode_ToLower_def Some q)
  have b: "lo \<le> r" "r \<le> hi" using e(2) by (simp_all add: q in_range_def)
  have "good_range e" using good_lower_ranges e(1) unfolding list_all_iff by blast
  then consider "lo = 65" "hi = 90" "d = 32" | "128 \<le> lo" "lo = hi" "int lo + d = 105 \<or> int lo + d = 107"
    | "128 \<le> lo" "128 \<le> int lo + d" "int hi + d < 0x110000" "list_all (\<lambda>w. w < int lo + d \<or> int hi + d < w) space_runes"
    unfolding q good_range_def prod.case by blast
  then show ?thesis
  proof cases
    case 1
    with b u have "65 \<le> r" "r \<le> 90" "unicode_ToLower r = r + 32" by simp_all
    then show ?thesis by (rule that(2))
  next
    case 2
    with b have "r = lo" by simp
    with 2 u have "128 \<le> r" "unicode_ToLower r = 105 \<or> unicode_ToLower r = 107" by auto
    then show ?thesis by (rule that(3))
  next
    case 3
    have i: "int lo + d \<le> int r + d" "int r + d \<le> int hi + d" using b by simp_all
    have "int r + d \<notin> set space_runes" using 3(4) i unfolding list_all_iff by fastforce
    moreover have "int (unicode_ToLower r) = int r + d" using u 3(2) i by simp
    ultimately have "int (unicode_ToLower r) \<notin> set space_runes" "128 \<le> unicode_ToLower r" "128 \<le> r"
        "unicode_ToLower r < 0x110000"
      using 3 b i by auto
    then show ?thesis using that(4) by blast
  qed
qed

lemma unicode_ToLower_ascii: "r < 128 \<Longrightarrow> unicode_ToLower r = (if 65 \<le> r \<and> r \<le> 90 then r + 32 else r)"
  by (cases rule: unicode_ToLower_cases [of r]) auto

lemma unicode_ToLower_not_upper: "\<not> (65 \<le> unicode_ToLower r \<and> unicode_ToLower r \<le> 90)"
  by (cases rule: unicode_ToLower_cases [of r]) auto

lemma unicode_ToLower_semicolon: "unicode_ToLower r = 59 \<Longrightarrow> r = 59"
  by (cases rule: unicode_ToLower_cases [of r]) auto

subsection \<open>Lowering a text\<close>

lemma utf8_nonempty [simp]: "utf8 r \<noteq> []"
  by (simp add: utf8_def)

lemma utf8_ascii: "r < 128 \<Longrightarrow> utf8 r = [char_of r]"
  by (simp add: utf8_def)

lemma utf8_high: "128 \<le> r \<Longrightarrow> r < 0x110000 \<Longrightarrow> c \<in> set (utf8 r) \<Longrightarrow> 128 \<le> byte c"
  by (auto simp: utf8_def split: if_splits)

lemma decode_rune_ascii: "byte a < 128 \<Longrightarrow> decode_rune a s = (byte a, 1)"
  by (simp add: decode_rune_def)

lemma decode_rune_high: "128 \<le> byte a \<Longrightarrow> 128 \<le> fst (decode_rune a s) \<and> fst (decode_rune a s) < 0x110000"
  by (cases rule: decode_rune_cases [of a s]) (auto simp: second_ok_def cont_def split: if_splits)

lemma map_ToLower_ascii: "byte a < 128 \<Longrightarrow> map_ToLower (a # s) = lower_char a # map_ToLower s"
  by (simp add: map_ToLower.simps(2) decode_rune_ascii unicode_ToLower_ascii utf8_ascii lower_char_def is_upper_def)

lemma strings_ToLower_map: "strings_ToLower s = map_ToLower s"
proof -
  have "is_ascii s \<Longrightarrow> to_lower s = map_ToLower s"
    by (induction s) (simp_all add: is_ascii_def map_ToLower_ascii)
  then show ?thesis by (simp add: strings_ToLower_def)
qed

lemma strings_ToLower_Cons:
  "strings_ToLower (a # s) =
     utf8 (unicode_ToLower (fst (decode_rune a s))) @ strings_ToLower (drop (snd (decode_rune a s)) (a # s))"
  by (simp add: strings_ToLower_map map_ToLower.simps(2))

lemma strings_ToLower_ascii: "is_ascii s \<Longrightarrow> strings_ToLower s = to_lower s"
  by (simp add: strings_ToLower_def)

lemma strings_ToLower_eq_Nil [simp]: "strings_ToLower s = [] \<longleftrightarrow> s = []"
  by (cases s) (simp_all add: strings_ToLower_map map_ToLower.simps(2))

lemma unicode_ToLower_bound: "r < 0x110000 \<Longrightarrow> unicode_ToLower r < 0x110000"
  by (cases rule: unicode_ToLower_cases [of r]) auto

lemma decode_rune_bound: "fst (decode_rune a s) < 0x110000"
  by (cases "byte a < 128") (simp_all add: decode_rune_ascii decode_rune_high)

lemma to_lower_high: "\<forall>c\<in>set s. 128 \<le> byte c \<Longrightarrow> to_lower s = s"
  by (induction s) (auto simp: lower_char_def is_upper_def)

lemma to_lower_utf8:
  assumes "r < 0x110000" "\<not> (65 \<le> r \<and> r \<le> 90)"
  shows "to_lower (utf8 r) = utf8 r"
proof (cases "r < 128")
  case True
  with assms(2) show ?thesis by (simp add: utf8_ascii lower_char_def is_upper_def)
next
  case False
  with assms(1) show ?thesis by (intro to_lower_high) (auto dest: utf8_high [rotated 2])
qed

text \<open>What has been lowered has no upper-case letter of ASCII left.\<close>

lemma to_lower_strings_ToLower [simp]: "to_lower (strings_ToLower s) = strings_ToLower s"
  unfolding strings_ToLower_map
proof (induction s rule: map_ToLower.induct)
  case (2 a s)
  let ?r = "unicode_ToLower (fst (decode_rune a s))"
  have "to_lower (utf8 ?r) = utf8 ?r"
    by (rule to_lower_utf8) (rule unicode_ToLower_bound decode_rune_bound unicode_ToLower_not_upper)+
  with 2 show ?case by (simp add: map_ToLower.simps(2))
qed simp

text \<open>
  A byte of ASCII other than \<open>i\<close> and \<open>k\<close> at the front of the lowered text comes from the byte at the
  front of the text.
\<close>

lemma has_prefix_strings_ToLower:
  assumes "list_all (\<lambda>c. byte c < 128 \<and> byte c \<noteq> 105 \<and> byte c \<noteq> 107) p" "has_prefix (strings_ToLower s) p"
  shows "has_prefix (to_lower s) p"
  using assms unfolding strings_ToLower_map
proof (induction p arbitrary: s)
  case (Cons c p)
  show ?case
  proof (cases s)
    case Nil
    with Cons.prems show ?thesis by simp
  next
    case (Cons a t)
    show ?thesis
    proof (cases "byte a < 128")
      case True
      with Cons Cons.prems Cons.IH [of t] show ?thesis by (simp add: map_ToLower_ascii)
    next
      case False
      let ?r = "unicode_ToLower (fst (decode_rune a t))"
      have r: "128 \<le> fst (decode_rune a t)" using decode_rune_high [of a t] False by simp
      have first: "hd (utf8 ?r) = c" using Cons.prems(2)
        by (cases "utf8 ?r") (simp_all add: Cons map_ToLower.simps(2))
      have c: "byte c < 128" "byte c \<noteq> 105" "byte c \<noteq> 107" using Cons.prems(1) by simp_all
      have False
      proof (cases "?r < 128")
        case True
        with r have "?r = 105 \<or> ?r = 107"
          by (cases rule: unicode_ToLower_cases [of "fst (decode_rune a t)"]) auto
        with first c show False by (auto simp: utf8_ascii)
      next
        case False
        then have "128 \<le> ?r" by simp
        then have "128 \<le> byte (hd (utf8 ?r))"
          by (rule utf8_high [OF _ unicode_ToLower_bound [OF decode_rune_bound] hd_in_set [OF utf8_nonempty]])
        with first c show False by simp
      qed
      then show ?thesis ..
    qed
  qed
qed simp

end
