(* ===== verification/Csp.thy ===== *)
theory Csp
  imports Prelude Go_Base64 Go_Unicode
begin

section \<open>Content-Security-Policy rewriting (internal/proxy/csp.go)\<close>

text \<open>
  The policy of a site is translated onto the proxy's origin.  The definitions follow the source;
  the lemmas read both policies the way a browser does, as directives of white-space separated
  tokens, and show that the translation commutes with that reading.
\<close>

definition sq :: string where
  "sq = [CHR 0x27]"

definition quoted :: "string \<Rightarrow> string" where
  "quoted s = sq @ s @ sq"

definition cspSourceKeywords :: "string list" where
  "cspSourceKeywords = map quoted
     [''self'', ''none'', ''unsafe-inline'', ''unsafe-eval'', ''unsafe-hashes'', ''wasm-unsafe-eval'',
      ''strict-dynamic'', ''report-sample'', ''inline-speculation-rules'']"

definition cspVerbatimDirectives :: "string list" where
  "cspVerbatimDirectives =
     [''upgrade-insecure-requests'', ''block-all-mixed-content'', ''sandbox'',
      ''require-trusted-types-for'', ''trusted-types'']"

definition cspDroppedDirectives :: "string list" where
  "cspDroppedDirectives = [''report-uri'', ''report-to'']"

definition cspScriptDirectives :: "string list" where
  "cspScriptDirectives = [''script-src'', ''script-src-elem'', ''default-src'']"

text \<open>The random source either fails or yields 16 bytes; \<open>StdEncoding\<close> pads them with two signs.\<close>

definition newCSPNonce :: "bytes option \<Rightarrow> string" where
  "newCSPNonce rand =
     (case rand of None \<Rightarrow> []
      | Some b \<Rightarrow> std_encode b @ replicate ((3 - length b mod 3) mod 3) CHR ''='')"

subsection \<open>Sources\<close>

definition csp_source :: "string \<Rightarrow> string" where
  "csp_source s =
     (let lower = strings_ToLower s in
      if List.member cspSourceKeywords lower then lower
      else if has_prefix lower (sq @ ''nonce-'') \<or> has_prefix lower (sq @ ''sha256-'') \<or>
          has_prefix lower (sq @ ''sha384-'') \<or> has_prefix lower (sq @ ''sha512-'') then s
      else if lower = ''data:'' \<or> lower = ''blob:'' \<or> lower = ''filesystem:'' \<or> lower = ''mediastream:''
        then lower
      else quoted ''self'')"

text \<open>\<open>add\<close> skips the empty source and those already seen, which are those already emitted.\<close>

definition translateCSPSources :: "string list \<Rightarrow> string list" where
  "translateCSPSources sources =
     fold (\<lambda>s out. let t = csp_source s in if t \<noteq> [] \<and> \<not> List.member out t then out @ [t] else out) sources []"

definition removeCSPSource :: "string list \<Rightarrow> string \<Rightarrow> string list" where
  "removeCSPSource sources dropped = filter (\<lambda>s. s \<noteq> dropped) sources"

subsection \<open>Policies\<close>

definition csp_sources :: "string \<Rightarrow> string \<Rightarrow> string list \<Rightarrow> string list" where
  "csp_sources nonce name given =
     (let sources0 = translateCSPSources given;
          sources = (if List.member cspScriptDirectives name \<and> nonce \<noteq> []
                     then removeCSPSource sources0 (quoted ''none'') @ [sq @ ''nonce-'' @ nonce @ sq]
                     else sources0)
      in if sources = [] then [quoted ''none''] else sources)"

text \<open>One directive, from its fields: \<open>None\<close> when it is dropped.\<close>

definition csp_directive :: "string \<Rightarrow> string list \<Rightarrow> string list option" where
  "csp_directive nonce fs =
     (case fs of
        [] \<Rightarrow> None
      | f # given \<Rightarrow>
          let name = strings_ToLower f in
          if List.member cspDroppedDirectives name then None
          else if List.member cspVerbatimDirectives name then Some fs
          else Some (name # csp_sources nonce name given))"

definition rewriteCSP :: "string \<Rightarrow> string \<Rightarrow> string" where
  "rewriteCSP policy nonce =
     (let out = fold (\<lambda>raw out. case csp_directive nonce (fields raw) of
                None \<Rightarrow> out | Some d \<Rightarrow> out @ [join '' '' d]) (split_byte CHR '';'' policy) []
      in if out = [] then [] else join ''; '' out)"

lemma rewriteCSP_map_filter:
  "rewriteCSP policy nonce =
     join ''; '' (map (join '' '') (List.map_filter (csp_directive nonce) (map fields (split_byte CHR '';'' policy))))"
proof -
  have "fold (\<lambda>raw out. case csp_directive nonce (fields raw) of
                None \<Rightarrow> out | Some d \<Rightarrow> out @ [join '' '' d]) raws out =
      out @ map (join '' '') (List.map_filter (csp_directive nonce) (map fields raws))" for raws out
    by (induction raws arbitrary: out) (auto simp: List.map_filter_def split: option.splits)
  then show ?thesis by (simp add: rewriteCSP_def Let_def)
qed

subsection \<open>Tokens that survive being printed\<close>

text \<open>
  No white-space rune, of one, two or three bytes, starts anywhere inside the token.  Every field
  of a string is such a token, and printing such tokens with spaces between them and splitting
  the result gives them back.
\<close>

fun no_space :: "string \<Rightarrow> bool" where
  "no_space [] = True"
| "no_space (c # s) = (space_len (c # s) = 0 \<and> no_space s)"

definition clean :: "string \<Rightarrow> bool" where
  "clean t \<longleftrightarrow> t \<noteq> [] \<and> no_space t"

lemma space3_ascii: "\<not> space3 a 32 c" "\<not> space3 a b 32"
  by (simp_all add: space3_def)

lemma space_len_before_space: "space_len (a # t) = 0 \<Longrightarrow> space_len (a # t @ CHR '' '' # r) = 0"
proof (cases t rule: remdups_adj.cases)
  case 1
  then show "space_len (a # t) = 0 \<Longrightarrow> ?thesis"
    by (auto simp: space3_ascii split: if_splits list.splits)
next
  case (2 b)
  then show "space_len (a # t) = 0 \<Longrightarrow> ?thesis"
    by (auto simp: space3_ascii split: if_splits)
next
  case (3 b c t')
  then show "space_len (a # t) = 0 \<Longrightarrow> ?thesis" by (auto split: if_splits)
qed

lemma space_len_cut: "space_len (x @ y) = 0 \<Longrightarrow> space_len x = 0"
proof (cases x)
  case (Cons a t)
  show "space_len (x @ y) = 0 \<Longrightarrow> ?thesis"
    unfolding Cons by (cases t rule: remdups_adj.cases) (auto split: if_splits)
qed simp

lemma fields_aux_clean:
  "no_space t \<Longrightarrow> fields_aux cur (t @ CHR '' '' # r) =
     (if rev t @ cur = [] then [] else [rev cur @ t]) @ fields_aux [] r"
proof (induction t arbitrary: cur)
  case Nil
  have "space_len (CHR '' '' # r) = 1" by (simp add: is_ascii_space_def)
  then show ?case by (simp add: fields_aux.simps(2))
next
  case (Cons a t)
  then show ?case using space_len_before_space [of a t r] by (simp add: fields_aux.simps(2))
qed

lemma fields_aux_end: "no_space t \<Longrightarrow> fields_aux cur t = (if rev t @ cur = [] then [] else [rev cur @ t])"
  by (induction t arbitrary: cur) (simp_all add: fields_aux.simps(2))

lemma fields_join: "list_all clean ts \<Longrightarrow> fields (join '' '' ts) = ts"
proof (induction ts)
  case (Cons t ts)
  then show ?case
    by (cases ts) (auto simp: fields_def clean_def fields_aux_clean fields_aux_end)
qed (simp add: fields_def)

lemma no_spaceI: "(\<And>i. i < length t \<Longrightarrow> space_len (drop i t @ s) = 0) \<Longrightarrow> no_space t"
proof (induction t)
  case (Cons a t)
  have "no_space t" by (rule Cons.IH) (use Cons.prems [of "Suc _"] in simp)
  moreover have "space_len (a # t) = 0" using Cons.prems [of 0] space_len_cut [of "a # t" s] by simp
  ultimately show ?case by simp
qed simp

lemma clean_fields_aux:
  assumes "\<forall>i<length cur. space_len (drop i (rev cur) @ s) = 0" "t \<in> set (fields_aux cur s)"
  shows "clean t"
  using assms
proof (induction cur s rule: fields_aux.induct)
  case (1 cur)
  then show ?case using no_spaceI [of "rev cur" "[]"] by (auto simp: clean_def split: if_splits)
next
  case (2 cur a s)
  show ?case
  proof (cases "space_len (a # s) = 0")
    case True
    have "space_len (drop i (rev (a # cur)) @ s) = 0" if "i < length (a # cur)" for i
      using "2.prems"(1) that True by (cases "i = length cur") auto
    with True "2.IH"(1) "2.prems"(2) show ?thesis by (simp add: fields_aux.simps(2))
  next
    case False
    have "no_space (rev cur)" by (rule no_spaceI [of _ "a # s"]) (use "2.prems"(1) in simp)
    with False "2.IH"(2) "2.prems"(2) show ?thesis
      by (auto simp: fields_aux.simps(2) clean_def split: if_splits)
  qed
qed

lemma clean_fields: "t \<in> set (fields s) \<Longrightarrow> clean t"
  unfolding fields_def by (rule clean_fields_aux [of "[]" s]) auto

lemma set_fields_aux: "t \<in> set (fields_aux cur s) \<Longrightarrow> set t \<subseteq> set cur \<union> set s"
proof (induction cur s rule: fields_aux.induct)
  case (2 cur a s)
  show ?case
  proof (cases "space_len (a # s) = 0")
    case True
    with 2 show ?thesis by (auto simp: fields_aux.simps(2))
  next
    case False
    have "set (drop (space_len (a # s)) (a # s)) \<subseteq> set (a # s)" by (rule set_drop_subset)
    with False 2 show ?thesis by (fastforce simp: fields_aux.simps(2) split: if_splits)
  qed
qed (auto split: if_splits)

lemma set_fields: "t \<in> set (fields s) \<Longrightarrow> set t \<subseteq> set s"
  unfolding fields_def using set_fields_aux [of t "[]" s] by simp

definition ascii_token :: "string \<Rightarrow> bool" where
  "ascii_token s \<longleftrightarrow> list_all (\<lambda>c. byte c < 128 \<and> \<not> is_ascii_space c) s"

lemma no_space_ascii: "ascii_token s \<Longrightarrow> no_space s"
proof (induction s)
  case (Cons a s)
  then have "byte a < 128" "\<not> is_ascii_space a" by (simp_all add: ascii_token_def)
  then have "space_len (a # s) = 0" by (auto simp: space3_def split: list.splits)
  with Cons show ?case by (simp add: ascii_token_def)
qed simp

text \<open>A token of a policy: clean, and without the separator of directives.\<close>

definition csp_token :: "string \<Rightarrow> bool" where
  "csp_token t \<longleftrightarrow> clean t \<and> CHR '';'' \<notin> set t"

definition nonce_ok :: "string \<Rightarrow> bool" where
  "nonce_ok n \<longleftrightarrow> ascii_token n \<and> CHR '';'' \<notin> set n"

lemma csp_token_ascii: "s \<noteq> [] \<Longrightarrow> ascii_token s \<Longrightarrow> CHR '';'' \<notin> set s \<Longrightarrow> csp_token s"
  by (simp add: csp_token_def clean_def no_space_ascii)

lemma csp_token_constants:
  "csp_token (quoted ''self'')" "csp_token (quoted ''none'')"
  "nonce_ok n \<Longrightarrow> csp_token (sq @ ''nonce-'' @ n @ sq)"
  by (rule csp_token_ascii; simp add: ascii_token_def is_ascii_space_def sq_def quoted_def nonce_ok_def)+

text \<open>Lowering a rune yields no white space, neither in its own bytes nor with those that follow.\<close>

lemma space_len_cont: "128 \<le> byte c \<Longrightarrow> byte c \<le> 191 \<Longrightarrow> space_len (c # t) = 0"
  by (auto simp: is_ascii_space_def space3_def split: list.splits)

lemma no_space_cont: "list_all cont cs \<Longrightarrow> no_space (cs @ t) = no_space t"
  by (induction cs) (auto simp: cont_def space_len_cont simp del: space_len.simps)

lemma utf8_conts: "r < 0x110000 \<Longrightarrow> list_all cont (tl (utf8 r))"
  by (simp add: utf8_def cont_def) linarith

lemma no_space_utf8:
  assumes "r < 0x110000" "space_len (utf8 r @ t) = 0" "no_space t"
  shows "no_space (utf8 r @ t)"
proof -
  obtain c cs where u: "utf8 r = c # cs" by (cases "utf8 r") simp_all
  with utf8_conts [OF assms(1)] assms(2,3) show ?thesis by (simp add: no_space_cont del: space_len.simps)
qed

lemma rune_digits: "(r :: nat) = r div 4096 * 4096 + r div 64 mod 64 * 64 + r mod 64"
proof -
  define q where "q = r div 64"
  have d: "r div 4096 = q div 64" by (simp add: q_def div_mult2_eq [symmetric])
  have "r = q * 64 + r mod 64" by (simp add: q_def)
  moreover have "q = q div 64 * 64 + q mod 64" by simp
  ultimately show ?thesis unfolding d q_def [symmetric] by linarith
qed

lemma space_len_utf8:
  assumes "r < 0x110000" "128 \<le> r" "int r \<notin> set space_runes"
  shows "space_len (utf8 r @ t) = 0"
proof -
  consider "r < 0x800" | "0xD800 \<le> r" "r \<le> 0xDFFF" | "0x800 \<le> r" "r < 0x10000" "\<not> (0xD800 \<le> r \<and> r \<le> 0xDFFF)"
    | "0x10000 \<le> r" by linarith
  then show ?thesis
  proof cases
    case 1
    then have l: "r div 64 < 32" by simp
    have "r = r div 64 * 64 + r mod 64" by simp
    then have "r div 64 = 2 \<and> r mod 64 = 5 \<Longrightarrow> r = 133" "r div 64 = 2 \<and> r mod 64 = 32 \<Longrightarrow> r = 160" by simp_all
    moreover have "r \<noteq> 133" "r \<noteq> 160" using assms(3) by (auto simp: space_runes_def)
    ultimately have n: "\<not> (r div 64 = 2 \<and> (r mod 64 = 5 \<or> r mod 64 = 32))" by blast
    have u: "utf8 r = [char_of (192 + r div 64), char_of (128 + r mod 64)]"
      using 1 assms(2) by (simp add: utf8_def)
    from n l show ?thesis unfolding u
      by (auto simp: is_ascii_space_def space3_def split: list.splits)
  next
    case 2
    then have "utf8 r = [CHR 0xEF, CHR 0xBF, CHR 0xBD]" by (simp add: utf8_def)
    then show ?thesis by (simp add: is_ascii_space_def space3_def)
  next
    case 3
    define x y z where "x = r div 4096" and "y = r div 64 mod 64" and "z = r mod 64"
    have r: "r = x * 4096 + y * 64 + z" unfolding x_def y_def z_def by (rule rune_digits)
    have b: "x < 16" "y < 64" "z < 64" using 3(2) by (simp_all add: x_def y_def z_def)
    have u: "utf8 r = [char_of (224 + x), char_of (128 + y), char_of (128 + z)]"
      using 3 unfolding utf8_def x_def y_def z_def if_not_P [OF 3(3)] by simp
    have sp: "space3 (224 + x) (128 + y) (128 + z) \<longleftrightarrow>
        x = 1 \<and> y = 26 \<and> z = 0 \<or> x = 2 \<and> y = 0 \<and> (z \<le> 10 \<or> z = 40 \<or> z = 41 \<or> z = 47) \<or>
        x = 2 \<and> y = 1 \<and> z = 31 \<or> x = 3 \<and> y = 0 \<and> z = 0"
      by (simp add: space3_def)
    have "\<not> space3 (224 + x) (128 + y) (128 + z)"
    proof
      assume "space3 (224 + x) (128 + y) (128 + z)"
      then consider "x = 1" "y = 26" "z = 0" | "x = 2" "y = 0" "z \<le> 10 \<or> z = 40 \<or> z = 41 \<or> z = 47"
        | "x = 2" "y = 1" "z = 31" | "x = 3" "y = 0" "z = 0"
        unfolding sp by blast
      then show False
      proof cases
        case 2
        then have "r = 8192 + z" using r by simp
        moreover have "z = 0 \<or> z = 1 \<or> z = 2 \<or> z = 3 \<or> z = 4 \<or> z = 5 \<or> z = 6 \<or> z = 7 \<or> z = 8 \<or> z = 9 \<or>
            z = 10 \<or> z = 40 \<or> z = 41 \<or> z = 47" using 2(3) by presburger
        ultimately show False using assms(3) by (auto simp: space_runes_def)
      qed (use assms(3) r in \<open>simp_all add: space_runes_def\<close>)
    qed
    with b show ?thesis unfolding u by (simp add: is_ascii_space_def)
  next
    case 4
    then have q: "r div 262144 < 5" using assms(1) by simp
    have "hd (utf8 r) = char_of (240 + r div 262144)" using 4 by (simp add: utf8_def)
    then obtain cs where u: "utf8 r = char_of (240 + r div 262144) # cs"
      by (metis list.collapse utf8_nonempty)
    from q show ?thesis unfolding u by (auto simp: is_ascii_space_def space3_def split: list.splits)
  qed
qed

text \<open>A rune that was read where no white space starts is none, whatever comes after it.\<close>

lemma space_len_decoded:
  assumes "space_len (a # s) = 0" "128 \<le> byte a"
  shows "space_len (utf8 (fst (decode_rune a s)) @ t) = 0"
proof (cases rule: decode_rune_cases [of a s])
  case ascii
  with assms show ?thesis by simp
next
  case (two b s')
  then have "utf8 (fst (decode_rune a s)) = [a, b]" by (simp add: utf8_two)
  with two assms show ?thesis by (auto simp: is_ascii_space_def space3_def split: list.splits if_splits)
next
  case (three b c s')
  then have "utf8 (fst (decode_rune a s)) = [a, b, c]" by (simp add: utf8_three)
  with three assms show ?thesis by (simp split: if_splits)
next
  case (four b c d s')
  then have "utf8 (fst (decode_rune a s)) = [a, b, c, d]" by (simp add: utf8_four)
  with four assms show ?thesis by (simp split: if_splits)
next
  case bad
  then show ?thesis by (simp add: utf8_def is_ascii_space_def space3_def)
qed

lemma no_space_drop: "no_space s \<Longrightarrow> no_space (drop n s)"
  by (induction s arbitrary: n) (simp_all add: drop_Cons' del: space_len.simps)

lemma no_space_strings_ToLower: "no_space s \<Longrightarrow> no_space (strings_ToLower s)"
proof (induction s rule: map_ToLower.induct)
  case (2 a s)
  let ?d = "fst (decode_rune a s)" let ?r = "unicode_ToLower ?d"
  let ?t = "strings_ToLower (drop (snd (decode_rune a s)) (a # s))"
  have t: "no_space ?t" using 2 no_space_drop by blast
  have sp: "space_len (a # s) = 0" using "2.prems" by simp
  have bound: "?r < 0x110000" by (intro unicode_ToLower_bound decode_rune_bound)
  have "space_len (utf8 ?r @ ?t) = 0"
  proof (cases "byte a < 128")
    case True
    have "\<not> is_ascii_space a" using sp by (simp split: if_splits)
    then show ?thesis using True
      by (auto simp: decode_rune_ascii unicode_ToLower_ascii utf8_ascii is_ascii_space_def space3_def split: list.splits)
  next
    case False
    then have a: "128 \<le> byte a" by simp
    have d: "128 \<le> ?d" using decode_rune_high [OF a] by blast
    show ?thesis
    proof (cases rule: unicode_ToLower_cases [of ?d])
      case same
      with space_len_decoded [OF sp a] show ?thesis by simp
    next
      case upper
      with d show ?thesis by simp
    next
      case ascii
      then show ?thesis by (auto simp: utf8_ascii is_ascii_space_def space3_def split: list.splits)
    next
      case beyond
      from bound beyond(2,4) show ?thesis by (rule space_len_utf8)
    qed
  qed
  with bound t show ?case by (simp add: strings_ToLower_Cons no_space_utf8 del: space_len.simps)
qed (simp add: strings_ToLower_map)

lemma semicolon_strings_ToLower: "CHR '';'' \<notin> set s \<Longrightarrow> CHR '';'' \<notin> set (strings_ToLower s)"
proof (induction s rule: map_ToLower.induct)
  case (2 a s)
  let ?d = "fst (decode_rune a s)"
  have d: "?d \<noteq> 59"
  proof (cases "byte a < 128")
    case True
    have "byte a \<noteq> 59"
    proof
      assume "byte a = 59"
      then have "byte a = byte CHR '';''" by simp
      then have "a = CHR '';''" by (simp only: of_char_eq_iff)
      with "2.prems" show False by simp
    qed
    with True "2.prems" show ?thesis by (auto simp: decode_rune_ascii)
  next
    case False
    with decode_rune_high [of a s] show ?thesis by simp
  qed
  have r: "unicode_ToLower ?d \<noteq> 59" using d unicode_ToLower_semicolon by blast
  have "CHR '';'' \<notin> set (utf8 (unicode_ToLower ?d))"
  proof (cases "unicode_ToLower ?d < 128")
    case True
    have "char_of (unicode_ToLower ?d) \<noteq> CHR '';''"
    proof
      assume "char_of (unicode_ToLower ?d) = CHR '';''"
      then have "byte (char_of (unicode_ToLower ?d)) = 59" by simp
      with r True show False by simp
    qed
    with True show ?thesis by (simp add: utf8_ascii)
  next
    case False
    then have "128 \<le> unicode_ToLower ?d" by simp
    from utf8_high [OF this unicode_ToLower_bound [OF decode_rune_bound]] show ?thesis by fastforce
  qed
  moreover have "CHR '';'' \<notin> set (drop (snd (decode_rune a s)) (a # s))"
    using "2.prems" in_set_dropD by fast
  ultimately show ?case using "2.IH" by (simp add: strings_ToLower_Cons)
qed (simp add: strings_ToLower_map)

lemma csp_token_lower: "csp_token t \<Longrightarrow> csp_token (strings_ToLower t)"
  by (simp add: csp_token_def clean_def no_space_strings_ToLower semicolon_strings_ToLower)

lemma csp_token_source: "csp_token s \<Longrightarrow> csp_token (csp_source s)"
  by (simp add: csp_source_def Let_def csp_token_lower csp_token_constants)

lemma set_translate_aux:
  "set (fold (\<lambda>s out. let t = csp_source s in if t \<noteq> [] \<and> \<not> List.member out t then out @ [t] else out) ss out)
     \<subseteq> set out \<union> csp_source ` set ss"
proof (induction ss arbitrary: out)
  case (Cons s ss)
  let ?out = "if csp_source s \<noteq> [] \<and> \<not> List.member out (csp_source s) then out @ [csp_source s] else out"
  have "set ?out \<subseteq> set out \<union> {csp_source s}" by auto
  with Cons.IH [of ?out] show ?case by (simp add: Let_def split del: if_split) blast
qed simp

lemma set_translateCSPSources: "set (translateCSPSources ss) \<subseteq> csp_source ` set ss"
  unfolding translateCSPSources_def using set_translate_aux [of ss "[]"] by simp

lemma set_csp_sources:
  "set (csp_sources nonce name given) \<subseteq>
     csp_source ` set given \<union> {quoted ''none'', sq @ ''nonce-'' @ nonce @ sq}"
  using set_translateCSPSources [of given]
  by (auto simp: csp_sources_def removeCSPSource_def Let_def)

lemma csp_directive_tokens:
  assumes "csp_directive nonce fs = Some d" "list_all csp_token fs" "nonce_ok nonce"
  shows "list_all csp_token d" "d \<noteq> []"
proof -
  have src: "list_all csp_token (csp_sources nonce name given)" if "list_all csp_token given" for name given
    using set_csp_sources [of nonce name given] that csp_token_source csp_token_constants assms(3)
    unfolding list_all_iff by blast
  show "list_all csp_token d" "d \<noteq> []"
    using assms src by (auto simp: csp_directive_def Let_def csp_token_lower split: list.splits if_splits)
qed

subsection \<open>Reading a policy\<close>

definition csp_directives :: "string \<Rightarrow> string list list" where
  "csp_directives policy = filter (\<lambda>fs. fs \<noteq> []) (map fields (split_byte CHR '';'' policy))"

lemma fields_skip_space: "fields (CHR '' '' # s) = fields s"
proof -
  have "space_len (CHR '' '' # s) = 1" by (simp add: is_ascii_space_def)
  then show ?thesis by (simp add: fields_def fields_aux.simps(2))
qed

lemma split_printed:
  "xs \<noteq> [] \<Longrightarrow> \<forall>x\<in>set xs. CHR '';'' \<notin> set x \<Longrightarrow>
   split_byte CHR '';'' (join ''; '' xs) = hd xs # map (\<lambda>x. CHR '' '' # x) (tl xs)"
proof (induction xs)
  case (Cons x xs)
  show ?case
  proof (cases "xs = []")
    case True
    with Cons show ?thesis by (simp add: split_byte_notin)
  next
    case False
    have "split_byte CHR '';'' (CHR '' '' # s) = (case split_byte CHR '';'' s of y # ys \<Rightarrow> (CHR '' '' # y) # ys)" for s
      by (cases "split_byte CHR '';'' s") auto
    with False Cons show ?thesis
      by (simp add: join_Cons split_byte_append) (metis (no_types, lifting) list.collapse list.map(2))
  qed
qed simp

lemma set_join_space: "c \<in> set (join '' '' ts) \<Longrightarrow> c = CHR '' '' \<or> (\<exists>t\<in>set ts. c \<in> set t)"
  using set_join [of "'' ''" ts] by auto

lemma csp_directives_printed:
  assumes "\<forall>d\<in>set ds. d \<noteq> [] \<and> list_all csp_token d"
  shows "csp_directives (join ''; '' (map (join '' '') ds)) = ds"
proof (cases "ds = []")
  case True
  then show ?thesis by (simp add: csp_directives_def fields_def)
next
  case False
  have f: "fields (join '' '' d) = d" if "d \<in> set ds" for d
    using assms that by (intro fields_join) (auto simp: list_all_iff csp_token_def)
  have "\<forall>x\<in>set (map (join '' '') ds). CHR '';'' \<notin> set x"
    using assms by (fastforce simp: list_all_iff csp_token_def dest: set_join_space)
  from split_printed [OF _ this] False have
    "map fields (split_byte CHR '';'' (join ''; '' (map (join '' '') ds))) =
     map (\<lambda>d. fields (join '' '' d)) ds"
    by (cases ds) (simp_all add: fields_skip_space comp_def)
  also have "\<dots> = ds" using f by (simp add: map_idI)
  finally show ?thesis using assms by (simp add: csp_directives_def filter_id_conv)
qed

lemma nonce_ok_newCSPNonce: "nonce_ok (newCSPNonce rand)"
proof (cases rand)
  case None
  then show ?thesis by (simp add: newCSPNonce_def nonce_ok_def ascii_token_def)
next
  case (Some b)
  have al: "list_all (\<lambda>c. byte c < 128 \<and> \<not> is_ascii_space c \<and> c \<noteq> CHR '';'') std_alphabet" by code_simp
  have sub: "set (std_encode b) \<subseteq> set std_alphabet" by (rule set_b64_encode) (rule good_std_alphabet)
  have "byte c < 128 \<and> \<not> is_ascii_space c \<and> c \<noteq> CHR '';''" if "c \<in> set (std_encode b)" for c
    using al sub that unfolding list_all_iff by blast
  then have "nonce_ok (std_encode b)" unfolding nonce_ok_def ascii_token_def list_all_iff by blast
  then show ?thesis
    by (simp add: Some newCSPNonce_def nonce_ok_def ascii_token_def is_ascii_space_def)
      (simp add: list_all_iff)
qed

lemma csp_tokens_of_policy:
  "fs \<in> set (csp_directives policy) \<Longrightarrow> list_all csp_token fs"
proof -
  have "csp_token t" if "raw \<in> set (split_byte CHR '';'' policy)" "t \<in> set (fields raw)" for raw t
    using split_byte_pieces [OF that(1)] set_fields [OF that(2)] clean_fields [OF that(2)]
    by (auto simp: csp_token_def)
  then show "fs \<in> set (csp_directives policy) \<Longrightarrow> list_all csp_token fs"
    by (auto simp: csp_directives_def list_all_iff)
qed

lemma map_filter_nonempty:
  "List.map_filter (csp_directive n) (filter (\<lambda>fs. fs \<noteq> []) fss) = List.map_filter (csp_directive n) fss"
  by (induction fss) (auto simp: List.map_filter_def csp_directive_def)

lemma rewriteCSP_printed:
  "rewriteCSP policy nonce =
     join ''; '' (map (join '' '') (List.map_filter (csp_directive nonce) (csp_directives policy)))"
  by (simp add: rewriteCSP_map_filter csp_directives_def map_filter_nonempty)

lemma csp_directives_rewriteCSP:
  assumes "nonce_ok nonce"
  shows "csp_directives (rewriteCSP policy nonce) =
    List.map_filter (csp_directive nonce) (csp_directives policy)"
  unfolding rewriteCSP_printed
proof (rule csp_directives_printed, rule ballI)
  fix d assume "d \<in> set (List.map_filter (csp_directive nonce) (csp_directives policy))"
  then obtain fs where "fs \<in> set (csp_directives policy)" "csp_directive nonce fs = Some d"
    by (auto simp: List.map_filter_def)
  then show "d \<noteq> [] \<and> list_all csp_token d"
    using csp_directive_tokens [OF _ csp_tokens_of_policy assms] by blast
qed

subsection \<open>Properties\<close>

text \<open>
  C27.  A browser that reads the rewritten policy sees, directive by directive and in order, the
  translation of the directives it would have seen in the site's own: printing and splitting in
  between loses nothing and lets nothing of one directive run into another.
\<close>

theorem rewriteCSP_directives:
  "csp_directives (rewriteCSP policy (newCSPNonce rand)) =
     List.map_filter (csp_directive (newCSPNonce rand)) (csp_directives policy)"
  by (rule csp_directives_rewriteCSP) (rule nonce_ok_newCSPNonce)

text \<open>
  The directives that take a list of sources, in the Content Security Policy standard (level 3) and
  its extensions, and what of a rewritten policy makes it safe.  A browser compares names without
  regard to the case of ASCII letters.  A directive that the proxy copies verbatim is exempt from the
  conditions on source lists, but then it is none that has a source list.
\<close>

definition cspSourceDirectives :: "string list" where
  "cspSourceDirectives =
     [''default-src'', ''script-src'', ''script-src-elem'', ''script-src-attr'', ''style-src'', ''style-src-elem'',
      ''style-src-attr'', ''img-src'', ''font-src'', ''connect-src'', ''media-src'', ''object-src'', ''frame-src'',
      ''child-src'', ''worker-src'', ''manifest-src'', ''prefetch-src'', ''fenced-frame-src'', ''base-uri'',
      ''form-action'', ''frame-ancestors'', ''navigate-to'']"

definition origin_free :: "string \<Rightarrow> bool" where
  "origin_free s \<longleftrightarrow>
     List.member cspSourceKeywords s \<or>
     list_ex (\<lambda>p. has_prefix (to_lower s) (sq @ p)) [''nonce-'', ''sha256-'', ''sha384-'', ''sha512-''] \<or>
     List.member [''data:'', ''blob:'', ''filesystem:'', ''mediastream:''] s"

definition directive_safe :: "string \<Rightarrow> string list \<Rightarrow> bool" where
  "directive_safe nonce d \<longleftrightarrow>
     d \<noteq> [] \<and> \<not> List.member cspDroppedDirectives (to_lower (hd d)) \<and>
     (List.member cspVerbatimDirectives (strings_ToLower (hd d)) \<and>
        \<not> List.member cspSourceDirectives (to_lower (hd d)) \<or>
      tl d \<noteq> [] \<and> list_all origin_free (tl d) \<and>
        (if List.member cspScriptDirectives (to_lower (hd d)) \<and> nonce \<noteq> []
         then List.member (tl d) (sq @ ''nonce-'' @ nonce @ sq) \<and> \<not> List.member (tl d) (quoted ''none'')
         else True))"

lemma origin_free_source: "origin_free (csp_source s)"
proof -
  let ?l = "strings_ToLower s"
  have p: "has_prefix (to_lower s) (sq @ ''nonce-'')" if "has_prefix ?l (sq @ ''nonce-'')"
    by (rule has_prefix_strings_ToLower [OF _ that]) (simp add: sq_def)
  have q: "has_prefix (to_lower s) (sq @ ''sha256-'')" if "has_prefix ?l (sq @ ''sha256-'')"
    by (rule has_prefix_strings_ToLower [OF _ that]) (simp add: sq_def)
  have r: "has_prefix (to_lower s) (sq @ ''sha384-'')" if "has_prefix ?l (sq @ ''sha384-'')"
    by (rule has_prefix_strings_ToLower [OF _ that]) (simp add: sq_def)
  have t: "has_prefix (to_lower s) (sq @ ''sha512-'')" if "has_prefix ?l (sq @ ''sha512-'')"
    by (rule has_prefix_strings_ToLower [OF _ that]) (simp add: sq_def)
  have self: "List.member cspSourceKeywords (quoted ''self'')" by (simp add: cspSourceKeywords_def)
  consider "List.member cspSourceKeywords ?l" "csp_source s = ?l"
    | "has_prefix ?l (sq @ ''nonce-'') \<or> has_prefix ?l (sq @ ''sha256-'') \<or>
          has_prefix ?l (sq @ ''sha384-'') \<or> has_prefix ?l (sq @ ''sha512-'')" "csp_source s = s"
    | "?l = ''data:'' \<or> ?l = ''blob:'' \<or> ?l = ''filesystem:'' \<or> ?l = ''mediastream:''" "csp_source s = ?l"
    | "csp_source s = quoted ''self''"
    by (cases "List.member cspSourceKeywords ?l";
      cases "has_prefix ?l (sq @ ''nonce-'') \<or> has_prefix ?l (sq @ ''sha256-'') \<or>
          has_prefix ?l (sq @ ''sha384-'') \<or> has_prefix ?l (sq @ ''sha512-'')";
      cases "?l = ''data:'' \<or> ?l = ''blob:'' \<or> ?l = ''filesystem:'' \<or> ?l = ''mediastream:''")
      (simp_all only: csp_source_def Let_def if_True if_False)
  then show ?thesis
  proof cases
    case 2
    then show ?thesis using p q r t unfolding 2(2) origin_free_def list_ex_iff by auto
  next
    case 3
    then show ?thesis unfolding 3(2) origin_free_def by (elim disjE) simp_all
  next
    case 4
    then show ?thesis unfolding 4 using self unfolding origin_free_def by blast
  qed (simp_all add: origin_free_def)
qed

lemma origin_free_constants: "origin_free (quoted ''none'')" "origin_free (sq @ ''nonce-'' @ nonce @ sq)"
  by (simp add: origin_free_def cspSourceKeywords_def)
    (simp add: origin_free_def sq_def lower_char_def is_upper_def)

text \<open>A name that ASCII lowering takes into one of the lists is ASCII, so both lowerings agree on it.\<close>

lemma listed_name:
  assumes "list_all is_ascii names" "List.member names (to_lower f)"
  shows "strings_ToLower f = to_lower f"
proof (rule strings_ToLower_ascii)
  have "is_ascii (to_lower f)" using assms by (simp add: list_all_iff)
  then show "is_ascii f"
    by (auto simp: is_ascii_def to_lower_def list_all_iff byte_lower_char is_upper_def split: if_splits)
qed

lemma ascii_names: "list_all is_ascii cspDroppedDirectives" "list_all is_ascii cspSourceDirectives"
  by (simp_all add: cspDroppedDirectives_def cspSourceDirectives_def is_ascii_def)

lemma verbatim_no_sources: "List.member cspVerbatimDirectives n \<Longrightarrow> \<not> List.member cspSourceDirectives n"
  by (auto simp: cspVerbatimDirectives_def cspSourceDirectives_def)

lemma directive_safe_translated:
  assumes "csp_directive nonce fs = Some d"
  shows "directive_safe nonce d"
proof -
  have of: "list_all origin_free (csp_sources nonce name given)" for name given
    using set_csp_sources [of nonce name given] origin_free_source origin_free_constants
    unfolding list_all_iff by blast
  have ne: "csp_sources nonce name given \<noteq> []" for name given
    by (simp add: csp_sources_def Let_def)
  have sc: "List.member (csp_sources nonce name given) (sq @ ''nonce-'' @ nonce @ sq) \<and>
      \<not> List.member (csp_sources nonce name given) (quoted ''none'')"
    if "List.member cspScriptDirectives name" "nonce \<noteq> []" for name given
    using that by (simp add: csp_sources_def Let_def removeCSPSource_def quoted_def sq_def)
  obtain f given where fs: "fs = f # given" using assms by (cases fs) (simp_all add: csp_directive_def)
  let ?n = "strings_ToLower f"
  have dr: "\<not> List.member cspDroppedDirectives ?n" using assms by (auto simp: fs csp_directive_def Let_def split: if_splits)
  show ?thesis
  proof (cases "List.member cspVerbatimDirectives ?n")
    case True
    then have d: "d = f # given" using assms dr by (simp add: fs csp_directive_def Let_def)
    have "\<not> List.member cspDroppedDirectives (to_lower f)" using dr listed_name [OF ascii_names(1), of f] by auto
    moreover have "\<not> List.member cspSourceDirectives (to_lower f)"
      using verbatim_no_sources [OF True] listed_name [OF ascii_names(2), of f] by auto
    ultimately show ?thesis using True by (simp add: directive_safe_def d)
  next
    case False
    then have d: "d = ?n # csp_sources nonce ?n given" using assms dr by (simp add: fs csp_directive_def Let_def)
    from dr of ne sc show ?thesis by (simp add: directive_safe_def d)
  qed
qed

text \<open>
  Lowering is Unicode's, so the proxy turns \<open>'unsafe-inline'\<close> written with U+0130, which a browser
  ignores, into the keyword, which it honours.
\<close>

lemma unicode_keyword:
  "csp_source (quoted (''unsafe-'' @ utf8 0x130 @ ''nline'')) = quoted ''unsafe-inline''"
  by code_simp

text \<open>
  C38.  Every directive of the rewritten policy is safe: reporting directives are gone; a directive
  that the proxy copies verbatim is none that takes sources, as browsers compare names; every other
  directive has a source list that is not empty and names no origin but the page's own; and where
  such a directive governs scripts the injected runtime's nonce is listed and \<open>'none'\<close> is not.
\<close>

theorem rewriteCSP_safe:
  "list_all (directive_safe (newCSPNonce rand)) (csp_directives (rewriteCSP policy (newCSPNonce rand)))"
  using directive_safe_translated
  by (auto simp: csp_directives_rewriteCSP [OF nonce_ok_newCSPNonce] list_all_iff List.map_filter_def)

end
