(* ===== verification/Html_Safe.thy ===== *)
theory Html_Safe
  imports Html_Rewrite Csp
begin

section \<open>What rewriting keeps\<close>

text \<open>
  Character references round trip and a spliced value cannot leave its attribute; the lists in
  \<open>srcset\<close> and \<open>ping\<close> keep their entries; a stylesheet's references stay inside their quotes.
\<close>

subsection \<open>Character references\<close>

lemma unescape_plain_char: "c \<noteq> CHR ''&'' \<Longrightarrow> unescape_loop (c # s) = c # unescape_loop s"
  by (simp add: unescape_loop.simps(2))

lemma unescape_entity:
  assumes "decodeEntity e = Some r" "CHR '';'' \<notin> set e" "0 < length e" "length e \<le> 11"
  shows "unescape_loop (CHR ''&'' # e @ CHR '';'' # s) = utf8 r @ unescape_loop s"
proof -
  have "index_byte (CHR ''&'' # e @ CHR '';'' # s) CHR '';'' = Some (Suc (length e))"
    using index_byte_append_notin [OF assms(2), of s] by simp
  then have "entity_step (CHR ''&'' # e @ CHR '';'' # s) = (utf8 r, length e + 2)"
    using assms by (simp add: entity_step_def)
  then show ?thesis by (simp add: unescape_loop.simps(2))
qed

lemma unescape_known:
  "unescape_loop (''&amp;'' @ s) = CHR ''&'' # unescape_loop s"
  "unescape_loop (''&quot;'' @ s) = dquote # unescape_loop s"
  "unescape_loop (''&#39;'' @ s) = squote # unescape_loop s"
proof -
  have "decodeEntity ''amp'' = Some 38" "decodeEntity ''quot'' = Some 34" "decodeEntity ''#39'' = Some 39"
    "utf8 38 = ''&''" "utf8 34 = [dquote]" "utf8 39 = [squote]" by code_simp+
  note d = this
  show "unescape_loop (''&amp;'' @ s) = CHR ''&'' # unescape_loop s"
    using unescape_entity [OF d(1), of s] d(4) by simp
  show "unescape_loop (''&quot;'' @ s) = dquote # unescape_loop s"
    using unescape_entity [OF d(2), of s] d(5) by simp
  show "unescape_loop (''&#39;'' @ s) = squote # unescape_loop s"
    using unescape_entity [OF d(3), of s] d(6) by simp
qed

lemma amp_not_quote [simp]: "dquote \<noteq> CHR ''&''" "squote \<noteq> CHR ''&''" "dquote \<noteq> squote"
  "CHR ''&'' \<noteq> dquote" "CHR ''&'' \<noteq> squote" "squote \<noteq> dquote"
  by (simp_all add: dquote_def squote_def)

lemma escapeAttrValue_Cons:
  assumes "q = dquote \<or> q = squote"
  shows "escapeAttrValue (c # v) (Some q) =
    (if c = CHR ''&'' then ''&amp;''
     else if c = q then (if q = dquote then ''&quot;'' else ''&#39;'') else [c]) @ escapeAttrValue v (Some q)"
  using assms
  by (auto simp: escapeAttrValue_def Let_def) (auto simp: dquote_def squote_def)

lemma unescape_loop_escape:
  assumes "q = dquote \<or> q = squote"
  shows "unescape_loop (escapeAttrValue v (Some q)) = v"
proof (induction v)
  case Nil
  then show ?case by (simp add: escapeAttrValue_def Let_def)
next
  case (Cons c v)
  show ?case
    unfolding escapeAttrValue_Cons [OF assms]
    using Cons unescape_known [of "escapeAttrValue v (Some q)"] assms
    by (auto simp: unescape_plain_char simp del: append_Cons)
      (simp_all add: unescape_plain_char)
qed

lemma unescape_escape_attr:
  assumes "q = dquote \<or> q = squote"
  shows "unescapeHTML (escapeAttrValue v (Some q)) = v"
proof (cases "List.member (escapeAttrValue v (Some q)) CHR ''&''")
  case False
  have "escapeAttrValue v (Some q) = v"
    using False
  proof (induction v)
    case (Cons c v)
    then show ?case unfolding escapeAttrValue_Cons [OF assms] by (auto split: if_splits)
  qed (simp add: escapeAttrValue_def Let_def)
  with False show ?thesis by (simp add: unescapeHTML_def)
qed (simp add: unescapeHTML_def unescape_loop_escape [OF assms])

lemma delimiter_not_in_escape:
  assumes "q = dquote \<or> q = squote"
  shows "q \<notin> set (escapeAttrValue v (Some q))"
proof (induction v)
  case (Cons c v)
  then show ?case unfolding escapeAttrValue_Cons [OF assms] using assms
    by (auto simp: dquote_def squote_def split: if_splits)
qed (simp add: escapeAttrValue_def Let_def)

subsection \<open>A spliced attribute\<close>

lemma drop_at: "drop (length p) (p @ r) = r"
  by simp

lemma skip_append:
  assumes "list_all P m" "r = [] \<or> \<not> P (hd r)"
  shows "skip P (p @ m @ r) (length p) = length p + length m"
proof -
  have "takeWhile P r = []" using assms(2) by (cases r) auto
  moreover have "takeWhile P (m @ r) = m @ takeWhile P r"
    using assms(1) by (simp add: list_all_iff takeWhile_append2)
  ultimately show ?thesis by (simp add: skip_def)
qed

lemma sub_append_mid: "sub (p @ m @ r) (length p) (length p + length m) = m"
  by (simp add: sub_def)

lemma parse_attr_quoted:
  fixes pre name e rest :: string
  assumes "q = dquote \<or> q = squote" "list_all (\<lambda>c. \<not> isAttrNameEnd c) name" "q \<notin> set e"
  defines "s \<equiv> pre @ name @ ''='' @ [q] @ e @ [q] @ rest"
  shows "parse_attr s (length pre) =
    \<lparr>aName = to_lower name, aStart = length pre,
     aEnd = length (pre @ name @ ''='' @ [q] @ e @ [q]),
     aNameEnd = length (pre @ name), aValStart = length (pre @ name) + 2,
     aValEnd = length (pre @ name) + 2 + length (e),
     aQuote = Some q, aHasValue = True\<rparr>"
proof -
  let ?tail = "q # e @ q # rest"
  have eq: "isAttrNameEnd CHR ''=''" "\<not> isHTMLSpace CHR ''=''" "\<not> isHTMLSpace q"
    using assms(1) by (auto simp: isAttrNameEnd_def isHTMLSpace_def dquote_def squote_def)
  have s1: "s = pre @ name @ CHR ''='' # ?tail" by (simp add: s_def)
  have n: "skip (\<lambda>c. \<not> isAttrNameEnd c) s (length pre) = length (pre @ name)"
    unfolding s1 using skip_append [OF assms(2), of "CHR ''='' # ?tail" pre] eq(1) by simp
  have nm: "sub s (length pre) (length (pre @ name)) = name"
    unfolding s1 using sub_append_mid [of pre name "CHR ''='' # ?tail"] by simp
  have k: "skip isHTMLSpace s (length (pre @ name)) = length (pre @ name)"
    unfolding s1 using skip_append [of isHTMLSpace "[]" "CHR ''='' # ?tail" "pre @ name"] eq(2) by simp
  have at1: "at s (length (pre @ name)) (\<lambda>c. c = CHR ''='')"
    unfolding s1 by (simp add: at_def flip: append_assoc)
  have s2: "s = (pre @ name @ ''='') @ [] @ ?tail" by (simp add: s_def)
  have k2: "skip isHTMLSpace s (length (pre @ name) + 1) = length (pre @ name) + 1"
    unfolding s2 using skip_append [of isHTMLSpace "[]" ?tail "pre @ name @ ''=''"] eq(3) by simp
  have q: "s ! (length (pre @ name) + 1) = q"
    unfolding s2 using nth_append_length [of "pre @ name @ ''=''" q "e @ q # rest"] by simp
  have at2: "at s (length (pre @ name) + 1) (\<lambda>c. c = dquote \<or> c = squote)"
    unfolding at_iff q using assms(1) by (simp add: s_def)
  have s3: "s = (pre @ name @ ''='' @ [q]) @ e @ q # rest" by (simp add: s_def)
  have "list_all (\<lambda>c. c \<noteq> q) e"
    using assms(3) by (auto simp: list_all_iff)
  from skip_append [OF this, of "q # rest" "pre @ name @ ''='' @ [q]"]
  have ve: "skip (\<lambda>c. c \<noteq> q) s (length (pre @ name) + 1 + 1) = length (pre @ name) + 2 + length e"
    unfolding s3 by simp
  have lt: "length (pre @ name) + 2 + length e < length s" by (simp add: s_def)
  show ?thesis
    unfolding parse_attr_def Let_def n nm k k2 q ve using at1 at2 lt by simp
qed

lemmas parse_attr_spliced = parse_attr_quoted [OF _ _ delimiter_not_in_escape]

subsection \<open>What the rewriters rely on: the resolver's contract\<close>

text \<open>
  A resolved reference is the reference itself or a link, and a link is made of the letters of the
  URL alphabet and slashes.  The lists of \<open>srcset\<close> and \<open>ping\<close> keep their shape for every resolver
  of this kind; \<open>Resolve\<close> is one.
\<close>

definition link_char :: "char \<Rightarrow> bool" where
  "link_char c \<longleftrightarrow> List.member url_alphabet c \<or> c = CHR ''/''"

definition link_text :: "string \<Rightarrow> bool" where
  "link_text x \<longleftrightarrow> has_prefix x link_Prefix \<and> list_all link_char x"

definition plain_char :: "char \<Rightarrow> bool" where
  "plain_char c \<longleftrightarrow> byte c < 128 \<and> \<not> is_ascii_space c \<and> c \<noteq> CHR '','' \<and> c \<noteq> CHR '';'' \<and>
     c \<noteq> dquote \<and> c \<noteq> squote \<and> c \<noteq> CHR '')'' \<and> c \<noteq> CHR ''&'' \<and> c \<noteq> CHR ''<'' \<and> c \<noteq> CHR ''>''"

lemma link_char_plain: "link_char c \<Longrightarrow> plain_char c"
proof -
  have "list_all plain_char (CHR ''/'' # url_alphabet)" by code_simp
  then show "link_char c \<Longrightarrow> plain_char c" unfolding link_char_def list_all_iff by auto
qed

lemma link_text_plain: "link_text x \<Longrightarrow> list_all plain_char x"
  unfolding link_text_def list_all_iff using link_char_plain by blast

lemma html_space_ascii: "isHTMLSpace c \<Longrightarrow> is_ascii_space c"
  by (auto simp: isHTMLSpace_def is_ascii_space_def)

lemma srcset_sep_html: "is_ascii_space c \<or> c = CHR '','' \<Longrightarrow> srcset_sep c \<or> byte c = 11"
  by (auto simp: srcset_sep_def isHTMLSpace_def is_ascii_space_def)

lemma plain_srcset: "plain_char c \<Longrightarrow> \<not> srcset_sep c"
  using html_space_ascii by (auto simp: plain_char_def srcset_sep_def)

text \<open>A candidate of a \<open>srcset\<close>, and the text after it.\<close>

definition candidate :: "string \<Rightarrow> bool" where
  "candidate c \<longleftrightarrow> c \<noteq> [] \<and> list_all (\<lambda>x. \<not> isHTMLSpace x) c \<and> hd c \<noteq> CHR '','' \<and> last c \<noteq> CHR '',''"

definition descriptor :: "string \<Rightarrow> bool" where
  "descriptor d \<longleftrightarrow> CHR '','' \<notin> set d \<and> trim_space d = d"

definition print_candidate :: "string \<times> string \<Rightarrow> string" where
  "print_candidate = (\<lambda>(cand, desc). cand @ (if desc \<noteq> [] then '' '' @ desc else []))"

lemma space_len_trim_left [simp]: "space_len (trim_left s) = 0"
proof (induction s rule: trim_left.induct)
  case (1 s)
  then show ?case by (cases "space_len s = 0") (simp_all add: trim_left.simps [of s])
qed

lemma rspace_len_rtrim_left [simp]: "rspace_len (rtrim_left s) = 0"
proof (induction s rule: rtrim_left.induct)
  case (1 s)
  then show ?case by (cases "rspace_len s = 0") (simp_all add: rtrim_left.simps [of s])
qed

lemma trim_left_id: "space_len s = 0 \<Longrightarrow> trim_left s = s"
  by (simp add: trim_left.simps [of s])

lemma trim_right_id: "rspace_len (rev s) = 0 \<Longrightarrow> trim_right s = s"
  by (simp add: trim_right_def rtrim_left.simps [of "rev s"])

lemma trim_space_facts:
  "space_len (trim_space s) = 0" "rspace_len (rev (trim_space s)) = 0"
proof -
  obtain z where "trim_left s = trim_space s @ z"
    using trim_right_prefix [of "trim_left s"] by (auto simp: trim_space_def prefix_def)
  then show "space_len (trim_space s) = 0"
    using space_len_trim_left [of s] space_len_cut by metis
  show "rspace_len (rev (trim_space s)) = 0" by (simp add: trim_space_def trim_right_def)
qed

lemma trim_space_idem [simp]: "trim_space (trim_space s) = trim_space s"
  by (metis trim_left_id trim_right_id trim_space_def trim_space_facts)

lemma trim_space_space: "trim_space (CHR '' '' # s) = trim_space s"
proof -
  have "space_len (CHR '' '' # s) = 1" by (simp add: is_ascii_space_def)
  then have "trim_left (CHR '' '' # s) = trim_left s" by (subst trim_left.simps) simp
  then show ?thesis by (simp add: trim_space_def)
qed

lemma takeWhile_before: "list_all P a \<Longrightarrow> \<not> P x \<Longrightarrow> takeWhile P (a @ x # r) = a \<and> dropWhile P (a @ x # r) = x # r"
  by (induction a) auto

lemma takeWhile_all: "list_all P a \<Longrightarrow> takeWhile P a = a \<and> dropWhile P a = []"
  by (induction a) auto

lemma srcset_candidates_sep: "srcset_sep x \<Longrightarrow> srcset_candidates (x # r) = srcset_candidates r"
  by (subst (1 2) srcset_candidates.simps) (simp add: Let_def)

lemma srcset_candidates_empty [simp]: "srcset_candidates [] = []"
  by (subst srcset_candidates.simps) simp

lemma candidate_start:
  assumes "candidate c"
  shows "dropWhile srcset_sep (c @ r) = c @ r" "\<not> has_suffix c '',''"
proof -
  obtain x t where c: "c = x # t" using assms by (cases c) (auto simp: candidate_def)
  then show "dropWhile srcset_sep (c @ r) = c @ r" using assms by (simp add: candidate_def srcset_sep_def)
  show "\<not> has_suffix c '',''" using assms by (auto simp: candidate_def suffix_def)
qed

lemma srcset_candidates_printed:
  assumes "candidate c" "descriptor d" "rest = [] \<or> has_prefix rest '', ''"
  shows "srcset_candidates (print_candidate (c, d) @ rest) = (c, d) # srcset_candidates rest"
proof -
  have nsp: "list_all (\<lambda>x. \<not> isHTMLSpace x) c" "c \<noteq> []" using assms(1) by (simp_all add: candidate_def)
  have sp: "isHTMLSpace CHR '' ''" "srcset_sep CHR '' ''" "srcset_sep CHR '',''" "\<not> isHTMLSpace CHR '',''"
    by (simp_all add: isHTMLSpace_def srcset_sep_def)
  show ?thesis
  proof (cases "d = []")
    case d: False
    have nc: "list_all (\<lambda>x. x \<noteq> CHR '','') (CHR '' '' # d)" using assms(2) by (auto simp: descriptor_def list_all_iff)
    have tw: "takeWhile (\<lambda>x. x \<noteq> CHR '','') ((CHR '' '' # d) @ rest) = CHR '' '' # d \<and>
        dropWhile (\<lambda>x. x \<noteq> CHR '','') ((CHR '' '' # d) @ rest) = rest"
    proof (cases "rest = []")
      case True
      then show ?thesis using takeWhile_all [OF nc] by (simp only: append_Nil2)
    next
      case False
      then obtain z where "rest = CHR '','' # z" using assms(3) by (auto simp: prefix_def)
      then show ?thesis using takeWhile_before [OF nc, of "CHR '',''" z] by (simp only: simp_thms)
    qed
    have cw: "takeWhile (\<lambda>x. \<not> isHTMLSpace x) (c @ CHR '' '' # d @ rest) = c"
      "dropWhile (\<lambda>x. \<not> isHTMLSpace x) (c @ CHR '' '' # d @ rest) = CHR '' '' # d @ rest"
      using takeWhile_before [OF nsp(1), of "CHR '' ''"] sp(1) by simp_all
    have ts: "trim_space (CHR '' '' # d) = d" using assms(2) by (simp add: trim_space_space descriptor_def)
    show ?thesis
      using d nsp(2) candidate_start [OF assms(1)] cw tw ts
      by (subst srcset_candidates.simps) (simp add: print_candidate_def Let_def)
  next
    case d: True
    show ?thesis
    proof (cases "rest = []")
      case True
      have cw: "takeWhile (\<lambda>x. \<not> isHTMLSpace x) c = c" "dropWhile (\<lambda>x. \<not> isHTMLSpace x) c = []"
        using takeWhile_all [OF nsp(1)] by blast+
      show ?thesis
        using True d nsp(2) candidate_start(1) [OF assms(1), of "[]"] candidate_start(2) [OF assms(1)]
        by (subst srcset_candidates.simps) (simp add: print_candidate_def cw Let_def)
    next
      case False
      then obtain z where rest: "rest = CHR '','' # CHR '' '' # z" using assms(3) by (auto simp: prefix_def)
      have nsp': "list_all (\<lambda>x. \<not> isHTMLSpace x) (c @ '','')" using nsp sp(4) by simp
      have cw: "takeWhile (\<lambda>x. \<not> isHTMLSpace x) (c @ CHR '','' # CHR '' '' # z) = c @ '',''"
        "dropWhile (\<lambda>x. \<not> isHTMLSpace x) (c @ CHR '','' # CHR '' '' # z) = CHR '' '' # z"
        using takeWhile_before [OF nsp', of "CHR '' ''"] sp(1) by simp_all
      have tr: "trim_right_set '','' (c @ '','') = c"
        using assms(1) by (cases c rule: rev_cases) (simp_all add: trim_right_set_def candidate_def)
      show ?thesis
        using d nsp(2) candidate_start(1) [OF assms(1), of rest] cw tr srcset_candidates_sep sp
        by (subst srcset_candidates.simps) (simp add: print_candidate_def rest Let_def)
    qed
  qed
qed

lemma candidates_cons:
  "candidate c \<Longrightarrow> descriptor d \<Longrightarrow> list_all (\<lambda>(c, d). candidate c \<and> descriptor d) r \<Longrightarrow>
   list_all (\<lambda>(c, d). candidate c \<and> descriptor d) ((if c = [] then [] else [(c, d)]) @ r)"
  by simp

lemma srcset_candidates_wf: "list_all (\<lambda>(c, d). candidate c \<and> descriptor d) (srcset_candidates v)"
proof (induction v rule: srcset_candidates.induct)
  case (1 v0)
  let ?v = "dropWhile srcset_sep v0"
  let ?full = "takeWhile (\<lambda>c. \<not> isHTMLSpace c) ?v" and ?r = "dropWhile (\<lambda>c. \<not> isHTMLSpace c) ?v"
  let ?comma = "has_suffix ?full '',''"
  let ?cand = "if ?comma then trim_right_set '','' ?full else ?full"
  let ?desc = "if ?comma then [] else trim_space (takeWhile (\<lambda>c. c \<noteq> CHR '','') ?r)"
  let ?r' = "if ?comma then ?r else dropWhile (\<lambda>c. c \<noteq> CHR '','') ?r"
  show ?case
  proof (cases "?v = []")
    case False
    have IH: "list_all (\<lambda>(c, d). candidate c \<and> descriptor d) (srcset_candidates ?r')"
      by (rule "1.IH" [OF refl False refl refl refl refl refl refl])
    obtain x t where v: "?v = x # t" using False by (cases ?v) auto
    then have x: "\<not> srcset_sep x" by (metis dropWhile_eq_Cons_conv)
    then have c0: "?full = x # takeWhile (\<lambda>c. \<not> isHTMLSpace c) t" by (simp add: v srcset_sep_def)
    have all0: "list_all (\<lambda>c. \<not> isHTMLSpace c) ?full" by (auto simp: list_all_iff dest: set_takeWhileD)
    have cand: "candidate ?cand"
    proof (cases ?comma)
      case False
      then have "last ?full \<noteq> CHR '',''" unfolding suffix_def using c0 by (metis append_butlast_last_id list.distinct(1))
      with all0 x have "candidate ?full" by (simp add: c0 candidate_def srcset_sep_def)
      then show ?thesis unfolding if_not_P [OF False] .
    next
      case True
      let ?t = "trim_right_set '','' ?full"
      have ex: "x \<noteq> CHR '',''" using x by (auto simp: srcset_sep_def)
      obtain z where z: "?full = ?t @ z" "set z \<subseteq> {CHR '',''}"
      proof
        let ?w = "rev (takeWhile (List.member '','') (rev ?full))"
        have "rev ?full = takeWhile (List.member '','') (rev ?full) @ dropWhile (List.member '','') (rev ?full)"
          by simp
        then show "?full = ?t @ ?w" by (metis rev_append rev_rev_ident trim_right_set_def)
        show "set ?w \<subseteq> {CHR '',''}" by (auto dest: set_takeWhileD)
      qed
      have ne: "?t \<noteq> []"
      proof
        assume "?t = []"
        then have "x \<in> set z" using z(1) c0 by (metis append_Nil list.set_intros(1))
        with z(2) ex show False by auto
      qed
      have "last ?t \<noteq> CHR '',''"
      proof -
        have "dropWhile (List.member '','') (rev ?full) \<noteq> []" using ne by (simp add: trim_right_set_def)
        from hd_dropWhile [OF this] show ?thesis using ne by (simp add: trim_right_set_def last_rev)
      qed
      moreover have "hd ?t = x" using ne z(1) c0 by (metis hd_append2 list.sel(1))
      moreover have "list_all (\<lambda>c. \<not> isHTMLSpace c) ?t" using all0 z(1) by (metis list_all_append)
      ultimately show ?thesis using True ne ex by (simp add: candidate_def)
    qed
    have desc: "descriptor ?desc"
    proof (cases ?comma)
      case False
      have "CHR '','' \<notin> set (takeWhile (\<lambda>c. c \<noteq> CHR '','') ?r)" by (auto dest: set_takeWhileD)
      then have "CHR '','' \<notin> set (trim_space (takeWhile (\<lambda>c. c \<noteq> CHR '','') ?r))" using set_trim_space by blast
      with False show ?thesis by (simp add: descriptor_def)
    qed (simp add: descriptor_def)
    have "srcset_candidates v0 = (if ?cand = [] then [] else [(?cand, ?desc)]) @ srcset_candidates ?r'"
      by (subst srcset_candidates.simps) (simp only: Let_def False if_False)
    then show ?thesis using candidates_cons [OF cand desc IH] by (simp only:)
  qed (subst srcset_candidates.simps, simp)
qed

locale resolver =
  fixes res :: "string \<Rightarrow> string"
  assumes res_cases: "res r = r \<or> link_text (res r)"
begin

lemma res_candidate: "candidate c \<Longrightarrow> candidate (res c)"
proof (cases "res c = c")
  case False
  then have l: "link_text (res c)" using res_cases by blast
  then have p: "list_all plain_char (res c)" by (rule link_text_plain)
  have ne: "res c \<noteq> []" using l by (auto simp: link_text_def link_Prefix_def)
  have "plain_char (hd (res c))" "plain_char (last (res c))"
    using p ne by (simp_all add: list_all_iff)
  moreover have "list_all (\<lambda>x. \<not> isHTMLSpace x) (res c)"
    using p html_space_ascii unfolding list_all_iff plain_char_def by blast
  ultimately show ?thesis using ne by (auto simp: candidate_def plain_char_def)
qed simp

lemma srcset_shape:
  assumes "list_all (\<lambda>(c, d). candidate c \<and> descriptor d) cs" "cs \<noteq> []"
  shows "srcset_candidates (join '', '' (map (\<lambda>(c, d). print_candidate (res c, d)) cs)) =
    map (\<lambda>(c, d). (res c, d)) cs"
  using assms
proof (induction cs)
  case (Cons cd cs)
  obtain c d where cd: "cd = (c, d)" by (cases cd)
  have ok: "candidate (res c)" "descriptor d" using Cons.prems(1) res_candidate by (simp_all add: cd)
  show ?case
  proof (cases "cs = []")
    case True
    then show ?thesis using srcset_candidates_printed [OF ok, of "[]"] by (simp add: cd)
  next
    case False
    let ?rest = "join '', '' (map (\<lambda>(c, d). print_candidate (res c, d)) cs)"
    have "srcset_candidates (print_candidate (res c, d) @ '', '' @ ?rest) = (res c, d) # srcset_candidates ('', '' @ ?rest)"
      by (rule srcset_candidates_printed [OF ok]) simp
    moreover have "srcset_candidates ('', '' @ ?rest) = srcset_candidates ?rest"
      using srcset_candidates_sep by (simp add: srcset_sep_def isHTMLSpace_def)
    ultimately show ?thesis using Cons False by (simp add: cd join_Cons)
  qed
qed simp

lemma res_clean: "clean r \<Longrightarrow> clean (res r)"
proof (cases "res r = r")
  case False
  then have l: "link_text (res r)" using res_cases by blast
  have "ascii_token (res r)" using link_text_plain [OF l] by (auto simp: ascii_token_def list_all_iff plain_char_def)
  then show ?thesis using l no_space_ascii by (auto simp: clean_def link_text_def link_Prefix_def)
qed simp

lemma url_list_shape: "Prelude.fields (join '' '' (map res (Prelude.fields v))) = map res (Prelude.fields v)"
  by (rule fields_join) (simp add: list_all_iff res_clean clean_fields)

end

lemma Encode_link_text: "link_text (Encode u)"
proof -
  have "set (url_encode (url_String u)) \<subseteq> set url_alphabet"
    by (rule set_b64_encode) (rule good_url_alphabet)
  then have "list_all link_char (url_encode (url_String u))"
    by (auto simp: list_all_iff link_char_def)
  moreover have "list_all link_char link_Prefix" by code_simp
  ultimately show ?thesis by (simp add: link_text_def Encode_def)
qed

lemma Resolve_link_text: "Resolve base r = r \<or> link_text (Resolve base r)"
  using Resolve_cases [of base r] Encode_link_text by metis

interpretation base_resolver: resolver "Resolve base" for base
  by unfold_locales (rule Resolve_link_text)

subsection \<open>Replaced references in stylesheets\<close>

lemma splitQuoted_quote: "fst (splitQuoted g) \<in> {[], [dquote], [squote]}"
  by (auto simp: splitQuoted_def)

lemma css_url_repl_cases:
  "css_url_repl base m = m \<or>
   (\<exists>q x. (q = dquote \<or> q = squote) \<and> link_text x \<and> css_url_repl base m = ''url('' @ [q] @ x @ [q] @ '')'')"
proof (cases "find_group cssURL_match m")
  case (Some g)
  obtain quote val where g: "splitQuoted g = (quote, val)" by fastforce
  have q: "quote \<in> {[], [dquote], [squote]}" using splitQuoted_quote [of g] g by simp
  show ?thesis
  proof (cases "Resolve base val = val")
    case True
    then show ?thesis by (simp add: css_url_repl_def Some g)
  next
    case False
    then have "link_text (Resolve base val)" using Resolve_link_text by blast
    with False q show ?thesis by (auto simp: css_url_repl_def Some g Let_def)
  qed
qed (simp add: css_url_repl_def)

subsection \<open>Properties\<close>

text \<open>
  C21.  A rewritten value cannot leave its attribute.  Whatever the value, the text spliced between
  the quotes parses back as one attribute with the same name, ends at the closing quote, and a
  reader that decodes its character references gets exactly the value.
\<close>

theorem spliced_value_contained:
  fixes pre name v rest :: string
  assumes "q = dquote \<or> q = squote" "list_all (\<lambda>c. \<not> isAttrNameEnd c) name"
    "s = pre @ name @ ''='' @ [q] @ escapeAttrValue v (Some q) @ [q] @ rest"
  shows "aName (parse_attr s (length pre)) = to_lower name \<and>
    attr_text s (parse_attr s (length pre)) = v \<and> drop (aEnd (parse_attr s (length pre))) s = rest"
proof -
  let ?e = "escapeAttrValue v (Some q)"
  note p = parse_attr_spliced [OF assms(1,2) assms(1), of pre v rest, folded assms(3)]
  have "sub s (length (pre @ name) + 2) (length (pre @ name) + 2 + length ?e) = ?e"
    using sub_append_mid [of "pre @ name @ ''='' @ [q]" ?e "[q] @ rest"] by (simp add: assms(3))
  then have "attr_text s (parse_attr s (length pre)) = v"
    unfolding p attr_text_def by (simp add: unescape_escape_attr [OF assms(1)])
  moreover have "s = (pre @ name @ ''='' @ [q] @ ?e @ [q]) @ rest" by (simp add: assms(3))
  then have "drop (aEnd (parse_attr s (length pre))) s = rest"
    unfolding p htmlAttr.select_convs by (metis drop_at)
  ultimately show ?thesis unfolding p by simp
qed

theorem spliced_value_contained_witness:
  "attr_text (''<a '' @ ''Href'' @ ''='' @ [dquote] @ escapeAttrValue (''x'' @ [dquote] @ '' onload=y&amp;z'') (Some dquote) @ [dquote] @ ''>'')
     (parse_attr (''<a '' @ ''Href'' @ ''='' @ [dquote] @ escapeAttrValue (''x'' @ [dquote] @ '' onload=y&amp;z'') (Some dquote) @ [dquote] @ ''>'') (length ''<a ''))
   = ''x'' @ [dquote] @ '' onload=y&amp;z''"
proof -
  have n: "list_all (\<lambda>c. \<not> isAttrNameEnd c) ''Href''" by code_simp
  show ?thesis
    using spliced_value_contained [of dquote "''Href''" _ "''<a ''" "''x'' @ [dquote] @ '' onload=y&amp;z''" "''>''", OF _ n refl]
    by blast
qed

text \<open>
  Lists keep their entries.  Reading a rewritten \<open>srcset\<close> gives the candidates of the original
  in order, each with its URL resolved and its descriptor unchanged, and reading a rewritten
  \<open>ping\<close> list gives its URLs resolved.
\<close>

theorem rewritten_lists:
  "srcset_candidates (rewriteSrcset base v) = map (\<lambda>(c, d). (Resolve base c, d)) (srcset_candidates v) \<and>
   Prelude.fields (rewriteURLList base w) = map (Resolve base) (Prelude.fields w)"
proof
  have "srcset_candidates (join '', '' (map (\<lambda>(c, d). print_candidate (Resolve base c, d)) (srcset_candidates v)))
      = map (\<lambda>(c, d). (Resolve base c, d)) (srcset_candidates v)" if "srcset_candidates v \<noteq> []"
    by (rule base_resolver.srcset_shape [OF srcset_candidates_wf that])
  then show "srcset_candidates (rewriteSrcset base v) = map (\<lambda>(c, d). (Resolve base c, d)) (srcset_candidates v)"
    by (simp add: rewriteSrcset_def print_candidate_def Let_def)
  show "Prelude.fields (rewriteURLList base w) = map (Resolve base) (Prelude.fields w)"
    using base_resolver.url_list_shape [of base w] by (simp add: rewriteURLList_def Let_def)
qed

text \<open>
  In a stylesheet a matched \<open>url()\<close> is left as it is or becomes a quoted proxy link, and a
  link holds no quote, parenthesis, white space or markup: nothing in a reference can end the
  function, the declaration or the stylesheet early.
\<close>

theorem css_url_contained:
  "css_url_repl base m = m \<or>
   (\<exists>q x. (q = dquote \<or> q = squote) \<and> has_prefix x link_Prefix \<and> list_all plain_char x \<and>
      css_url_repl base m = ''url('' @ [q] @ x @ [q] @ '')'')"
  using css_url_repl_cases [of base m] link_text_plain unfolding link_text_def by blast

end
