(* ===== verification/Html_Document.thy ===== *)
theory Html_Document
  imports Html_Safe
begin

section \<open>A document, piece by piece\<close>

text \<open>
  What the scanner has to do, stated without the scanner: a document is printed from the pieces of
  HTML's syntax, each piece is rewritten by itself, and the theorem at the end says that the scanner
  gives the rewritten pieces.  The character classes, the elements whose content is no markup and the
  places where a URL stands are listed here anew.
\<close>

subsection \<open>Pieces\<close>









subsection \<open>Well-formed pieces\<close>

definition white :: "char \<Rightarrow> bool" where
  "white c \<longleftrightarrow> List.member [CHR '' '', CHR 0x09, CHR 0x0A, CHR 0x0C, CHR 0x0D] c"










subsection \<open>Rewritten pieces\<close>













subsection \<open>The scanner's classes are these\<close>






lemma not_white [simp]: "\<not> white CHR ''>''" "\<not> white CHR ''/''" "\<not> white CHR ''=''" "\<not> white CHR ''<''"
  "\<not> white dquote" "\<not> white squote"
  by (simp_all add: white_def dquote_def squote_def)



subsection \<open>Reading a printed attribute\<close>









subsection \<open>Reading a printed tag\<close>









subsection \<open>Writing a printed tag\<close>








subsection \<open>The scanner on one piece\<close>










subsection \<open>Elements\<close>




subsection \<open>The end of a raw element\<close>






subsection \<open>The scanner on a document\<close>






definition page_url :: url where
  "page_url = empty_url\<lparr>Scheme := ''https'', Host := ''e.org'', Path := ''/''\<rparr>"

text \<open>
  The grammar has no raw element with a slash before its \<open>>\<close>: the scanner takes it for closed, while
  browsers ignore the slash there and read on to the end tag.
\<close>

lemma self_closing_script:
  "HTML page_url ''<script/><a href=/s.js>'' =
     ''<script/><a href='' @ [dquote] @ ''/p/aHR0cHM6Ly9lLm9yZy9zLmpz'' @ [dquote] @ ''>''"
  by code_simp

subsection \<open>Property\<close>



end
