(* ===== verification/Proxy_Headers.thy ===== *)
theory Proxy_Headers
  imports Link Cookies Csp
begin

section \<open>Headers between the browser and the target (internal/proxy/proxy.go)\<close>

text \<open>
  Which request headers go upstream and with what values, and which response headers come back.
  A \<open>range\<close> over a header map is a fold over its entries in some order.
\<close>

subsection \<open>Tables\<close>

definition hopByHop :: "string list" where
  "hopByHop = [''Connection'', ''Proxy-Connection'', ''Keep-Alive'', ''Te'', ''Trailer'',
     ''Transfer-Encoding'', ''Upgrade'', ''Proxy-Authenticate'', ''Proxy-Authorization'']"

definition headerSet :: "string list \<Rightarrow> string list" where
  "headerSet names = map CanonicalHeaderKey names"

definition deniedRequestHeader :: "string list" where
  "deniedRequestHeader = headerSet
     [''Cookie'', ''Origin'', ''Referer'', ''Accept-Encoding'', ''X-Requested-With'',
      ''X-Real-IP'', ''True-Client-IP'', ''Client-IP'', ''X-Client-IP'',
      ''X-Cluster-Client-IP'', ''X-Http-Client-IP'', ''Proxy-Client-IP'',
      ''WL-Proxy-Client-IP'', ''X-Original-Forwarded-For'', ''CF-Connecting-IP'',
      ''Forwarded'', ''Via'', ''CDN-Loop'', ''Early-Data'']"

definition deniedRequestHeaderPrefixes :: "string list" where
  "deniedRequestHeaderPrefixes =
     [''Cf-'', ''X-Forwarded-'', ''X-Amz-Cf-'', ''X-Azure-'', ''X-Envoy-'', ''Fastly-'', ''Akamai-'',
      ''X-Akamai-'', ''Fly-'', ''X-Vercel-'']"

definition controlPlaneHeaders :: "string list" where
  "controlPlaneHeaders = [''X-Frame-Options'', ''X-Content-Type-Options'', ''Referrer-Policy'',
     ''Cross-Origin-Opener-Policy'', ''Cross-Origin-Embedder-Policy'', ''Cross-Origin-Resource-Policy'']"

subsection \<open>Request headers\<close>

definition deniedByPrefix :: "string \<Rightarrow> bool" where
  "deniedByPrefix canonical =
     list_ex (\<lambda>p. length p < length canonical \<and> equal_fold (take (length p) canonical) p)
       deniedRequestHeaderPrefixes"

definition denied :: "string \<Rightarrow> bool" where
  "denied ck \<longleftrightarrow> List.member hopByHop ck \<or> List.member deniedRequestHeader ck \<or> deniedByPrefix ck"

definition copyRequestHeaders :: "header \<Rightarrow> header \<Rightarrow> header" where
  "copyRequestHeaders dst src =
     fold (\<lambda>(k, vv) dst. let ck = CanonicalHeaderKey k in
        if denied ck then dst else hdr_assign ck vv dst) src dst"

definition registrableDomain :: "string \<Rightarrow> string" where
  "registrableDomain host =
     (let h = to_lower (trim_suffix host ''.''); parts = split_byte CHR ''.'' h in
      if length parts < 2 then h else join ''.'' (drop (length parts - 2) parts))"

definition secFetchSite :: "string \<Rightarrow> url \<Rightarrow> string" where
  "secFetchSite referer target =
     (if referer = [] then ''none''
      else case url_Parse referer of
          None \<Rightarrow> ''cross-site''
        | Some ref \<Rightarrow>
            if Host ref = [] then ''cross-site''
            else if equal_fold (Scheme ref) (Scheme target) \<and> equal_fold (Host ref) (Host target)
              then ''same-origin''
            else if registrableDomain (Hostname ref) = registrableDomain (Hostname target) then ''same-site''
            else ''cross-site'')"

text \<open>\<open>hin\<close> is the incoming header map, \<open>hout\<close> the one being built for the target.\<close>

definition setFetchMetadata :: "header \<Rightarrow> header \<Rightarrow> url \<Rightarrow> string \<Rightarrow> header" where
  "setFetchMetadata hout hin target referer =
     (if Get hin ''Sec-Fetch-Mode'' = [] \<and> Get hin ''Sec-Fetch-Dest'' = [] then hout
      else
        let d = Get hin ''Sec-Fetch-Dest'';
            hout1 = (if equal_fold (Get hin ''Sec-Fetch-Mode'') ''navigate'' \<and> (d = [] \<or> equal_fold d ''empty'')
                     then Set_hdr ''Sec-Fetch-Dest'' ''document'' hout else hout)
        in if Get hin ''Sec-Fetch-Site'' = [] then hout1
           else
             let site0 = secFetchSite referer target;
                 site1 = (if site0 = ''none'' \<and> \<not> equal_fold (Get hin ''Sec-Fetch-Mode'') ''navigate''
                          then ''same-origin'' else site0);
                 site2 = (if site1 = ''none'' \<and> Get hin ''Origin'' \<noteq> [] then ''same-origin'' else site1)
             in Set_hdr ''Sec-Fetch-Site'' site2 hout1)"

definition target_origin :: "url \<Rightarrow> string" where
  "target_origin target = Scheme target @ ''://'' @ Host target"

text \<open>The page the user came from, decoded from the proxy link in \<open>Referer\<close>; empty when it is not one.\<close>

definition decoded_referer :: "header \<Rightarrow> string" where
  "decoded_referer hin =
     (let ref = Get hin ''Referer'' in
      if ref = [] then []
      else case url_Parse ref of
          None \<Rightarrow> []
        | Some u \<Rightarrow> (case Decode (EscapedPath u) of Inl _ \<Rightarrow> [] | Inr real \<Rightarrow> url_String real))"

definition setRequestIdentity :: "header \<Rightarrow> request \<Rightarrow> url \<Rightarrow> header" where
  "setRequestIdentity hout r target =
     (let hin = rHeader r;
          cookies = unpackCookies r (Hostname target);
          hout1 = (if cookies \<noteq> [] then Set_hdr ''Cookie'' cookies hout else Del_hdr ''Cookie'' hout);
          hout2 = (if Get hin ''Origin'' \<noteq> [] then Set_hdr ''Origin'' (target_origin target) hout1 else hout1);
          referer = decoded_referer hin;
          hout3 = (if referer \<noteq> [] then Set_hdr ''Referer'' referer hout2 else hout2)
      in setFetchMetadata hout3 hin target referer)"

subsection \<open>Response headers\<close>

definition copy_response_header :: "(string \<Rightarrow> string option) \<Rightarrow> bool \<Rightarrow> url \<Rightarrow> string \<Rightarrow> bool \<Rightarrow> header
    \<Rightarrow> string \<times> string list \<Rightarrow> header \<Rightarrow> header" where
  "copy_response_header expires secure base nonce keepLength src = (\<lambda>(k, vv) dst.
     let ck = CanonicalHeaderKey k in
     if ck = ''Content-Length'' \<and> \<not> keepLength then dst
     else if ck = ''Content-Encoding'' then dst
     else if ck = ''Location'' \<or> ck = ''Content-Location'' then Set_hdr ck (Resolve base (Get src ck)) dst
     else if ck = ''Set-Cookie'' then
       fold (\<lambda>c dst. case packSetCookie expires c base secure of
           None \<Rightarrow> dst | Some packed \<Rightarrow> Add_hdr ''Set-Cookie'' packed dst) vv dst
     else if ck = ''Content-Security-Policy'' \<or> ck = ''Content-Security-Policy-Report-Only'' then
       (let policy = rewriteCSP (Get src ck) nonce in if policy \<noteq> [] then Set_hdr ck policy dst else dst)
     else if ck = ''Strict-Transport-Security'' then dst
     else if List.member hopByHop ck then dst
     else hdr_assign ck vv dst)"

definition copyResponseHeaders :: "(string \<Rightarrow> string option) \<Rightarrow> bool \<Rightarrow> header \<Rightarrow> header \<Rightarrow> url \<Rightarrow> string \<Rightarrow> bool \<Rightarrow> header" where
  "copyResponseHeaders expires secure dst src base nonce keepLength =
     (let dst1 = fold Del_hdr controlPlaneHeaders dst
      in fold (copy_response_header expires secure base nonce keepLength src) src dst1)"

end
