(* ===== verification/Proxy_Identity.thy ===== *)
theory Proxy_Identity
  imports Proxy_Headers Link_Roundtrip Cookie_Isolation
begin

section \<open>What the target sees, and what comes back\<close>

text \<open>
  The folds over header maps read pointwise: for a map with canonical keys, each once, as the HTTP
  server and client deliver them, the values under a key of the result depend only on the values
  under that key before, whatever the order of the iteration.
\<close>

definition hdr_ok :: "header \<Rightarrow> bool" where
  "hdr_ok h \<longleftrightarrow> distinct (map fst h) \<and> list_all (\<lambda>k. CanonicalHeaderKey k = k) (map fst h)"

lemma hdr_values_assign [simp]:
  "hdr_values (hdr_assign k vv h) j = (if j = k then vv else hdr_values h j)"
  by (simp add: hdr_values_def)

lemma hdr_values_Cons: "hdr_values ((k, vv) # h) j = (if j = k then vv else hdr_values h j)"
  by (simp add: hdr_values_def)

lemma hdr_values_Set [simp]:
  "hdr_values (Set_hdr k v h) j = (if j = CanonicalHeaderKey k then [v] else hdr_values h j)"
  by (simp add: hdr_values_def)

lemma hdr_values_Del [simp]:
  "hdr_values (Del_hdr k h) j = (if j = CanonicalHeaderKey k then [] else hdr_values h j)"
  by (simp add: hdr_values_def)

lemma hdr_values_Add [simp]:
  "hdr_values (Add_hdr k v h) j =
     (if j = CanonicalHeaderKey k then hdr_values h j @ [v] else hdr_values h j)"
  by (simp add: hdr_values_def Values_def)

text \<open>A fold whose steps each touch one key, and keys that differ.\<close>

lemma fold_pointwise:
  assumes "\<And>k vv d j. CanonicalHeaderKey k = k \<Longrightarrow> hdr_values (step (k, vv) d) j = (if j = k then f k vv (hdr_values d j) else hdr_values d j)"
    "hdr_ok src"
  shows "hdr_values (fold step src dst) j =
    (case map_of src j of None \<Rightarrow> hdr_values dst j | Some vv \<Rightarrow> f j vv (hdr_values dst j))"
  using assms(2)
proof (induction src arbitrary: dst)
  case (Cons e src)
  obtain k vv where e: "e = (k, vv)" by (cases e)
  have ok: "hdr_ok src" "CanonicalHeaderKey k = k" "k \<notin> set (map fst src)"
    using Cons.prems by (auto simp: e hdr_ok_def)
  have none: "map_of src k = None" using ok(3) by (simp add: map_of_eq_None_iff)
  show ?case
    using Cons.IH [OF ok(1), of "step (k, vv) dst"] assms(1) [OF ok(2), of vv dst] none
    by (simp add: e split: option.split)
qed simp

lemma hdr_ok_lookup: "map_of src j = Some vv \<Longrightarrow> hdr_values src j = vv"
  by (simp add: hdr_values_def)

lemma copyRequestHeaders_values:
  assumes "hdr_ok src"
  shows "hdr_values (copyRequestHeaders [] src) j = (if denied j then [] else hdr_values src j)"
proof -
  let ?step = "\<lambda>(k, vv) dst. let ck = CanonicalHeaderKey k in if denied ck then dst else hdr_assign ck vv dst"
  have "hdr_values (fold ?step src []) j =
      (case map_of src j of None \<Rightarrow> hdr_values [] j | Some vv \<Rightarrow> if denied j then hdr_values [] j else vv)"
    by (rule fold_pointwise [OF _ assms]) (simp add: Let_def)
  then show ?thesis
    by (simp add: copyRequestHeaders_def hdr_values_def split: option.split)
qed

subsection \<open>Identity\<close>

lemma canonical_names:
  "CanonicalHeaderKey ''Cookie'' = ''Cookie''" "CanonicalHeaderKey ''Origin'' = ''Origin''"
  "CanonicalHeaderKey ''Referer'' = ''Referer''" "CanonicalHeaderKey ''Sec-Fetch-Dest'' = ''Sec-Fetch-Dest''"
  "CanonicalHeaderKey ''Sec-Fetch-Site'' = ''Sec-Fetch-Site''" "CanonicalHeaderKey ''Sec-Fetch-Mode'' = ''Sec-Fetch-Mode''"
  "CanonicalHeaderKey ''Set-Cookie'' = ''Set-Cookie''"
  by code_simp+

lemma denied_names: "denied ''Cookie''" "denied ''Origin''" "denied ''Referer''"
  "\<not> denied ''Sec-Fetch-Dest''" "\<not> denied ''Sec-Fetch-Site''"
  by code_simp+

lemma setFetchMetadata_other:
  assumes "j \<noteq> ''Sec-Fetch-Dest''" "j \<noteq> ''Sec-Fetch-Site''"
  shows "hdr_values (setFetchMetadata hout hin target referer) j = hdr_values hout j"
  using assms by (simp add: setFetchMetadata_def Let_def canonical_names)

definition single :: "string \<Rightarrow> string list" where
  "single v = (if v = [] then [] else [v])"

text \<open>The values the target sees under a canonical name, apart from the fetch metadata.\<close>

definition upstream_values :: "request \<Rightarrow> url \<Rightarrow> string \<Rightarrow> string list" where
  "upstream_values r target j =
     (if j = ''Cookie'' then single (unpackCookies r (Hostname target))
      else if j = ''Origin'' then single (if Get (rHeader r) ''Origin'' = [] then [] else target_origin target)
      else if j = ''Referer'' then single (decoded_referer (rHeader r))
      else if denied j then [] else hdr_values (rHeader r) j)"

lemma setRequestIdentity_values:
  assumes "hdr_ok (rHeader r)" "j \<noteq> ''Sec-Fetch-Dest''" "j \<noteq> ''Sec-Fetch-Site''"
  shows "hdr_values (setRequestIdentity (copyRequestHeaders [] (rHeader r)) r target) j = upstream_values r target j"
proof -
  have "target_origin target \<noteq> []" by (simp add: target_origin_def)
  then show ?thesis
    unfolding setRequestIdentity_def Let_def setFetchMetadata_other [OF assms(2,3)]
    by (simp add: upstream_values_def single_def canonical_names copyRequestHeaders_values [OF assms(1)] denied_names)
qed

text \<open>Every name under which an edge passes on the client's address, or describes the relay.\<close>

definition relay_names :: "string list" where
  "relay_names = map CanonicalHeaderKey
     [''X-Real-IP'', ''True-Client-IP'', ''Client-IP'', ''X-Client-IP'', ''X-Cluster-Client-IP'',
      ''X-Http-Client-IP'', ''Proxy-Client-IP'', ''WL-Proxy-Client-IP'', ''X-Original-Forwarded-For'',
      ''CF-Connecting-IP'', ''CF-IPCountry'', ''CF-Ray'', ''CF-Visitor'', ''X-Forwarded-For'',
      ''X-Forwarded-Host'', ''X-Forwarded-Proto'', ''Forwarded'', ''Via'', ''CDN-Loop'', ''Early-Data'',
      ''X-Requested-With'', ''Connection'', ''Proxy-Authorization'', ''Upgrade'', ''Te'']"

lemma relay_names_denied: "list_all denied relay_names"
  by code_simp

text \<open>
  C8.  What the target sees of a request.  Cookies are the ones in scope of the target, \<open>Origin\<close>
  and \<open>Referer\<close> name the target and the page the link came from, every other denied header is
  gone, and the rest arrives as the browser sent it; \<open>Sec-Fetch-Dest\<close> and \<open>Sec-Fetch-Site\<close> are
  the subject of the next theorem.
\<close>

theorem upstream_identity:
  assumes "hdr_ok (rHeader r)" "j \<noteq> ''Sec-Fetch-Dest''" "j \<noteq> ''Sec-Fetch-Site''" "CanonicalHeaderKey j = j"
  shows "Values (setRequestIdentity (copyRequestHeaders [] (rHeader r)) r target) j =
      (if j = ''Cookie'' then single (unpackCookies r (Hostname target))
       else if j = ''Origin'' then single (if Get (rHeader r) ''Origin'' = [] then [] else target_origin target)
       else if j = ''Referer'' then single (decoded_referer (rHeader r))
       else if List.member relay_names j \<or> denied j then [] else Values (rHeader r) j)"
proof -
  have "denied j" if "j \<in> set relay_names" using relay_names_denied that by (simp add: list_all_iff)
  then show ?thesis
    using setRequestIdentity_values [OF assms(1-3)] assms(4) by (auto simp: Values_def upstream_values_def)
qed

definition sample_request :: request where
  "sample_request = \<lparr>rMethod = ''POST'', rURL = empty_url, rHost = ''proxy.test'',
     rHeader = [(''Cf-Connecting-Ip'', [''198.51.100.7'']), (''Origin'', [''https://proxy.test'']),
       (''X-Csrf-Token'', [''t'']), (''Sec-Fetch-Mode'', [''cors'']), (''Sec-Fetch-Site'', [''none'']),
       (''Sec-Fetch-Dest'', [''empty''])],
     rRemoteAddr = ''10.0.0.2:4000'', rTLS = False, rContentLength = 0, rBody = []\<rparr>"

lemma sample_request_ok: "hdr_ok (rHeader sample_request)"
  unfolding sample_request_def by code_simp

theorem upstream_identity_witness:
  "let out = setRequestIdentity (copyRequestHeaders [] (rHeader sample_request)) sample_request sample_target in
   Values out ''Origin'' = [''https://example.com:8443''] \<and> Values out ''Cf-Connecting-Ip'' = [] \<and>
   Values out ''X-Csrf-Token'' = [''t'']"
proof -
  have c: "CanonicalHeaderKey ''Origin'' = ''Origin''" "CanonicalHeaderKey ''Cf-Connecting-Ip'' = ''Cf-Connecting-Ip''"
    "CanonicalHeaderKey ''X-Csrf-Token'' = ''X-Csrf-Token''" by code_simp+
  have f: "Get (rHeader sample_request) ''Origin'' = ''https://proxy.test''"
    "Values (rHeader sample_request) ''X-Csrf-Token'' = [''t'']"
    "List.member relay_names ''Cf-Connecting-Ip''" "\<not> List.member relay_names ''X-Csrf-Token''" "\<not> denied ''X-Csrf-Token''"
    unfolding sample_request_def by code_simp+
  have "target_origin sample_target = ''https://example.com:8443''" unfolding sample_target_def by code_simp
  then show ?thesis
    using upstream_identity [OF sample_request_ok _ _ c(1), of sample_target]
      upstream_identity [OF sample_request_ok _ _ c(2), of sample_target]
      upstream_identity [OF sample_request_ok _ _ c(3), of sample_target] f
    by (simp add: single_def del: List.member_iff)
qed

subsection \<open>Fetch metadata\<close>

lemma navigate_facts: "equal_fold ''document'' ''empty'' = False" "''document'' \<noteq> []"
  by code_simp+

lemma secFetchSite_values: "secFetchSite referer target \<in> {''none'', ''cross-site'', ''same-origin'', ''same-site''}"
  by (simp add: secFetchSite_def split: option.split)

lemma secFetchSite_none: "secFetchSite referer target = ''none'' \<longleftrightarrow> referer = []"
  by (simp add: secFetchSite_def split: option.split)

lemma Get_hdr_values: "CanonicalHeaderKey k = k \<Longrightarrow> Get h k = (case hdr_values h k of [] \<Rightarrow> [] | v # _ \<Rightarrow> v)"
  by (simp add: Get_def Values_def)

text \<open>
  The fetch metadata sent upstream is coherent.  For a client that speaks it, a navigation never
  claims an empty destination, and \<open>Sec-Fetch-Site: none\<close> goes out only on a navigation that
  carries neither an \<open>Origin\<close> nor a decoded \<open>Referer\<close>.
\<close>

theorem fetch_metadata_coherent:
  fixes r :: request and target :: url
  defines "out \<equiv> setRequestIdentity (copyRequestHeaders [] (rHeader r)) r target"
  assumes "hdr_ok (rHeader r)" "Get (rHeader r) ''Sec-Fetch-Mode'' \<noteq> []"
  shows "(equal_fold (Get (rHeader r) ''Sec-Fetch-Mode'') ''navigate'' \<longrightarrow>
      Get out ''Sec-Fetch-Dest'' \<noteq> [] \<and> \<not> equal_fold (Get out ''Sec-Fetch-Dest'') ''empty'') \<and>
    (Get out ''Sec-Fetch-Site'' = ''none'' \<longrightarrow>
      equal_fold (Get (rHeader r) ''Sec-Fetch-Mode'') ''navigate'' \<and> Get out ''Origin'' = [] \<and> Get out ''Referer'' = [])"
proof -
  define hout where "hout = (let hin = rHeader r; cookies = unpackCookies r (Hostname target);
      hout0 = copyRequestHeaders [] hin;
      hout1 = (if cookies \<noteq> [] then Set_hdr ''Cookie'' cookies hout0 else Del_hdr ''Cookie'' hout0);
      hout2 = (if Get hin ''Origin'' \<noteq> [] then Set_hdr ''Origin'' (target_origin target) hout1 else hout1)
      in (if decoded_referer hin \<noteq> [] then Set_hdr ''Referer'' (decoded_referer hin) hout2 else hout2))"
  have out: "out = setFetchMetadata hout (rHeader r) target (decoded_referer (rHeader r))"
    by (simp add: out_def hout_def setRequestIdentity_def Let_def)
  have kept: "hdr_values hout ''Sec-Fetch-Dest'' = hdr_values (rHeader r) ''Sec-Fetch-Dest''"
    by (simp add: hout_def Let_def canonical_names copyRequestHeaders_values [OF assms(2)] denied_names)
  have site: "hdr_values hout ''Sec-Fetch-Site'' = hdr_values (rHeader r) ''Sec-Fetch-Site''"
    by (simp add: hout_def Let_def canonical_names copyRequestHeaders_values [OF assms(2)] denied_names)
  have org: "hdr_values out ''Origin'' = single (if Get (rHeader r) ''Origin'' = [] then [] else target_origin target)"
    and ref: "hdr_values out ''Referer'' = single (decoded_referer (rHeader r))"
    unfolding out_def using setRequestIdentity_values [OF assms(2)] by (simp_all add: upstream_values_def)
  have gd: "Get hout ''Sec-Fetch-Dest'' = Get (rHeader r) ''Sec-Fetch-Dest''"
    "Get hout ''Sec-Fetch-Site'' = Get (rHeader r) ''Sec-Fetch-Site''"
    using kept site by (simp_all add: Get_hdr_values canonical_names)
  have dest: "Get out ''Sec-Fetch-Dest'' \<noteq> [] \<and> \<not> equal_fold (Get out ''Sec-Fetch-Dest'') ''empty''"
    if "equal_fold (Get (rHeader r) ''Sec-Fetch-Mode'') ''navigate''"
    using that assms(3) gd navigate_facts by (auto simp: out setFetchMetadata_def Let_def Get_Set canonical_names)
  have none: "equal_fold (Get (rHeader r) ''Sec-Fetch-Mode'') ''navigate'' \<and> Get (rHeader r) ''Origin'' = [] \<and>
      decoded_referer (rHeader r) = []" if "Get out ''Sec-Fetch-Site'' = ''none''"
    using that assms(3) gd secFetchSite_none
    by (auto simp: out setFetchMetadata_def Let_def Get_Set canonical_names split: if_splits)
  show ?thesis
    using dest none org ref by (auto simp: Get_hdr_values canonical_names single_def)
qed

theorem fetch_metadata_coherent_witness:
  "Get (setRequestIdentity (copyRequestHeaders [] (rHeader sample_request)) sample_request sample_target)
     ''Sec-Fetch-Site'' \<noteq> ''none''"
proof -
  have "Get (rHeader sample_request) ''Sec-Fetch-Mode'' \<noteq> []"
    "\<not> equal_fold (Get (rHeader sample_request) ''Sec-Fetch-Mode'') ''navigate''"
    unfolding sample_request_def by code_simp+
  then show ?thesis using fetch_metadata_coherent [OF sample_request_ok, of sample_target] by blast
qed

subsection \<open>Response headers\<close>

text \<open>
  What becomes of the values \<open>vv\<close> the target sent under a name, the first of which is \<open>first\<close>;
  \<open>old\<close> is what was staged there.
\<close>

definition response_values :: "(string \<Rightarrow> string option) \<Rightarrow> bool \<Rightarrow> url \<Rightarrow> string \<Rightarrow> bool \<Rightarrow> string \<Rightarrow> string \<Rightarrow> string list \<Rightarrow> string list \<Rightarrow> string list" where
  "response_values expires secure base nonce keepLength k first vv old =
     (if k = ''Content-Length'' \<and> \<not> keepLength then old
      else if k = ''Content-Encoding'' then old
      else if k = ''Location'' \<or> k = ''Content-Location'' then [Resolve base first]
      else if k = ''Set-Cookie'' then old @ List.map_filter (\<lambda>c. packSetCookie expires c base secure) vv
      else if k = ''Content-Security-Policy'' \<or> k = ''Content-Security-Policy-Report-Only'' then
        (if rewriteCSP first nonce = [] then old else [rewriteCSP first nonce])
      else if k = ''Strict-Transport-Security'' \<or> List.member hopByHop k then old
      else vv)"

definition first_value :: "string list \<Rightarrow> string" where
  "first_value vv = (case vv of [] \<Rightarrow> [] | v # _ \<Rightarrow> v)"

lemma fold_set_cookies:
  "hdr_values (fold (\<lambda>c dst. case packSetCookie ex c base secure of
       None \<Rightarrow> dst | Some packed \<Rightarrow> Add_hdr ''Set-Cookie'' packed dst) cs d) j =
   (if j = ''Set-Cookie'' then hdr_values d j @ List.map_filter (\<lambda>c. packSetCookie ex c base secure) cs
    else hdr_values d j)"
  by (induction cs arbitrary: d) (simp_all add: List.map_filter_def canonical_names split: option.split)

lemma if_chain:
  "(if a then v else if b then v else if c then (if e then x else v)
    else if f then (if \<not> q then (if e then y else v) else v)
    else if g then v else if h then v else if e then z else v) =
   (if e then (if a then v else if b then v else if c then x else if f then (if q then v else y)
     else if g \<or> h then v else z) else v)"
  by simp

lemma copy_response_header_values:
  assumes "CanonicalHeaderKey k = k"
  shows "hdr_values (copy_response_header ex secure base nonce keepLength src (k, vv) d) j =
    (if j = k then response_values ex secure base nonce keepLength k (Get src k) vv (hdr_values d j)
     else hdr_values d j)"
proof -
  have h: "hdr_values (if b then x else y) j = (if b then hdr_values x j else hdr_values y j)" for b and x y :: header
    by simp
  have c: "CanonicalHeaderKey ''Set-Cookie'' = ''Set-Cookie''" by (rule canonical_names)
  show ?thesis
  proof (cases "k = ''Set-Cookie''")
    case True
    show ?thesis
      unfolding True copy_response_header_def response_values_def Let_def prod.case c
      by (simp add: fold_set_cookies)
  next
    case False
    show ?thesis
      unfolding copy_response_header_def response_values_def Let_def prod.case assms h
        hdr_values_assign hdr_values_Set if_not_P [OF False]
      by (rule if_chain)
  qed
qed

lemma hdr_values_fold_Del:
  "hdr_values (fold Del_hdr ks d) j = (if j \<in> CanonicalHeaderKey ` set ks then [] else hdr_values d j)"
  by (induction ks arbitrary: d) auto

lemma control_plane_canonical: "map CanonicalHeaderKey controlPlaneHeaders = controlPlaneHeaders"
  by code_simp

lemma copyResponseHeaders_values:
  assumes "hdr_ok src"
  shows "hdr_values (copyResponseHeaders ex secure dst src base nonce keepLength) j =
    (let old = (if List.member controlPlaneHeaders j then [] else hdr_values dst j) in
     case map_of src j of
       None \<Rightarrow> old
     | Some vv \<Rightarrow> response_values ex secure base nonce keepLength j (first_value vv) vv old)"
proof -
  let ?f = "\<lambda>k. response_values ex secure base nonce keepLength k (Get src k)"
  let ?d = "fold Del_hdr controlPlaneHeaders dst"
  have cp: "CanonicalHeaderKey ` set controlPlaneHeaders = set controlPlaneHeaders"
    using control_plane_canonical by (metis list.set_map)
  have "hdr_values (fold (copy_response_header ex secure base nonce keepLength src) src ?d) j =
      (case map_of src j of None \<Rightarrow> hdr_values ?d j | Some vv \<Rightarrow> ?f j vv (hdr_values ?d j))"
    by (rule fold_pointwise [OF _ assms]) (simp add: copy_response_header_values)
  moreover have "Get src j = first_value vv" if "map_of src j = Some vv" for vv
  proof -
    have "CanonicalHeaderKey j = j" using that assms by (force simp: hdr_ok_def list_all_iff dest: map_of_SomeD)
    then show ?thesis using hdr_ok_lookup [OF that] by (simp add: Get_hdr_values first_value_def)
  qed
  ultimately show ?thesis
    by (simp add: copyResponseHeaders_def hdr_values_fold_Del cp Let_def split: option.split)
qed

text \<open>
  C31.  What comes back.  Under every canonical name the response carries exactly what
  \<open>response_values\<close> says of the target's values: its own framing and control headers win over the
  control plane's, hop-by-hop headers, content encoding and HSTS never pass, redirects lead back
  into the proxy, cookies are packed and a policy is translated.
\<close>

theorem response_headers:
  assumes "hdr_ok src" "CanonicalHeaderKey j = j"
  shows "Values (copyResponseHeaders ex secure dst src base nonce keepLength) j =
    (let old = (if List.member controlPlaneHeaders j then [] else Values dst j) in
     case map_of src j of
       None \<Rightarrow> old
     | Some vv \<Rightarrow> response_values ex secure base nonce keepLength j (first_value vv) vv old)"
  using copyResponseHeaders_values [OF assms(1), of ex secure dst base nonce keepLength j] assms(2)
  by (simp add: Values_def)

theorem response_headers_witness:
  "Values (copyResponseHeaders no_dates True [(''X-Frame-Options'', [''DENY''])]
     [(''X-Frame-Options'', [''SAMEORIGIN'']), (''Location'', [''/next''])] (site ''x.org'') [] False) ''X-Frame-Options''
   = [''SAMEORIGIN'']"
proof -
  let ?src = "[(''X-Frame-Options'', [''SAMEORIGIN'']), (''Location'', [''/next''])]"
  have ok: "hdr_ok ?src" "CanonicalHeaderKey ''X-Frame-Options'' = ''X-Frame-Options''"
    "\<not> List.member hopByHop ''X-Frame-Options''" by code_simp+
  show ?thesis
    using response_headers [OF ok(1,2), of no_dates True "[(''X-Frame-Options'', [''DENY''])]" "site ''x.org''" "[]" False] ok(3)
    by (simp add: response_values_def Let_def del: List.member_iff)
qed

text \<open>
  Only the first of several policies survives: a second \<open>Content-Security-Policy\<close> header,
  which a browser would enforce as well, is dropped on the way.
\<close>

theorem second_policy_dropped:
  "Values (copyResponseHeaders no_dates True []
     [(''Content-Security-Policy'', [''img-src data:'', ''script-src blob:''])] (site ''x.org'') [] False)
     ''Content-Security-Policy'' = [''img-src data:'']"
  by code_simp

end
