(* ===== verification/Fetch.thy ===== *)
theory Fetch
  imports Ssrfguard
begin

section \<open>Hardened dialers (internal/proxy/fetch)\<close>

text \<open>
  \<open>fetch.Dialer\<close> and \<open>fetch.NewClient\<close> are settings of library objects; what matters of them is
  which network a connection asks for and that the guard is installed as the dialer's hook.  A
  dialer resolves the address it is given and tries the candidates in turn, running its hook on
  each before connecting: \<open>net_resolve\<close> and \<open>net_connect\<close> stand for the resolver and the kernel.
  Durations are seconds.
\<close>

record dialer =
  dTimeout :: nat
  dKeepAlive :: nat
  dControl :: "string \<Rightarrow> control_error + unit"

definition Dialer :: dialer where
  "Dialer = \<lparr>dTimeout = 10, dKeepAlive = 30, dControl = Control\<rparr>"

definition DialNetwork :: "bool \<Rightarrow> string" where
  "DialNetwork forceIPv4 = (if forceIPv4 then ''tcp4'' else ''tcp'')"

definition forceIPv4Network :: "string \<Rightarrow> string" where
  "forceIPv4Network network = (if network = ''tcp'' then ''tcp4'' else network)"

record client =
  cDialNetwork :: "string \<Rightarrow> string"
  cDialer :: dialer
  cMaxIdleConns :: nat
  cMaxIdleConnsPerHost :: nat
  cResponseHeaderTimeout :: nat
  cFollowRedirects :: bool

definition NewClient :: "nat \<Rightarrow> bool \<Rightarrow> client" where
  "NewClient responseHeaderTimeout forceIPv4 =
     \<lparr>cDialNetwork = (if forceIPv4 then forceIPv4Network else (\<lambda>network. network)),
      cDialer = Dialer, cMaxIdleConns = 512, cMaxIdleConnsPerHost = 64,
      cResponseHeaderTimeout = responseHeaderTimeout, cFollowRedirects = False\<rparr>"

text \<open>
  \<open>net.Dialer.DialContext\<close>: the candidates in order, the hook before each connection, the first
  error when none succeeds (\<open>None\<close> stands for an error of the resolver or the kernel).
\<close>

fun dial_serial :: "dialer \<Rightarrow> (string \<Rightarrow> bool) \<Rightarrow> control_error option option \<Rightarrow> string list
    \<Rightarrow> control_error option + string" where
  "dial_serial d conn err [] = Inl (case err of None \<Rightarrow> None | Some e \<Rightarrow> e)"
| "dial_serial d conn err (a # as) =
     (case dControl d a of
        Inl e \<Rightarrow> dial_serial d conn (case err of None \<Rightarrow> Some (Some e) | Some e' \<Rightarrow> Some e') as
      | Inr _ \<Rightarrow> if conn a then Inr a
               else dial_serial d conn (case err of None \<Rightarrow> Some None | Some e' \<Rightarrow> Some e') as)"

definition DialContext :: "dialer \<Rightarrow> (string \<Rightarrow> string \<Rightarrow> string list) \<Rightarrow> (string \<Rightarrow> bool) \<Rightarrow> string \<Rightarrow> string
    \<Rightarrow> control_error option + string" where
  "DialContext d net_resolve net_connect network address =
     dial_serial d net_connect None (net_resolve network address)"

text \<open>What the HTTP client connects to for an address.\<close>

definition client_dial :: "client \<Rightarrow> (string \<Rightarrow> string \<Rightarrow> string list) \<Rightarrow> (string \<Rightarrow> bool) \<Rightarrow> string \<Rightarrow> string
    \<Rightarrow> control_error option + string" where
  "client_dial c net_resolve net_connect network address =
     DialContext (cDialer c) net_resolve net_connect (cDialNetwork c network) address"

lemma dial_serial_Inr:
  "dial_serial d conn err as = Inr a \<Longrightarrow> a \<in> set as \<and> dControl d a = Inr () \<and> conn a"
  by (induction as arbitrary: err) (auto split: sum.splits if_splits)

text \<open>
  C32.  No connection to a refused address.  Whatever the resolver answers, and whichever network
  is asked for, the address the HTTP client or the WebSocket dialer ends up connected to is one of
  the answers and has passed the guard, so a name that resolves to a private address, at once or
  after a rebinding, is never reached.
\<close>

theorem dial_guarded:
  assumes "client_dial (NewClient timeout force4) net_resolve net_connect network address = Inr a \<or>
    DialContext Dialer net_resolve net_connect (DialNetwork force4) address = Inr a"
  shows "Control a = Inr () \<and> net_connect a \<and>
    a \<in> set (net_resolve (if force4 then forceIPv4Network network else network) address) \<union>
      set (net_resolve (DialNetwork force4) address)"
  using assms
  by (auto simp: client_dial_def DialContext_def NewClient_def Dialer_def dest!: dial_serial_Inr)

theorem dial_guarded_witness:
  "Control ''93.184.216.34:80'' = Inr () \<and>
   DialContext Dialer (\<lambda>_ _. [''10.0.0.1:80'', ''93.184.216.34:80'']) (\<lambda>_. True) (DialNetwork True) ''example.com:80''
     = Inr ''93.184.216.34:80''"
proof -
  let ?r = "\<lambda>_ _. [''10.0.0.1:80'', ''93.184.216.34:80'']"
  have "DialContext Dialer ?r (\<lambda>_. True) (DialNetwork True) ''example.com:80'' = Inr ''93.184.216.34:80''"
    by code_simp
  with dial_guarded [of 0 True ?r "\<lambda>_. True" "''tcp''" "''example.com:80''" "''93.184.216.34:80''"]
  show ?thesis by blast
qed

end
