(* ===== verification/Proxy_State.thy ===== *)
theory Proxy_State
  imports Proxy_Headers Fetch
begin

section \<open>The proxy handler's settings and one exchange (internal/proxy/proxy.go)\<close>

text \<open>
  \<open>handler\<close> is the struct \<open>Handler\<close>; its callbacks \<open>enabled\<close> and \<open>authorized\<close> read the live state
  of the control plane, whose type is \<open>'s\<close>.  \<open>exchange\<close> is what one request does to the world:
  the response being written, the outcomes counted, what is sent upstream, the deadlines of the
  connection, and whether the handler panicked.  \<open>world\<close> holds the answers of the outside.
\<close>

datatype fetch_error = FetchBlocked | FetchFailed

text \<open>A body being read: the bytes that arrive, then an end of file or an error.\<close>

record stream =
  sData :: bytes
  sFailed :: bool

record response =
  sStatus :: nat
  sHeader :: header
  sUncompressed :: bool
  sBody :: stream

record 's handler =
  hClient :: "request \<Rightarrow> fetch_error + response"
  hCol :: bool
  hRewriteMax :: int
  hInject :: "(bytes \<Rightarrow> string \<Rightarrow> bytes option) option"
  hEnabled :: "('s \<Rightarrow> bool) option"
  hForceIPv4 :: bool
  hRequireToken :: bool
  hAuthorized :: "('s \<Rightarrow> string \<Rightarrow> bool) option"
  hSecure :: bool
  hSelfHosts :: "string list"
  hLogUpstream :: string
  hBlockTelemetry :: bool

record world =
  eRandom :: "bytes option"
  eExpires :: "string \<Rightarrow> string option"
  eDial :: "string \<Rightarrow> string \<Rightarrow> fetch_error + unit"
  eUpgrade :: "request \<Rightarrow> response option"
  eHijack :: bool
  eClientOpen :: bool

record exchange =
  xWriter :: writer
  xCounts :: "string list"
  xObserved :: nat
  xSent :: "request list"
  xDials :: "(string \<times> string \<times> string option) list"
  xHandshakes :: "request list"
  xReadDeadline :: bool
  xWriteDeadline :: bool
  xFlushes :: nat
  xClientConn :: "bytes option"
  xTunnel :: bool
  xLog :: "string list"
  xPanic :: bool

definition exchange_of :: "writer \<Rightarrow> exchange" where
  "exchange_of w =
     \<lparr>xWriter = w, xCounts = [], xObserved = 0, xSent = [], xDials = [], xHandshakes = [],
      xReadDeadline = True, xWriteDeadline = True, xFlushes = 0, xClientConn = None, xTunnel = False,
      xLog = [], xPanic = False\<rparr>"

definition on_writer :: "(writer \<Rightarrow> writer) \<Rightarrow> exchange \<Rightarrow> exchange" where
  "on_writer f x = x\<lparr>xWriter := f (xWriter x)\<rparr>"

definition flush :: "exchange \<Rightarrow> exchange" where
  "flush x = x\<lparr>xWriter := WriteHeader 200 (xWriter x), xFlushes := xFlushes x + 1\<rparr>"

definition count :: "'s handler \<Rightarrow> string \<Rightarrow> exchange \<Rightarrow> exchange" where
  "count h outcome x = (if hCol h then x\<lparr>xCounts := xCounts x @ [outcome]\<rparr> else x)"

text \<open>Counting an outcome and answering with an error, as every refusal does.\<close>

definition refuse :: "'s handler \<Rightarrow> string \<Rightarrow> string \<Rightarrow> nat \<Rightarrow> exchange \<Rightarrow> exchange" where
  "refuse h outcome msg code x = on_writer (http_Error msg code) (count h outcome x)"

lemma exchange_simps [simp]:
  "xWriter (on_writer f x) = f (xWriter x)" "xWriter (count h c x) = xWriter x"
  "xCounts (on_writer f x) = xCounts x" "xCounts (flush x) = xCounts x"
  "xCounts (count h c x) = (if hCol h then xCounts x @ [c] else xCounts x)"
  "xSent (on_writer f x) = xSent x" "xSent (flush x) = xSent x" "xSent (count h c x) = xSent x"
  "xDials (on_writer f x) = xDials x" "xDials (flush x) = xDials x" "xDials (count h c x) = xDials x"
  "xHandshakes (on_writer f x) = xHandshakes x" "xHandshakes (flush x) = xHandshakes x"
  "xHandshakes (count h c x) = xHandshakes x"
  "xPanic (on_writer f x) = xPanic x" "xPanic (flush x) = xPanic x" "xPanic (count h c x) = xPanic x"
  "xTunnel (on_writer f x) = xTunnel x" "xTunnel (flush x) = xTunnel x" "xTunnel (count h c x) = xTunnel x"
  "xClientConn (on_writer f x) = xClientConn x" "xClientConn (flush x) = xClientConn x"
  "xClientConn (count h c x) = xClientConn x"
  "xReadDeadline (on_writer f x) = xReadDeadline x" "xReadDeadline (flush x) = xReadDeadline x"
  "xReadDeadline (count h c x) = xReadDeadline x"
  "xWriteDeadline (on_writer f x) = xWriteDeadline x" "xWriteDeadline (flush x) = xWriteDeadline x"
  "xWriteDeadline (count h c x) = xWriteDeadline x"
  by (simp_all add: on_writer_def flush_def count_def)

lemma xWriter_flush [simp]: "xWriter (flush x) = WriteHeader 200 (xWriter x)"
  by (simp add: flush_def)

lemma refuse_simps [simp]:
  "xWriter (refuse h c m n x) = http_Error m n (xWriter x)"
  "xCounts (refuse h c m n x) = (if hCol h then xCounts x @ [c] else xCounts x)"
  "xSent (refuse h c m n x) = xSent x" "xDials (refuse h c m n x) = xDials x"
  "xHandshakes (refuse h c m n x) = xHandshakes x" "xPanic (refuse h c m n x) = xPanic x"
  "xTunnel (refuse h c m n x) = xTunnel x" "xClientConn (refuse h c m n x) = xClientConn x"
  "xReadDeadline (refuse h c m n x) = xReadDeadline x" "xWriteDeadline (refuse h c m n x) = xWriteDeadline x"
  by (simp_all add: refuse_def)

lemma exchange_of_simps [simp]:
  "xWriter (exchange_of w) = w" "xCounts (exchange_of w) = []" "xSent (exchange_of w) = []"
  "xDials (exchange_of w) = []" "xHandshakes (exchange_of w) = []" "xPanic (exchange_of w) = False"
  "xTunnel (exchange_of w) = False" "xClientConn (exchange_of w) = None"
  by (simp_all add: exchange_of_def)

subsection \<open>http.NewRequest\<close>

definition removeEmptyPort :: "string \<Rightarrow> string" where
  "removeEmptyPort host =
     (let colon = last_index_byte host CHR '':''; bracket = last_index_byte host CHR '']'' in
      if (case colon of None \<Rightarrow> False | Some i \<Rightarrow> (case bracket of None \<Rightarrow> True | Some j \<Rightarrow> j < i))
      then trim_suffix host '':'' else host)"

definition NewRequest :: "string \<Rightarrow> string \<Rightarrow> request option" where
  "NewRequest method u =
     (let m = (if method = [] then ''GET'' else method) in
      if \<not> is_http_token m then None
      else map_option (\<lambda>u. \<lparr>rMethod = m, rURL = u\<lparr>Host := removeEmptyPort (Host u)\<rparr>,
          rHost = removeEmptyPort (Host u), rHeader = [], rRemoteAddr = [], rTLS = False,
          rContentLength = 0, rBody = []\<rparr>) (url_Parse u))"

subsection \<open>Own hosts and access tokens\<close>

definition normalizeHosts :: "string list \<Rightarrow> string list" where
  "normalizeHosts hs = List.map_filter (\<lambda>h.
     let h = (case net_SplitHostPort h of None \<Rightarrow> h | Some (host, _) \<Rightarrow> host); h = to_lower (trim_space h)
     in if h \<noteq> [] then Some h else None) hs"

definition isSelf :: "'s handler \<Rightarrow> string \<Rightarrow> string \<Rightarrow> bool" where
  "isSelf h targetHost reqHost0 =
     (if targetHost = [] then False
      else
        let reqHost = (case net_SplitHostPort reqHost0 of None \<Rightarrow> reqHost0 | Some (host, _) \<Rightarrow> host) in
        if equal_fold targetHost reqHost then True
        else list_ex (equal_fold targetHost) (hSelfHosts h))"

definition accessCookie :: string where
  "accessCookie = ''bumshi_access''"

definition accessToken :: "request \<Rightarrow> string" where
  "accessToken r = (case request_Cookie r accessCookie of None \<Rightarrow> [] | Some v \<Rightarrow> v)"

end
