(* ===== verification/Websocket.thy ===== *)
theory Websocket
  imports Proxy_State Proxy_Identity
begin

section \<open>WebSocket tunnels (internal/proxy/websocket.go)\<close>

text \<open>
  The upgrade of a connection and the tunnel behind it: the request sent to the target, the reply
  passed back, and the two copiers as a step relation over the streams in both directions, with
  connections that block and break.
\<close>

subsection \<open>The upgrade\<close>

definition wsForwardHeaders :: "string list" where
  "wsForwardHeaders = [''Upgrade'', ''Connection'', ''Sec-Websocket-Key'', ''Sec-Websocket-Version'',
     ''Sec-Websocket-Protocol'', ''Sec-Websocket-Extensions'', ''User-Agent'', ''Accept-Language'']"

definition wsUpgradeResponseHeaders :: "string list" where
  "wsUpgradeResponseHeaders = [''Upgrade'', ''Connection'', ''Sec-Websocket-Accept'',
     ''Sec-Websocket-Protocol'', ''Sec-Websocket-Extensions'']"

definition headerContainsToken :: "header \<Rightarrow> string \<Rightarrow> string \<Rightarrow> bool" where
  "headerContainsToken h key tok =
     list_ex (\<lambda>v. list_ex (\<lambda>part. equal_fold (trim_space part) tok) (split_byte CHR '','' v)) (Values h key)"

definition isWebSocketUpgrade :: "request \<Rightarrow> bool" where
  "isWebSocketUpgrade r \<longleftrightarrow> equal_fold (Get (rHeader r) ''Upgrade'') ''websocket'' \<and>
     headerContainsToken (rHeader r) ''Connection'' ''upgrade''"

definition canonicalHostPort :: "url \<Rightarrow> string" where
  "canonicalHostPort u =
     (if Port u \<noteq> [] then Host u
      else if Scheme u = ''https'' then net_JoinHostPort (Hostname u) ''443''
      else net_JoinHostPort (Hostname u) ''80'')"

text \<open>The dial: the network and address asked for, and the server name when TLS is used.\<close>

definition dialUpstream :: "'s handler \<Rightarrow> world \<Rightarrow> url \<Rightarrow> exchange \<Rightarrow> (fetch_error + unit) \<times> exchange" where
  "dialUpstream h e target x =
     (let network = DialNetwork (hForceIPv4 h); hostport = canonicalHostPort target;
          tls = (if Scheme target = ''https'' then Some (Hostname target) else None)
      in (eDial e network hostport, x\<lparr>xDials := xDials x @ [(network, hostport, tls)]\<rparr>))"

definition ws_request_header :: "url \<Rightarrow> request \<Rightarrow> header" where
  "ws_request_header target r =
     (let h1 = fold (\<lambda>k hd. let v = Values (rHeader r) k in
            if v \<noteq> [] then hdr_assign (CanonicalHeaderKey k) v hd else hd) wsForwardHeaders [];
          h2 = Set_hdr ''Origin'' (Scheme target @ ''://'' @ Host target) h1;
          cookies = unpackCookies r (Hostname target)
      in if cookies \<noteq> [] then Set_hdr ''Cookie'' cookies h2 else h2)"

definition upstreamHandshake :: "world \<Rightarrow> url \<Rightarrow> request \<Rightarrow> exchange \<Rightarrow> response option \<times> exchange" where
  "upstreamHandshake e target r x =
     (case NewRequest ''GET'' (url_String target) of
        None \<Rightarrow> (None, x)
      | Some req0 \<Rightarrow>
          let req = req0\<lparr>rHost := Host target, rHeader := ws_request_header target r\<rparr>
          in (eUpgrade e req, x\<lparr>xHandshakes := xHandshakes x @ [req]\<rparr>))"

definition crlf :: string where
  "crlf = [CHR 0x0D, CHR 0x0A]"

definition writeClientHandshake :: "header \<Rightarrow> bytes" where
  "writeClientHandshake hdr =
     ''HTTP/1.1 101 Switching Protocols'' @ crlf @
     concat (map (\<lambda>k. concat (map (\<lambda>v. k @ '': '' @ v @ crlf) (Values hdr k))) wsUpgradeResponseHeaders) @ crlf"

definition serveWebSocket :: "'s handler \<Rightarrow> world \<Rightarrow> request \<Rightarrow> url \<Rightarrow> exchange \<Rightarrow> exchange" where
  "serveWebSocket h e r target x0 =
     (case dialUpstream h e target x0 of
        (Inl FetchBlocked, x) \<Rightarrow> refuse h ''blocked'' ''destination not permitted'' 403 x
      | (Inl FetchFailed, x) \<Rightarrow> refuse h ''upstream_error'' ''bad gateway'' 502 x
      | (Inr _, x) \<Rightarrow>
          (case upstreamHandshake e target r x of
             (None, x) \<Rightarrow> refuse h ''upstream_error'' ''bad gateway'' 502 x
           | (Some upResp, x) \<Rightarrow>
               if sStatus upResp \<noteq> 101 then refuse h ''upstream_error'' ''upstream did not upgrade'' 502 x
               else if \<not> eHijack e then refuse h ''upstream_error'' ''streaming unsupported'' 500 x
               else
                 let x = x\<lparr>xReadDeadline := False, xWriteDeadline := False\<rparr> in
                 if \<not> eClientOpen e then x\<lparr>xClientConn := Some []\<rparr>
                 else
                   let x = count h ''ok'' (x\<lparr>xClientConn := Some (writeClientHandshake (sHeader upResp))\<rparr>)
                   in x\<lparr>xTunnel := True\<rparr>))"

subsection \<open>The upgrade request and reply\<close>

lemma ws_header_fold:
  "hdr_values (fold (\<lambda>k hd.
      if Values src k \<noteq> [] then hdr_assign (CanonicalHeaderKey k) (Values src k) hd else hd) ks h0) j =
   (if j \<in> CanonicalHeaderKey ` set ks \<and> hdr_values src j \<noteq> [] then hdr_values src j else hdr_values h0 j)"
  by (induction ks arbitrary: h0) (auto simp: Values_def)

lemma ws_names_canonical:
  "map CanonicalHeaderKey wsForwardHeaders = wsForwardHeaders"
  "map CanonicalHeaderKey wsUpgradeResponseHeaders = wsUpgradeResponseHeaders"
  "CanonicalHeaderKey ''Origin'' = ''Origin''" "CanonicalHeaderKey ''Cookie'' = ''Cookie''"
  by code_simp+

text \<open>
  The upgrade request sent to the target: its own origin, the cookies in scope of it, the
  listed headers as the browser sent them, and nothing else, so neither the access token nor any
  header that names the client or the proxy reaches the other side of a socket.
\<close>

theorem ws_request_values:
  "hdr_values (ws_request_header target r) j =
     (if j = ''Cookie'' then (let c = unpackCookies r (Hostname target) in if c \<noteq> [] then [c] else [])
      else if j = ''Origin'' then [target_origin target]
      else if List.member wsForwardHeaders j then hdr_values (rHeader r) j
      else [])"
proof -
  have "CanonicalHeaderKey ` set wsForwardHeaders = set wsForwardHeaders"
    by (metis list.set_map ws_names_canonical(1))
  moreover have "''Cookie'' \<notin> set wsForwardHeaders" "''Origin'' \<notin> set wsForwardHeaders" by code_simp+
  moreover have "hdr_values [] k = []" for k by (simp add: hdr_values_def)
  ultimately show ?thesis
    by (auto simp: ws_request_header_def Let_def ws_header_fold ws_names_canonical(3,4) target_origin_def)
qed

subsection \<open>The tunnel\<close>

text \<open>
  Two copiers share two connections.  A \<open>flow\<close> is one direction with its copier: what the source has
  sent (as far as it has arrived), what of it the copier has not read yet, what it has read and not
  written yet, what it has written, how much of that the destination has taken out of the buffers on the
  way, whether the source has ended its stream, and whether the copier is done.  A copier that is done
  has closed its destination, which is the source of the other.  Either connection may break at any time.
\<close>

record flow =
  fSent :: bytes
  fPending :: bytes
  fHeld :: bytes
  fWritten :: bytes
  fTaken :: nat
  fEnd :: bool
  fDone :: bool

record tunnel =
  tUp :: flow
  tDown :: flow
  tClientBroken :: bool
  tUpstreamBroken :: bool

definition flow_start :: "bytes \<Rightarrow> flow" where
  "flow_start buffered =
     \<lparr>fSent = buffered, fPending = buffered, fHeld = [], fWritten = [], fTaken = 0, fEnd = False, fDone = False\<rparr>"

definition tunnel_start :: "bytes \<Rightarrow> bytes \<Rightarrow> tunnel" where
  "tunnel_start clientBuffered upstreamBuffered =
     \<lparr>tUp = flow_start clientBuffered, tDown = flow_start upstreamBuffered, tClientBroken = False, tUpstreamBroken = False\<rparr>"

text \<open>
  A step of \<open>io.Copy\<close> and the \<open>Close\<close> behind it: \<open>window\<close> is how much a connection takes before a write
  blocks, \<open>srcGone\<close> that reading from the source fails.  The copier ends at the end of the stream, on a
  read error, and on a write error, with what it had read lost.
\<close>

inductive copier :: "nat \<Rightarrow> bool \<Rightarrow> bool \<Rightarrow> flow \<Rightarrow> flow \<Rightarrow> bool" for window srcGone dstBroken where
  read_some: "\<not> fDone f \<Longrightarrow> fHeld f = [] \<Longrightarrow> fPending f = bs @ rest \<Longrightarrow> bs \<noteq> [] \<Longrightarrow>
    copier window srcGone dstBroken f (f\<lparr>fHeld := bs, fPending := rest\<rparr>)"
| read_end: "\<not> fDone f \<Longrightarrow> fHeld f = [] \<Longrightarrow> fPending f = [] \<Longrightarrow> fEnd f \<Longrightarrow>
    copier window srcGone dstBroken f (f\<lparr>fDone := True\<rparr>)"
| read_error: "\<not> fDone f \<Longrightarrow> fHeld f = [] \<Longrightarrow> srcGone \<Longrightarrow>
    copier window srcGone dstBroken f (f\<lparr>fDone := True\<rparr>)"
| write_some: "\<not> fDone f \<Longrightarrow> fHeld f = bs @ rest \<Longrightarrow> bs \<noteq> [] \<Longrightarrow> \<not> dstBroken \<Longrightarrow>
    length (fWritten f) + length bs \<le> fTaken f + window \<Longrightarrow>
    copier window srcGone dstBroken f (f\<lparr>fWritten := fWritten f @ bs, fHeld := rest\<rparr>)"
| write_error: "\<not> fDone f \<Longrightarrow> fHeld f \<noteq> [] \<Longrightarrow> dstBroken \<Longrightarrow>
    copier window srcGone dstBroken f (f\<lparr>fDone := True\<rparr>)"

inductive copy_step :: "nat \<Rightarrow> tunnel \<Rightarrow> tunnel \<Rightarrow> bool" for window where
  up: "copier window (tClientBroken t \<or> fDone (tDown t)) (tUpstreamBroken t) (tUp t) f \<Longrightarrow>
    copy_step window t (t\<lparr>tUp := f\<rparr>)"
| down: "copier window (tUpstreamBroken t \<or> fDone (tUp t)) (tClientBroken t) (tDown t) f \<Longrightarrow>
    copy_step window t (t\<lparr>tDown := f\<rparr>)"

text \<open>What a peer does with the flow it is the source of, and with the one it is the destination of.\<close>

inductive source_step :: "nat \<Rightarrow> flow \<Rightarrow> flow \<Rightarrow> bool" where
  sends: "\<not> fEnd f \<Longrightarrow> source_step (length bs) f (f\<lparr>fSent := fSent f @ bs, fPending := fPending f @ bs\<rparr>)"
| ends: "source_step 0 f (f\<lparr>fEnd := True\<rparr>)"
| takes: "fTaken f + n \<le> length (fWritten f) \<Longrightarrow> source_step 0 f (f\<lparr>fTaken := fTaken f + n\<rparr>)"

inductive peer_step :: "nat \<Rightarrow> tunnel \<Rightarrow> tunnel \<Rightarrow> bool" where
  on_up: "source_step b (tUp t) f \<Longrightarrow> peer_step b t (t\<lparr>tUp := f\<rparr>)"
| on_down: "source_step b (tDown t) f \<Longrightarrow> peer_step b t (t\<lparr>tDown := f\<rparr>)"
| client_breaks: "peer_step 0 t (t\<lparr>tClientBroken := True\<rparr>)"
| upstream_breaks: "peer_step 0 t (t\<lparr>tUpstreamBroken := True\<rparr>)"

inductive_cases copierE: "copier window srcGone dstBroken f g"
inductive_cases copy_stepE: "copy_step window t u"
inductive_cases source_stepE: "source_step b f g"
inductive_cases peer_stepE: "peer_step b t u"

text \<open>A run of both, with the number of the copiers' steps and of the bytes that the peers send meanwhile.\<close>

inductive tunnel_run :: "nat \<Rightarrow> tunnel \<Rightarrow> nat \<Rightarrow> nat \<Rightarrow> tunnel \<Rightarrow> bool" for window t where
  start: "tunnel_run window t 0 0 t"
| peer: "tunnel_run window t n b u \<Longrightarrow> peer_step c u v \<Longrightarrow> tunnel_run window t n (b + c) v"
| copy: "tunnel_run window t n b u \<Longrightarrow> copy_step window u v \<Longrightarrow> tunnel_run window t (Suc n) b v"

subsection \<open>What is delivered\<close>

definition flow_inv :: "flow \<Rightarrow> bool" where
  "flow_inv f \<longleftrightarrow> fWritten f @ fHeld f @ fPending f = fSent f \<and> fTaken f \<le> length (fWritten f)"

definition delivered :: "flow \<Rightarrow> bool" where
  "delivered f \<longleftrightarrow> fEnd f \<and> fWritten f = fSent f"

definition tunnel_inv :: "tunnel \<Rightarrow> bool" where
  "tunnel_inv t \<longleftrightarrow> flow_inv (tUp t) \<and> flow_inv (tDown t) \<and>
     (fDone (tUp t) \<or> fDone (tDown t) \<longrightarrow>
        tClientBroken t \<or> tUpstreamBroken t \<or> delivered (tUp t) \<or> delivered (tDown t))"

lemma flow_inv_copier: "copier window srcGone dstBroken f g \<Longrightarrow> flow_inv f \<Longrightarrow> flow_inv g"
  by (erule copierE) (auto simp: flow_inv_def)

lemma copier_done:
  "copier window srcGone dstBroken f g \<Longrightarrow> flow_inv f \<Longrightarrow> fDone g \<Longrightarrow> \<not> srcGone \<Longrightarrow> \<not> dstBroken \<Longrightarrow> delivered g"
  by (erule copierE) (auto simp: flow_inv_def delivered_def)

lemma copier_delivered: "copier window srcGone dstBroken f g \<Longrightarrow> flow_inv f \<Longrightarrow> delivered f \<Longrightarrow> delivered g"
  by (erule copierE) (auto simp: flow_inv_def delivered_def)

lemma source_keeps:
  "source_step b f g \<Longrightarrow> flow_inv f \<Longrightarrow> flow_inv g" "source_step b f g \<Longrightarrow> delivered f \<Longrightarrow> delivered g"
  "source_step b f g \<Longrightarrow> fDone g = fDone f"
  by (erule source_stepE; auto simp: flow_inv_def delivered_def)+

lemma tunnel_inv_peer: "peer_step b t u \<Longrightarrow> tunnel_inv t \<Longrightarrow> tunnel_inv u"
  by (erule peer_stepE) (auto simp: tunnel_inv_def dest: source_keeps)

lemma tunnel_inv_copy: "copy_step window t u \<Longrightarrow> tunnel_inv t \<Longrightarrow> tunnel_inv u"
  by (erule copy_stepE; auto simp: tunnel_inv_def dest: flow_inv_copier copier_delivered copier_done)

lemma tunnel_inv_start: "tunnel_inv (tunnel_start cb ub)"
  by (simp add: tunnel_inv_def tunnel_start_def flow_start_def flow_inv_def)

lemma tunnel_inv_run: "tunnel_run window t n b u \<Longrightarrow> tunnel_inv t \<Longrightarrow> tunnel_inv u"
  by (induction rule: tunnel_run.induct) (auto intro: tunnel_inv_peer tunnel_inv_copy)

subsection \<open>That it ends\<close>

text \<open>A bound on the steps the copiers can still take by themselves.\<close>

definition flow_work :: "flow \<Rightarrow> nat" where
  "flow_work f = 2 * length (fPending f) + length (fHeld f) + (if fDone f then 0 else 1)"

definition copy_work :: "tunnel \<Rightarrow> nat" where
  "copy_work t = flow_work (tUp t) + flow_work (tDown t)"

lemma copier_work: "copier window srcGone dstBroken f g \<Longrightarrow> flow_work g < flow_work f"
  by (erule copierE) (auto simp: flow_work_def Suc_le_eq)

lemma copy_step_work: "copy_step window t u \<Longrightarrow> copy_work u < copy_work t"
  by (erule copy_stepE) (auto simp: copy_work_def dest: copier_work)

lemma peer_step_work: "peer_step b t u \<Longrightarrow> copy_work u \<le> copy_work t + 2 * b"
  by (erule peer_stepE; (erule source_stepE)?; auto simp: copy_work_def flow_work_def)

lemma run_work: "tunnel_run window t n b u \<Longrightarrow> n + copy_work u \<le> copy_work t + 2 * b"
  by (induction rule: tunnel_run.induct) (force dest: copy_step_work peer_step_work)+

text \<open>Something has happened that ends the tunnel.\<close>

definition ending :: "tunnel \<Rightarrow> bool" where
  "ending t \<longleftrightarrow> fEnd (tUp t) \<or> fEnd (tDown t) \<or> tClientBroken t \<or> tUpstreamBroken t"

lemma ending_run: "tunnel_run window t n b u \<Longrightarrow> ending t \<Longrightarrow> ending u"
proof (induction rule: tunnel_run.induct)
  case (peer n b u c v)
  then show ?case by (auto simp: ending_def elim!: peer_stepE source_stepE)
next
  case (copy n b u v)
  then show ?case by (auto simp: ending_def elim!: copy_stepE copierE)
qed

text \<open>A copier that waits in a write because its destination has not taken what is on the way.\<close>

definition stalled :: "nat \<Rightarrow> bool \<Rightarrow> flow \<Rightarrow> bool" where
  "stalled window dstBroken f \<longleftrightarrow>
     \<not> fDone f \<and> fHeld f \<noteq> [] \<and> \<not> dstBroken \<and> fTaken f + window \<le> length (fWritten f)"

lemma copier_progress:
  assumes "\<nexists>g. copier window srcGone dstBroken f g" "\<not> fDone f" "\<not> stalled window dstBroken f"
  shows "fHeld f = [] \<and> fPending f = [] \<and> \<not> fEnd f \<and> \<not> srcGone"
proof -
  have held: "fHeld f = []"
  proof (rule ccontr)
    assume *: "fHeld f \<noteq> []"
    then obtain c rest where c: "fHeld f = [c] @ rest" by (cases "fHeld f") auto
    have "\<not> dstBroken" using assms(1,2) * copier.write_error by blast
    moreover from this have "length (fWritten f) + length [c] \<le> fTaken f + window"
      using assms(2,3) * by (simp add: stalled_def)
    ultimately show False using assms(1,2) copier.write_some [of f "[c]" rest] c by blast
  qed
  moreover have "fPending f = []"
    using assms(1,2) held copier.read_some [of f "fPending f" "[]"] by (metis append_Nil2)
  ultimately show ?thesis using assms(1,2) copier.read_end copier.read_error by blast
qed

lemma tunnel_progress:
  assumes "ending t" "\<nexists>u. copy_step window t u"
  shows "fDone (tUp t) \<and> fDone (tDown t) \<or> stalled window (tUpstreamBroken t) (tUp t) \<or> stalled window (tClientBroken t) (tDown t)"
proof (rule ccontr)
  assume *: "\<not> ?thesis"
  have up: "\<nexists>f. copier window (tClientBroken t \<or> fDone (tDown t)) (tUpstreamBroken t) (tUp t) f"
    and down: "\<nexists>f. copier window (tUpstreamBroken t \<or> fDone (tUp t)) (tClientBroken t) (tDown t) f"
    using assms(2) copy_step.up copy_step.down by blast+
  have u: "\<not> fDone (tUp t) \<Longrightarrow> \<not> fEnd (tUp t) \<and> \<not> tClientBroken t \<and> \<not> fDone (tDown t)"
    using copier_progress [OF up] * by blast
  have d: "\<not> fDone (tDown t) \<Longrightarrow> \<not> fEnd (tDown t) \<and> \<not> tUpstreamBroken t \<and> \<not> fDone (tUp t)"
    using copier_progress [OF down] * by blast
  show False using u d * assms(1) unfolding ending_def by blast
qed

lemma done_no_step: "fDone (tUp t) \<Longrightarrow> fDone (tDown t) \<Longrightarrow> \<not> copy_step window t u"
  by (auto elim!: copy_stepE copierE)

text \<open>
  C29.  The tunnel moves bytes and nothing else: at every reachable moment, in both directions, what the
  destination has been sent, followed by what is held and what waits, is exactly what the source has
  sent, buffered bytes first, whatever breaks; and unless one of the two connections has broken, none
  is closed before one peer has ended its stream and had all of it delivered.
\<close>

theorem tunnel_faithful:
  assumes "tunnel_run window (tunnel_start cb ub) n b t"
  shows "fWritten (tUp t) @ fHeld (tUp t) @ fPending (tUp t) = fSent (tUp t) \<and>
    fWritten (tDown t) @ fHeld (tDown t) @ fPending (tDown t) = fSent (tDown t) \<and>
    (if (fDone (tUp t) \<or> fDone (tDown t)) \<and> \<not> tClientBroken t \<and> \<not> tUpstreamBroken t
     then fEnd (tUp t) \<and> fWritten (tUp t) = fSent (tUp t) \<or> fEnd (tDown t) \<and> fWritten (tDown t) = fSent (tDown t)
     else True)"
  using tunnel_inv_run [OF assms tunnel_inv_start] by (auto simp: tunnel_inv_def flow_inv_def delivered_def)

text \<open>
  C28.  Once a peer has ended its stream or a connection has broken, the tunnel ends by itself, whatever
  the peers do meanwhile: the copiers take no more than \<open>copy_work\<close> steps and two for each byte that is
  still sent, and when none can go on, both are done and so both connections closed, or one waits for a
  peer that does not take a window's worth of what was sent to it.
\<close>

theorem tunnel_ends:
  assumes "ending t" "tunnel_run window t n b u"
  shows "n \<le> copy_work t + 2 * b \<and>
    (if \<exists>v. copy_step window u v then \<not> (fDone (tUp u) \<and> fDone (tDown u))
     else fDone (tUp u) \<and> fDone (tDown u) \<or>
       stalled window (tUpstreamBroken u) (tUp u) \<or> stalled window (tClientBroken u) (tDown u))"
  using run_work [OF assms(2)] tunnel_progress [OF ending_run [OF assms(2,1)], of window] done_no_step [of u window] by auto

subsection \<open>Examples\<close>

text \<open>The client sends four bytes and ends; they are delivered, and both copiers stop.\<close>

definition sample_flow :: flow where
  "sample_flow = \<lparr>fSent = ''ping'', fPending = ''ping'', fHeld = [], fWritten = [], fTaken = 0, fEnd = True, fDone = False\<rparr>"

definition sample_tunnel :: tunnel where
  "sample_tunnel = (tunnel_start ''ping'' [])\<lparr>tUp := sample_flow\<rparr>"

definition sample_end :: tunnel where
  "sample_end = sample_tunnel\<lparr>tUp := sample_flow\<lparr>fPending := [], fWritten := ''ping'', fDone := True\<rparr>, tDown := (flow_start [])\<lparr>fDone := True\<rparr>\<rparr>"

lemma sample_run: "tunnel_run 4 sample_tunnel 4 0 sample_end"
proof -
  let ?t1 = "sample_tunnel\<lparr>tUp := sample_flow\<lparr>fHeld := ''ping'', fPending := []\<rparr>\<rparr>"
  let ?t2 = "?t1\<lparr>tUp := (tUp ?t1)\<lparr>fWritten := fWritten (tUp ?t1) @ ''ping'', fHeld := []\<rparr>\<rparr>"
  let ?t3 = "?t2\<lparr>tUp := (tUp ?t2)\<lparr>fDone := True\<rparr>\<rparr>"
  let ?t4 = "?t3\<lparr>tDown := (tDown ?t3)\<lparr>fDone := True\<rparr>\<rparr>"
  note defs = sample_tunnel_def tunnel_start_def sample_flow_def flow_start_def
  have "copy_step 4 sample_tunnel ?t1"
    using copy_step.up [OF copier.read_some [of "tUp sample_tunnel" "''ping''" "[]"], of 4] by (simp add: defs)
  moreover have "copy_step 4 ?t1 ?t2" by (rule copy_step.up, rule copier.write_some) (simp_all add: defs)
  moreover have "copy_step 4 ?t2 ?t3" by (rule copy_step.up, rule copier.read_end) (simp_all add: defs)
  moreover have "copy_step 4 ?t3 ?t4" by (rule copy_step.down, rule copier.read_error) (simp_all add: defs)
  ultimately have "tunnel_run 4 sample_tunnel (Suc (Suc (Suc (Suc 0)))) 0 ?t4" by (blast intro: tunnel_run.intros)
  moreover have "?t4 = sample_end" by (simp add: sample_end_def defs)
  ultimately show ?thesis by (simp add: numeral_eq_Suc)
qed

theorem tunnel_ends_witness:
  "4 \<le> copy_work sample_tunnel \<and> (\<nexists>v. copy_step 4 sample_end v)"
proof -
  have "ending sample_tunnel" by (simp add: ending_def sample_tunnel_def sample_flow_def)
  moreover have "fDone (tUp sample_end)" "fDone (tDown sample_end)" by (simp_all add: sample_end_def)
  ultimately show ?thesis using tunnel_ends [OF _ sample_run] by (auto split: if_splits)
qed

theorem tunnel_faithful_witness:
  "\<exists>n. tunnel_run 4 (tunnel_start ''ping'' []) n 0 sample_end \<and> fWritten (tUp sample_end) = fSent (tUp sample_end)"
proof -
  have "peer_step 0 (tunnel_start ''ping'' []) sample_tunnel"
    using peer_step.on_up [OF source_step.ends, of "tunnel_start ''ping'' []"]
    by (simp add: sample_tunnel_def tunnel_start_def flow_start_def sample_flow_def)
  then have first: "tunnel_run 4 (tunnel_start ''ping'' []) 0 0 sample_tunnel"
    using tunnel_run.peer [OF tunnel_run.start] by (metis add_0)
  have "tunnel_run 4 (tunnel_start ''ping'' []) n b u" if "tunnel_run 4 sample_tunnel n b u" for n b u
    using that by (induction rule: tunnel_run.induct) (use first in \<open>auto intro: tunnel_run.intros\<close>)
  from this [OF sample_run] have run: "tunnel_run 4 (tunnel_start ''ping'' []) 4 0 sample_end" .
  from tunnel_faithful [OF run] have "fWritten (tUp sample_end) = fSent (tUp sample_end)"
    by (auto simp: sample_end_def sample_flow_def sample_tunnel_def tunnel_start_def flow_start_def)
  with run show ?thesis by blast
qed

end
