(* ===== verification/Proxy_Debug.thy ===== *)
theory Proxy_Debug
  imports Http "HOL-Library.Char_ord" "HOL-Library.List_Lexorder"
begin

section \<open>Upstream request logging (internal/proxy/debug.go)\<close>

text \<open>
  The diagnostic line written for requests to a chosen host: the headers in sorted order, cookies
  as names and sizes, the credentials of \<open>Authorization\<close> as a size.
\<close>

definition cookie_parts :: "string \<Rightarrow> (string \<times> nat) list" where
  "cookie_parts v =
     List.map_filter (\<lambda>part.
       let p = trim_space part in
       if p = [] then None
       else case index_byte p CHR ''='' of
           None \<Rightarrow> Some (p, 0)
         | Some eq \<Rightarrow> Some (take eq p, length p - eq - 1)) (split_byte CHR '';'' v)"

definition describeCookies :: "string \<Rightarrow> string" where
  "describeCookies v =
     (let parts = cookie_parts v; names = map fst parts in
      if parts = [] then ''(none)''
      else join '', '' (map (\<lambda>(n, size).
        n @ ''('' @ itoa size @ '')'' @ (if 1 < count_list names n then '' <<DUPLICATE'' else [])) parts))"

text \<open>\<open>slices.Sort\<close> of the keys, each with its values.\<close>

definition log_value :: "string \<Rightarrow> string \<Rightarrow> string" where
  "log_value k v =
     newline @ ''  '' @ k @ '': '' @
     (if k = ''Cookie'' then describeCookies v
      else if k = ''Authorization'' then ''('' @ itoa (length v) @ '' bytes)''
      else v)"

text \<open>\<open>None\<close>: nothing is logged.  \<open>logUpstream\<close> is the configured substring, lower-cased.\<close>

definition logUpstreamRequest :: "string \<Rightarrow> request \<Rightarrow> string option" where
  "logUpstreamRequest logUpstream out =
     (if logUpstream = [] then None
      else if \<not> contains_str (to_lower (Hostname (rURL out))) logUpstream then None
      else Some (rMethod out @ '' '' @ Scheme (rURL out) @ ''://'' @ rHost out @ EscapedPath (rURL out) @
        concat (map (\<lambda>k. concat (map (log_value k) (hdr_values (rHeader out) k)))
          (sort (map fst (rHeader out))))))"

subsection \<open>Credentials stay out of the log\<close>

text \<open>Two cookie headers with the same names and the same sizes are described alike.\<close>

lemma describeCookies_parts:
  "cookie_parts v = cookie_parts w \<Longrightarrow> describeCookies v = describeCookies w"
  by (simp add: describeCookies_def)

text \<open>What the log line may depend on: values of other headers, but of credentials only the sizes.\<close>

definition redacted :: "header \<Rightarrow> (string \<times> (string + (string \<times> nat) list) list) list" where
  "redacted h = map (\<lambda>(k, vs). (k, map (\<lambda>v.
     if k = ''Cookie'' then Inr (cookie_parts v)
     else if k = ''Authorization'' then Inr [([], length v)]
     else Inl v) vs)) h"

lemma log_values_redacted:
  "map (\<lambda>v. if k = ''Cookie'' then Inr (cookie_parts v) else if k = ''Authorization'' then Inr [([], length v)] else Inl v) vs =
   map (\<lambda>v. if k = ''Cookie'' then Inr (cookie_parts v) else if k = ''Authorization'' then Inr [([], length v)] else Inl v) ws \<Longrightarrow>
   concat (map (log_value k) vs) = concat (map (log_value k) ws)"
proof (induction vs arbitrary: ws)
  case (Cons v vs)
  then obtain w ws' where ws: "ws = w # ws'" by (cases ws) auto
  have "log_value k v = log_value k w"
    using Cons.prems describeCookies_parts [of v w] by (auto simp: ws log_value_def split: if_splits)
  moreover have "concat (map (log_value k) vs) = concat (map (log_value k) ws')"
    by (rule Cons.IH) (use Cons.prems in \<open>simp add: ws\<close>)
  ultimately show ?case by (simp add: ws)
qed simp

lemma redacted_keys: "redacted g = redacted h \<Longrightarrow> map fst g = map fst h"
proof -
  have "map fst (redacted h) = map fst h" for h by (simp add: redacted_def comp_def case_prod_unfold)
  then show "redacted g = redacted h \<Longrightarrow> map fst g = map fst h" by metis
qed

lemma redacted_values:
  "redacted g = redacted h \<Longrightarrow> concat (map (log_value k) (hdr_values g k)) = concat (map (log_value k) (hdr_values h k))"
proof (induction g arbitrary: h)
  case Nil
  then show ?case by (cases h) (auto simp: redacted_def hdr_values_def)
next
  case (Cons e g)
  obtain k' vs where e: "e = (k', vs)" by (cases e)
  with Cons.prems obtain ws h' where h: "h = (k', ws) # h'" by (cases h) (auto simp: redacted_def)
  have "redacted g = redacted h'" using Cons.prems by (simp add: redacted_def e h)
  from Cons.IH [OF this] show ?case
    using Cons.prems log_values_redacted [of k' vs ws] by (simp add: redacted_def e h hdr_values_def)
qed

text \<open>
  Non-interference of the log.  Two requests that differ only in the values of cookies, keeping
  names and sizes, and in the bytes of \<open>Authorization\<close>, keeping its length, write the same line: no
  credential reaches the log.
\<close>

theorem log_hides_credentials:
  assumes "redacted h = redacted (rHeader r)"
  shows "logUpstreamRequest host (r\<lparr>rHeader := h\<rparr>) = logUpstreamRequest host r"
proof -
  have "map fst h = map fst (rHeader r)" by (rule redacted_keys [OF assms])
  then show ?thesis using redacted_values [OF assms] by (simp add: logUpstreamRequest_def)
qed

definition logged_request :: "string \<Rightarrow> string \<Rightarrow> request" where
  "logged_request cookie auth = \<lparr>rMethod = ''GET'', rURL = empty_url\<lparr>Scheme := ''https'', Host := ''a.test''\<rparr>,
     rHost = ''a.test'', rHeader = [(''Cookie'', [cookie]), (''Authorization'', [auth])], rRemoteAddr = [],
     rTLS = True, rContentLength = 0, rBody = []\<rparr>"

theorem log_hides_credentials_witness:
  "logUpstreamRequest ''a.test'' (logged_request ''SID=secret'' ''Bearer x'') =
   logUpstreamRequest ''a.test'' (logged_request ''SID=hidden'' ''Bearer y'')"
proof -
  have "redacted (rHeader (logged_request ''SID=secret'' ''Bearer x'')) =
      redacted (rHeader (logged_request ''SID=hidden'' ''Bearer y''))"
    unfolding logged_request_def by code_simp
  from log_hides_credentials [OF this, of "''a.test''"] show ?thesis by (simp add: logged_request_def)
qed

end
