(* ===== verification/Proxy_Handler.thy ===== *)
theory Proxy_Handler
  imports Websocket Html_Rewrite Telemetry Proxy_Debug
begin

section \<open>The proxy handler (internal/proxy/proxy.go)\<close>

text \<open>
  \<open>Handler.ServeHTTP\<close> and the functions it calls, each a map on an \<open>exchange\<close>: the response being
  written together with what was sent upstream, logged and counted.
\<close>

subsection \<open>Construction\<close>

record 's options =
  oClient :: "request \<Rightarrow> fetch_error + response"
  oCollectors :: bool
  oRewriteMaxBytes :: int
  oInjectHTML :: "(bytes \<Rightarrow> string \<Rightarrow> bytes option) option"
  oEnabled :: "('s \<Rightarrow> bool) option"
  oForceIPv4 :: bool
  oRequireToken :: bool
  oAuthorized :: "('s \<Rightarrow> string \<Rightarrow> bool) option"
  oSecureCookies :: bool
  oSelfHosts :: "string list"
  oLogUpstreamHost :: string
  oBlockTelemetry :: "bool option"

definition defaultRewriteMaxBytes :: int where
  "defaultRewriteMaxBytes = 8 * 2 ^ 20"

definition proxy_New :: "'s options \<Rightarrow> 's handler" where
  "proxy_New opts =
     \<lparr>hClient = oClient opts, hCol = oCollectors opts,
      hRewriteMax = (if oRewriteMaxBytes opts \<le> 0 then defaultRewriteMaxBytes else oRewriteMaxBytes opts),
      hInject = oInjectHTML opts, hEnabled = oEnabled opts, hForceIPv4 = oForceIPv4 opts,
      hRequireToken = oRequireToken opts, hAuthorized = oAuthorized opts, hSecure = oSecureCookies opts,
      hSelfHosts = normalizeHosts (oSelfHosts opts), hLogUpstream = to_lower (oLogUpstreamHost opts),
      hBlockTelemetry = (case oBlockTelemetry opts of None \<Rightarrow> True | Some b \<Rightarrow> b)\<rparr>"

subsection \<open>Responses\<close>

definition shouldInject :: "request \<Rightarrow> bool" where
  "shouldInject r =
     (if equal_fold (Get (rHeader r) ''Sec-Fetch-Mode'') ''navigate'' then True
      else List.member [[], ''document'', ''iframe'', ''frame'', ''embed'', ''object'']
        (to_lower (Get (rHeader r) ''Sec-Fetch-Dest'')))"

definition serveTelemetry :: "'s handler \<Rightarrow> request \<Rightarrow> exchange \<Rightarrow> exchange" where
  "serveTelemetry h r x0 =
     (let origin = Get (rHeader r) ''Origin'';
          x1 = (if origin \<noteq> [] then on_writer (hset ''Access-Control-Allow-Credentials'' ''true'')
                  (on_writer (hset ''Access-Control-Allow-Origin'' origin) x0) else x0);
          x2 = on_writer (WriteHeader 204) (on_writer (hset ''Cache-Control'' ''no-store'') x1)
      in count h ''telemetry_blocked'' x2)"

text \<open>A 64-bit sum; \<open>io.ReadAll\<close> of a \<open>LimitReader\<close>: the bytes read, or \<open>None\<close> for an error, and the rest.\<close>

definition wrap64 :: "int \<Rightarrow> int" where
  "wrap64 i = (i + 2 ^ 63) mod 2 ^ 64 - 2 ^ 63"

definition read_limited :: "int \<Rightarrow> stream \<Rightarrow> bytes option \<times> stream" where
  "read_limited limit s =
     (if nat limit \<le> length (sData s)
      then (Some (take (nat limit) (sData s)), s\<lparr>sData := drop (nat limit) (sData s)\<rparr>)
      else if sFailed s then (None, s\<lparr>sData := []\<rparr>)
      else (Some (sData s), s\<lparr>sData := []\<rparr>))"

text \<open>\<open>io.Copy\<close> into a \<open>flushWriter\<close>: what arrives is written and flushed; a read error ends it.\<close>

definition copy_flushed :: "stream \<Rightarrow> exchange \<Rightarrow> exchange" where
  "copy_flushed s x = (if sData s = [] then x else flush (on_writer (Write (sData s)) x))"

definition stage_headers :: "'s handler \<Rightarrow> world \<Rightarrow> response \<Rightarrow> url \<Rightarrow> string \<Rightarrow> bool \<Rightarrow> exchange \<Rightarrow> exchange" where
  "stage_headers h e resp target nonce keepLength =
     on_writer (\<lambda>w. w\<lparr>wHeader :=
       copyResponseHeaders (eExpires e) (hSecure h) (wHeader w) (sHeader resp) target nonce keepLength\<rparr>)"

definition inject_html :: "'s handler \<Rightarrow> request \<Rightarrow> bool \<Rightarrow> string \<Rightarrow> bytes \<Rightarrow> bytes option" where
  "inject_html h r html nonce body =
     (case hInject h of
        Some f \<Rightarrow> if html \<and> shouldInject r then f body nonce else Some body
      | None \<Rightarrow> Some body)"

definition serveRewritten :: "'s handler \<Rightarrow> world \<Rightarrow> request \<Rightarrow> response \<Rightarrow> url \<Rightarrow> bool \<Rightarrow> string \<Rightarrow> exchange \<Rightarrow> exchange" where
  "serveRewritten h e r resp target html nonce x =
     (case read_limited (wrap64 (hRewriteMax h + 1)) (sBody resp) of
        (None, _) \<Rightarrow> refuse h ''upstream_error'' ''bad gateway'' 502 x
      | (Some body0, rest) \<Rightarrow>
          if hRewriteMax h < int (length body0) then
            (case inject_html h r html nonce body0 of
               None \<Rightarrow> x\<lparr>xPanic := True\<rparr>
             | Some body \<Rightarrow>
                 count h ''ok_unrewritten'' (copy_flushed rest (flush (on_writer (Write body)
                   (on_writer (WriteHeader (sStatus resp)) (stage_headers h e resp target nonce False x))))))
          else
            (case inject_html h r html nonce (if html then HTML target body0 else CSS target body0) of
               None \<Rightarrow> x\<lparr>xPanic := True\<rparr>
             | Some body \<Rightarrow>
                 count h ''ok'' (on_writer (Write body) (on_writer (WriteHeader (sStatus resp))
                   (on_writer (hset ''Content-Length'' (itoa (length body)))
                     (stage_headers h e resp target nonce False x))))))"

subsection \<open>Forwarding\<close>

definition upstream_request :: "request \<Rightarrow> url \<Rightarrow> request \<Rightarrow> request" where
  "upstream_request r target outReq =
     outReq\<lparr>rHeader := setRequestIdentity (copyRequestHeaders [] (rHeader r)) r target,
       rHost := Host target, rContentLength := rContentLength r, rBody := rBody r\<rparr>"

definition log_upstream :: "'s handler \<Rightarrow> request \<Rightarrow> exchange \<Rightarrow> exchange" where
  "log_upstream h out x =
     (case logUpstreamRequest (hLogUpstream h) out of None \<Rightarrow> x | Some line \<Rightarrow> x\<lparr>xLog := xLog x @ [line]\<rparr>)"

definition response_nonce :: "world \<Rightarrow> response \<Rightarrow> string" where
  "response_nonce e resp =
     (if Get (sHeader resp) ''Content-Security-Policy'' \<noteq> [] \<or>
         Get (sHeader resp) ''Content-Security-Policy-Report-Only'' \<noteq> []
      then newCSPNonce (eRandom e) else [])"

definition serveHTTP :: "'s handler \<Rightarrow> world \<Rightarrow> request \<Rightarrow> url \<Rightarrow> exchange \<Rightarrow> exchange" where
  "serveHTTP h e r target x0 =
     (case NewRequest (rMethod r) (url_String target) of
        None \<Rightarrow> refuse h ''bad_request'' ''invalid request'' 400 x0
      | Some req0 \<Rightarrow>
          let out = upstream_request r target req0; x1 = log_upstream h out x0;
              x2 = x1\<lparr>xSent := xSent x1 @ [out], xObserved := xObserved x1 + (if hCol h then 1 else 0)\<rparr>
          in case hClient h out of
              Inl FetchBlocked \<Rightarrow> refuse h ''blocked'' ''destination not permitted'' 403 x2
            | Inl FetchFailed \<Rightarrow> refuse h ''upstream_error'' ''bad gateway'' 502 x2
            | Inr resp \<Rightarrow>
                let nonce = response_nonce e resp; (html, css) = Classify (Get (sHeader resp) ''Content-Type'') in
                if html \<or> css then serveRewritten h e r resp target html nonce x2
                else count h ''ok'' (copy_flushed (sBody resp) (flush (on_writer (WriteHeader (sStatus resp))
                  (stage_headers h e resp target nonce (\<not> sUncompressed resp) x2)))))"

definition proxy_ServeHTTP :: "'s handler \<Rightarrow> 's \<Rightarrow> world \<Rightarrow> request \<Rightarrow> exchange \<Rightarrow> exchange" where
  "proxy_ServeHTTP h s e r x =
     (if (case hEnabled h of None \<Rightarrow> False | Some f \<Rightarrow> \<not> f s) then on_writer http_NotFound x
      else if hRequireToken h \<and> (case hAuthorized h of None \<Rightarrow> True | Some f \<Rightarrow> \<not> f s (accessToken r))
        then refuse h ''unauthorized'' ''access denied'' 403 x
      else case DecodeRequest (EscapedPath (rURL r)) (RawQuery (rURL r)) of
          Inl _ \<Rightarrow> refuse h ''bad_request'' ''invalid proxy target'' 400 x
        | Inr target \<Rightarrow>
            if isSelf h (Hostname target) (rHost r)
              then refuse h ''bad_request'' ''refusing to proxy this proxy'' 400 x
            else if hBlockTelemetry h \<and> isTelemetrySink target then serveTelemetry h r x
            else
              let x = x\<lparr>xReadDeadline := False, xWriteDeadline := False\<rparr> in
              if isWebSocketUpgrade r then serveWebSocket h e r target x
              else serveHTTP h e r target x)"

end
