(* ===== verification/Proxy_Flow.thy ===== *)
theory Proxy_Flow
  imports Proxy_Handler
begin

section \<open>What the proxy handler guarantees\<close>

text \<open>
  Theorems on the whole handler: the gate before anything is sent, the end and the count of every
  request, and what becomes of a text body.
\<close>

subsection \<open>Frames of the pieces\<close>

lemma copy_flushed_simps [simp]:
  "xSent (copy_flushed s x) = xSent x" "xDials (copy_flushed s x) = xDials x"
  "xHandshakes (copy_flushed s x) = xHandshakes x" "xCounts (copy_flushed s x) = xCounts x"
  "xPanic (copy_flushed s x) = xPanic x" "xClientConn (copy_flushed s x) = xClientConn x"
  by (simp_all add: copy_flushed_def)

lemma stage_headers_simps [simp]:
  "xSent (stage_headers h e resp t n k x) = xSent x" "xDials (stage_headers h e resp t n k x) = xDials x"
  "xHandshakes (stage_headers h e resp t n k x) = xHandshakes x"
  "xCounts (stage_headers h e resp t n k x) = xCounts x"
  "xPanic (stage_headers h e resp t n k x) = xPanic x"
  "xClientConn (stage_headers h e resp t n k x) = xClientConn x"
  by (simp_all add: stage_headers_def)

lemma log_upstream_simps [simp]:
  "xSent (log_upstream h q x) = xSent x" "xDials (log_upstream h q x) = xDials x"
  "xHandshakes (log_upstream h q x) = xHandshakes x" "xCounts (log_upstream h q x) = xCounts x"
  "xPanic (log_upstream h q x) = xPanic x" "xClientConn (log_upstream h q x) = xClientConn x"
  "xWriter (log_upstream h q x) = xWriter x"
  by (simp_all add: log_upstream_def split: option.split)

lemma serveTelemetry_frame [simp]:
  "xSent (serveTelemetry h r x) = xSent x" "xDials (serveTelemetry h r x) = xDials x"
  "xHandshakes (serveTelemetry h r x) = xHandshakes x" "xPanic (serveTelemetry h r x) = xPanic x"
  "xClientConn (serveTelemetry h r x) = xClientConn x"
  "xCounts (serveTelemetry h r x) = (if hCol h then xCounts x @ [''telemetry_blocked''] else xCounts x)"
  by (simp_all add: serveTelemetry_def Let_def)

lemma serveRewritten_frame [simp]:
  "xSent (serveRewritten h e r resp t b n x) = xSent x" "xDials (serveRewritten h e r resp t b n x) = xDials x"
  "xHandshakes (serveRewritten h e r resp t b n x) = xHandshakes x"
  "xClientConn (serveRewritten h e r resp t b n x) = xClientConn x"
  by (simp_all add: serveRewritten_def Let_def split: option.splits prod.splits)

lemmas serve_splits = option.splits sum.splits fetch_error.splits prod.splits if_splits

lemma serveHTTP_frame:
  "xSent (serveHTTP h e r t x) = xSent x @ (case NewRequest (rMethod r) (url_String t) of
     None \<Rightarrow> [] | Some q \<Rightarrow> [upstream_request r t q])"
  "xDials (serveHTTP h e r t x) = xDials x" "xHandshakes (serveHTTP h e r t x) = xHandshakes x"
  "xClientConn (serveHTTP h e r t x) = xClientConn x"
  by (simp_all add: serveHTTP_def Let_def split: serve_splits)

lemma serveWebSocket_frame:
  "xSent (serveWebSocket h e r t x) = xSent x"
  "xDials (serveWebSocket h e r t x) = xDials x @ [(DialNetwork (hForceIPv4 h), canonicalHostPort t,
     if Scheme t = ''https'' then Some (Hostname t) else None)]"
  by (auto simp: serveWebSocket_def dialUpstream_def upstreamHandshake_def Let_def split: serve_splits)

subsection \<open>Who gets through\<close>

text \<open>The target a request is allowed to reach.\<close>

definition permitted :: "'s handler \<Rightarrow> 's \<Rightarrow> request \<Rightarrow> url option" where
  "permitted h s r =
     (case DecodeRequest (EscapedPath (rURL r)) (RawQuery (rURL r)) of
        Inl _ \<Rightarrow> None
      | Inr t \<Rightarrow>
          if (case hEnabled h of None \<Rightarrow> True | Some f \<Rightarrow> f s) \<and>
             (\<not> hRequireToken h \<or> (case hAuthorized h of None \<Rightarrow> False | Some f \<Rightarrow> f s (accessToken r))) \<and>
             \<not> isSelf h (Hostname t) (rHost r) \<and> \<not> (hBlockTelemetry h \<and> isTelemetrySink t)
          then Some t else None)"

text \<open>
  C7.  The gate.  Nothing leaves the server for a request that is not permitted: proxy switched on,
  a token that is authorised when one is required, a link that decodes, a target that is neither the
  proxy itself nor a beacon.  A permitted request causes one upstream request or one dial, to the
  decoded target and nowhere else: a dial exactly for an upgrade, with TLS under the target's own
  name exactly for https.
\<close>

theorem forwarding_gate:
  "(xSent (proxy_ServeHTTP h s e r (exchange_of w)), xDials (proxy_ServeHTTP h s e r (exchange_of w))) =
     (case permitted h s r of
        None \<Rightarrow> ([], [])
      | Some t \<Rightarrow>
          if isWebSocketUpgrade r
          then ([], [(DialNetwork (hForceIPv4 h), canonicalHostPort t,
                      if Scheme t = ''https'' then Some (Hostname t) else None)])
          else (case NewRequest (rMethod r) (url_String t) of
                  None \<Rightarrow> [] | Some q \<Rightarrow> [upstream_request r t q], []))"
  by (auto simp: proxy_ServeHTTP_def permitted_def Let_def serveHTTP_frame serveWebSocket_frame
      split: option.splits sum.splits)

subsection \<open>Every request is answered and counted once\<close>

lemma wSent_copy_flush [simp]: "wSent (xWriter (copy_flushed s (flush x))) = wSent (xWriter (flush x))"
  by (simp add: copy_flushed_def)

lemma sent_Error [simp]: "wSent (http_Error m n w) \<noteq> None"
  by (simp add: http_Error_def)

lemma sent_Error_Some [simp]: "\<exists>a b. wSent (http_Error m n w) = Some (a, b)"
  by (simp add: http_Error_def)

lemma writer_record_simps [simp]: "wSent (w\<lparr>wHeader := hs\<rparr>) = wSent w" by simp

definition answered :: "exchange \<Rightarrow> bool" where
  "answered x \<longleftrightarrow> xPanic x \<or> xClientConn x \<noteq> None \<or> wSent (xWriter x) \<noteq> None"

text \<open>A run that began with the outcomes \<open>cs\<close> has ended as \<open>y\<close>.\<close>

definition finished :: "'s handler \<Rightarrow> string list \<Rightarrow> exchange \<Rightarrow> bool" where
  "finished h cs y \<longleftrightarrow> answered y \<and>
     length (xCounts y) = length cs + (if hCol h \<and> \<not> xPanic y then 1 else 0)"

lemma finished_refuse: "\<not> xPanic x \<Longrightarrow> finished h (xCounts x) (refuse h c m n x)"
  by (simp add: finished_def answered_def)

lemma finished_count:
  "\<not> xPanic x \<Longrightarrow> wSent (xWriter x) \<noteq> None \<Longrightarrow> finished h (xCounts x) (count h c x)"
  by (simp add: finished_def answered_def)

lemma serveRewritten_done:
  "\<not> xPanic x \<Longrightarrow> finished h (xCounts x) (serveRewritten h e r resp t b n x)"
  by (simp add: serveRewritten_def finished_def answered_def Let_def split: option.splits prod.splits)

lemma serveHTTP_done:
  assumes "\<not> xPanic x"
  shows "finished h (xCounts x) (serveHTTP h e r t x)"
proof (cases "NewRequest (rMethod r) (url_String t)")
  case None
  with assms show ?thesis by (simp add: serveHTTP_def finished_refuse)
next
  case (Some q)
  let ?out = "upstream_request r t q" let ?x1 = "log_upstream h ?out x"
  let ?x2 = "?x1\<lparr>xSent := xSent ?x1 @ [?out], xObserved := xObserved ?x1 + (if hCol h then 1 else 0)\<rparr>"
  have x2: "\<not> xPanic ?x2" "xCounts ?x2 = xCounts x" using assms by simp_all
  have eq: "serveHTTP h e r t x = (case hClient h ?out of
      Inl FetchBlocked \<Rightarrow> refuse h ''blocked'' ''destination not permitted'' 403 ?x2
    | Inl FetchFailed \<Rightarrow> refuse h ''upstream_error'' ''bad gateway'' 502 ?x2
    | Inr resp \<Rightarrow> let nonce = response_nonce e resp; (html, css) = Classify (Get (sHeader resp) ''Content-Type'') in
        if html \<or> css then serveRewritten h e r resp t html nonce ?x2
        else count h ''ok'' (copy_flushed (sBody resp) (flush (on_writer (WriteHeader (sStatus resp))
          (stage_headers h e resp t nonce (\<not> sUncompressed resp) ?x2)))))"
    unfolding serveHTTP_def Some option.case Let_def ..
  show ?thesis
  proof (cases "hClient h ?out")
    case (Inl err)
    show ?thesis unfolding eq Inl using finished_refuse [OF x2(1)] x2(2)
      by (cases err) (simp_all only: sum.case fetch_error.case)
  next
    case (Inr resp)
    obtain html css where c: "Classify (Get (sHeader resp) ''Content-Type'') = (html, css)" by fastforce
    show ?thesis
    proof (cases "html \<or> css")
      case True
      show ?thesis using serveRewritten_done [OF x2(1)] True x2(2)
        by (simp only: eq Inr c sum.case Let_def prod.case if_True)
    next
      case False
      let ?y = "copy_flushed (sBody resp) (flush (on_writer (WriteHeader (sStatus resp))
        (stage_headers h e resp t (response_nonce e resp) (\<not> sUncompressed resp) ?x2)))"
      have "finished h (xCounts ?y) (count h ''ok'' ?y)" using x2(1) by (intro finished_count) simp_all
      moreover have "xCounts ?y = xCounts x" using x2(2) by simp
      ultimately show ?thesis by (simp only: eq Inr c sum.case Let_def prod.case False if_False)
    qed
  qed
qed

lemma writeClientHandshake_not_Nil [simp]: "writeClientHandshake hdr \<noteq> []"
  by (simp add: writeClientHandshake_def)

lemma serveWebSocket_done:
  "\<not> xPanic x \<Longrightarrow> xClientConn x = None \<Longrightarrow> answered (serveWebSocket h e r t x) \<and>
   \<not> xPanic (serveWebSocket h e r t x) \<and>
   length (xCounts (serveWebSocket h e r t x)) = length (xCounts x) +
     (if hCol h \<and> xClientConn (serveWebSocket h e r t x) \<noteq> Some [] then 1 else 0)"
  by (auto simp: serveWebSocket_def dialUpstream_def upstreamHandshake_def answered_def Let_def split: serve_splits)

text \<open>Past the switch and the token, what is not permitted is refused or answered empty.\<close>

abbreviation switched_off :: "'s handler \<Rightarrow> 's \<Rightarrow> bool" where
  "switched_off h s \<equiv> case hEnabled h of None \<Rightarrow> False | Some f \<Rightarrow> \<not> f s"

abbreviation token_missing :: "'s handler \<Rightarrow> 's \<Rightarrow> request \<Rightarrow> bool" where
  "token_missing h s r \<equiv> hRequireToken h \<and> (case hAuthorized h of None \<Rightarrow> True | Some f \<Rightarrow> \<not> f s (accessToken r))"

lemma not_permitted_done:
  assumes "\<not> switched_off h s" "\<not> token_missing h s r" "permitted h s r = None"
  shows "finished h [] (proxy_ServeHTTP h s e r (exchange_of w)) \<and>
    xClientConn (proxy_ServeHTTP h s e r (exchange_of w)) = None"
proof -
  have en: "case hEnabled h of None \<Rightarrow> True | Some f \<Rightarrow> f s"
    "\<not> hRequireToken h \<or> (case hAuthorized h of None \<Rightarrow> False | Some f \<Rightarrow> f s (accessToken r))"
    using assms by (auto split: option.splits)
  note unf = proxy_ServeHTTP_def if_not_P [OF assms(1)] if_not_P [OF assms(2)]
  show ?thesis
  proof (cases "DecodeRequest (EscapedPath (rURL r)) (RawQuery (rURL r))")
    case (Inl err)
    then show ?thesis using finished_refuse [of "exchange_of w" h] by (simp add: unf)
  next
    case (Inr t)
    then consider "isSelf h (Hostname t) (rHost r)"
      | "\<not> isSelf h (Hostname t) (rHost r)" "hBlockTelemetry h \<and> isTelemetrySink t"
      using assms(3) en by (auto simp: permitted_def split: if_splits)
    then show ?thesis
    proof cases
      case 1
      with Inr show ?thesis using finished_refuse [of "exchange_of w" h] by (simp add: unf)
    next
      case 2
      with Inr show ?thesis by (simp add: unf finished_def answered_def serveTelemetry_def Let_def)
    qed
  qed
qed

lemma permitted_served:
  assumes "\<not> switched_off h s" "\<not> token_missing h s r" "permitted h s r = Some t"
  shows "proxy_ServeHTTP h s e r x =
    (let y = x\<lparr>xReadDeadline := False, xWriteDeadline := False\<rparr> in
     if isWebSocketUpgrade r then serveWebSocket h e r t y else serveHTTP h e r t y)"
  using assms(3) unfolding proxy_ServeHTTP_def if_not_P [OF assms(1)] if_not_P [OF assms(2)]
  by (auto simp: permitted_def Let_def split: sum.splits if_splits)

text \<open>
  C25.  Every request ends: a response is sent, the connection has been taken over by a tunnel, or
  the bootstrap's insertion panicked.  Its outcome is counted exactly once, except that nothing is
  counted when the proxy is switched off, after a panic, or when the client is gone before the reply
  to its upgrade is written.
\<close>

theorem answered_and_counted:
  "let x = proxy_ServeHTTP h s e r (exchange_of w) in
     answered x \<and>
     length (xCounts x) =
       (if hCol h
        then if switched_off h s \<or> xPanic x \<or> xClientConn x = Some [] then 0 else 1
        else 0)"
proof -
  let ?x = "proxy_ServeHTTP h s e r (exchange_of w)"
  let ?y = "(exchange_of w)\<lparr>xReadDeadline := False, xWriteDeadline := False\<rparr>"
  have y: "\<not> xPanic ?y" "xClientConn ?y = None" "xCounts ?y = []" by (simp_all add: exchange_of_def)
  note http = serveHTTP_done [OF y(1), of h e r] and ws = serveWebSocket_done [OF y(1,2), of h e r]
  have conn: "xClientConn (serveHTTP h e r t ?y) = None" for t using y(2) by (simp add: serveHTTP_frame)
  have goal: ?thesis if "\<not> switched_off h s" "finished h [] ?x" "xClientConn ?x \<noteq> Some []"
    using that by (simp add: finished_def Let_def)
  consider (off) "switched_off h s" | (deny) "\<not> switched_off h s" "token_missing h s r"
    | (refused) "\<not> switched_off h s" "\<not> token_missing h s r" "permitted h s r = None"
    | (served) t where "\<not> switched_off h s" "\<not> token_missing h s r" "permitted h s r = Some t" by blast
  then show ?thesis
  proof cases
    case off
    then show ?thesis
      unfolding proxy_ServeHTTP_def if_P [OF off] by (simp add: answered_def http_NotFound_def)
  next
    case deny
    then show ?thesis
      unfolding proxy_ServeHTTP_def if_not_P [OF deny(1)] if_P [OF deny(2)] by (auto simp: answered_def)
  next
    case refused
    show ?thesis using goal [OF refused(1)] not_permitted_done [OF refused, of e w] by simp
  next
    case served
    show ?thesis using goal [OF served(1)] ws [of t] http [of t] conn [of t] served(1) y(3)
      by (cases "isWebSocketUpgrade r") (simp_all add: permitted_served [OF served] Let_def)
  qed
qed

subsection \<open>Text bodies\<close>

lemma hdr_values_hset [simp]: "hdr_values (wHeader (hset k v w)) j = (if j = CanonicalHeaderKey k then [v] else hdr_values (wHeader w) j)"
  by simp

lemma wHeader_stage: "wHeader (xWriter (stage_headers h e resp t n k x)) =
    copyResponseHeaders (eExpires e) (hSecure h) (wHeader (xWriter x)) (sHeader resp) t n k"
  "wSent (xWriter (stage_headers h e resp t n k x)) = wSent (xWriter x)"
  "wBody (xWriter (stage_headers h e resp t n k x)) = wBody (xWriter x)"
  by (simp_all add: stage_headers_def)

lemma wBody_copy_flushed: "wBody (xWriter (copy_flushed s x)) = wBody (xWriter x) @ sData s"
  by (simp add: copy_flushed_def)

lemma wrap64_id: "- (2 ^ 63) \<le> i \<Longrightarrow> i < 2 ^ 63 \<Longrightarrow> wrap64 i = i"
  by (simp add: wrap64_def)

text \<open>What is asked of the settings and the response: see the theorem.\<close>

definition text_response :: "'s handler \<Rightarrow> response \<Rightarrow> bool" where
  "text_response h resp \<longleftrightarrow> 0 < hRewriteMax h \<and> hRewriteMax h < 2 ^ 63 - 1 \<and> \<not> sFailed (sBody resp) \<and> hdr_ok (sHeader resp)"

text \<open>
  C19.  Text bodies are delivered whole.  Within the limit the browser gets the rewritten document,
  with the bootstrap where it belongs, under its own exact \<open>Content-Length\<close>; a longer one is never
  cut: its first bytes, with the bootstrap, and all of the rest follow unrewritten, and no length is
  claimed.  The status is the target's.
\<close>

theorem rewritten_response:
  assumes "text_response h resp" "xWriter x = fresh_writer"
    "\<not> xPanic x" "\<not> xPanic (serveRewritten h e r resp t html n x)"
  shows "let w = xWriter (serveRewritten h e r resp t html n x); data = sData (sBody resp); max = nat (hRewriteMax h) in
    case wSent w of
      None \<Rightarrow> False
    | Some (status, hs) \<Rightarrow> status = sStatus resp \<and>
        (if length data \<le> max
         then hdr_values hs ''Content-Length'' = [itoa (length (wBody w))] \<and>
              inject_html h r html n (if html then HTML t data else CSS t data) = Some (wBody w)
         else hdr_values hs ''Content-Length'' = [] \<and>
              map_option (\<lambda>p. p @ drop (max + 1) data) (inject_html h r html n (take (max + 1) data)) = Some (wBody w))"
proof -
  let ?data = "sData (sBody resp)" let ?max = "nat (hRewriteMax h)"
  have m: "0 < hRewriteMax h" "hRewriteMax h < 2 ^ 63 - 1" and f: "\<not> sFailed (sBody resp)"
    and ok: "hdr_ok (sHeader resp)"
    using assms(1) by (simp_all add: text_response_def)
  have "wrap64 (hRewriteMax h + 1) = hRewriteMax h + 1" using m by (intro wrap64_id) simp_all
  then have lim: "nat (wrap64 (hRewriteMax h + 1)) = ?max + 1" using m by simp
  have w: "wSent (xWriter x) = None" "wBody (xWriter x) = []" "wHeader (xWriter x) = []"
    using assms(2) by (simp_all add: fresh_writer_def)
  have cl: "CanonicalHeaderKey ''Content-Length'' = ''Content-Length''" by code_simp
  have none: "hdr_values (copyResponseHeaders ex sec [] (sHeader resp) t n False) ''Content-Length'' = []" for ex sec
  proof -
    have "hdr_values [] j = []" for j by (simp add: hdr_values_def)
    then show ?thesis
      by (simp add: copyResponseHeaders_values [OF ok] response_values_def Let_def split: option.split)
  qed
  show ?thesis
  proof (cases "length ?data \<le> ?max")
    case True
    then have "read_limited (wrap64 (hRewriteMax h + 1)) (sBody resp) = (Some ?data, (sBody resp)\<lparr>sData := []\<rparr>)"
      using f by (simp add: read_limited_def lim)
    moreover have "\<not> hRewriteMax h < int (length ?data)" using True m by linarith
    ultimately show ?thesis
      using assms(3,4) w True cl
      by (cases html) (simp_all add: serveRewritten_def Let_def wHeader_stage del: hdr_values_hset split: option.splits)
  next
    case False
    then have "?max + 1 \<le> length ?data" by simp
    then have "read_limited (wrap64 (hRewriteMax h + 1)) (sBody resp) =
        (Some (take (?max + 1) ?data), (sBody resp)\<lparr>sData := drop (?max + 1) ?data\<rparr>)"
      by (simp only: read_limited_def lim if_True)
    moreover have "hRewriteMax h < int (length (take (?max + 1) ?data))" using False m by simp
    ultimately show ?thesis
      using assms(3,4) w False none
      by (cases html) (simp_all add: serveRewritten_def Let_def wHeader_stage wBody_copy_flushed split: option.splits)
  qed
qed

text \<open>
  The largest limit that the configuration accepts loses every page: the sum with one wraps
  around, nothing is read, and the response is the rewriting of an empty document.
\<close>

theorem rewrite_limit_overflow:
  assumes "hRewriteMax h = 2 ^ 63 - 1"
  shows "serveRewritten h e r resp t html n x = serveRewritten h e r (resp\<lparr>sBody := \<lparr>sData = [], sFailed = False\<rparr>\<rparr>) t html n x"
proof -
  have lim: "wrap64 (hRewriteMax h + 1) = - (2 ^ 63)" by (simp add: assms wrap64_def)
  have rd: "read_limited (- (2 ^ 63)) s = (Some [], s)" for s by (simp add: read_limited_def)
  have n: "\<not> hRewriteMax h < int (length [])" by (simp add: assms)
  have ss: "sStatus (resp\<lparr>sBody := b\<rparr>) = sStatus resp" for b by simp
  have st: "stage_headers h e (resp\<lparr>sBody := b\<rparr>) = stage_headers h e resp" for b
    by (intro ext) (simp add: stage_headers_def)
  show ?thesis unfolding serveRewritten_def lim rd prod.case option.case if_not_P [OF n] st ss ..
qed

definition plain_handler :: "int \<Rightarrow> unit handler" where
  "plain_handler limit =
     \<lparr>hClient = (\<lambda>_. Inl FetchFailed), hCol = True, hRewriteMax = limit, hInject = None, hEnabled = None,
      hForceIPv4 = True, hRequireToken = False, hAuthorized = None, hSecure = True, hSelfHosts = [],
      hLogUpstream = [], hBlockTelemetry = True\<rparr>"

definition quiet_world :: world where
  "quiet_world = \<lparr>eRandom = None, eExpires = (\<lambda>_. None), eDial = (\<lambda>_ _. Inl FetchFailed), eUpgrade = (\<lambda>_. None),
     eHijack = False, eClientOpen = False\<rparr>"

definition css_response :: "bytes \<Rightarrow> response" where
  "css_response data = \<lparr>sStatus = 200, sHeader = [(''Content-Type'', [''text/css'']), (''Content-Length'', [''9''])],
     sUncompressed = False, sBody = \<lparr>sData = data, sFailed = False\<rparr>\<rparr>"

lemma plain_css:
  "inject_html (plain_handler m) r html n b = Some b" "\<not> xPanic (exchange_of w)"
  "read_limited 6 \<lparr>sData = ''p{}'', sFailed = False\<rparr> = (Some ''p{}'', \<lparr>sData = [], sFailed = False\<rparr>)"
  by (simp_all add: inject_html_def plain_handler_def exchange_of_def read_limited_def)

theorem rewritten_response_witness:
  "hdr_values (snd (the (wSent (xWriter (serveRewritten (plain_handler 5) quiet_world sample_request (css_response ''p{}'')
     sample_target False [] (exchange_of fresh_writer)))))) ''Content-Length'' = [''3'']"
proof -
  let ?h = "plain_handler 5" let ?x = "exchange_of fresh_writer"
  let ?y = "serveRewritten ?h quiet_world sample_request (css_response ''p{}'') sample_target False [] ?x"
  have css: "CSS sample_target ''p{}'' = ''p{}''" by code_simp
  have hdr: "hdr_ok (sHeader (css_response ''p{}''))" unfolding css_response_def by code_simp
  then have t: "text_response ?h (css_response ''p{}'')"
    by (simp add: text_response_def css_response_def plain_handler_def)
  have facts: "hRewriteMax ?h = 5" "wrap64 (5 + 1) = 6" "\<not> 5 < int (length ''p{}'')"
    "sBody (css_response ''p{}'') = \<lparr>sData = ''p{}'', sFailed = False\<rparr>"
    by (simp_all add: plain_handler_def wrap64_def css_response_def)
  have "?y = count ?h ''ok'' (on_writer (Write ''p{}'') (on_writer (WriteHeader (sStatus (css_response ''p{}'')))
      (on_writer (hset ''Content-Length'' (itoa (length ''p{}'')))
        (stage_headers ?h quiet_world (css_response ''p{}'') sample_target [] False ?x))))"
    unfolding serveRewritten_def facts plain_css prod.case option.case if_not_P [OF facts(3)] css if_False ..
  then have np: "\<not> xPanic ?y" and body: "wBody (xWriter ?y) = ''p{}''"
    by (simp_all only: exchange_simps stage_headers_simps exchange_of_simps wHeader_stage writer_simps)
      (simp_all add: fresh_writer_def)
  have "itoa (Suc (Suc (Suc 0))) = ''3''" by code_simp
  with rewritten_response [OF t _ plain_css(2) np] body show ?thesis
    by (auto simp: css_response_def plain_handler_def Let_def split: option.splits)
qed

theorem rewrite_limit_overflow_witness:
  "serveRewritten (plain_handler (2 ^ 63 - 1)) quiet_world sample_request (css_response ''p{}'') sample_target False []
     (exchange_of fresh_writer) =
   serveRewritten (plain_handler (2 ^ 63 - 1)) quiet_world sample_request (css_response []) sample_target False []
     (exchange_of fresh_writer)"
proof -
  have "hRewriteMax (plain_handler (2 ^ 63 - 1)) = 2 ^ 63 - 1" by (simp add: plain_handler_def)
  from rewrite_limit_overflow [OF this, of quiet_world sample_request "css_response ''p{}''"] show ?thesis
    by (simp add: css_response_def)
qed

text \<open>
  Two spellings of the deployment's own name are not recognised: with a final dot, and an IPv6
  address whose \<open>Host\<close> carries no port.
\<close>

theorem self_not_recognised:
  "\<not> isSelf (plain_handler m) ''proxy.test.'' ''proxy.test'' \<and> \<not> isSelf (plain_handler m) ''2001:db8::1'' ''[2001:db8::1]''"
proof -
  have "hSelfHosts (plain_handler m) = []" by (simp add: plain_handler_def)
  moreover have "net_SplitHostPort ''proxy.test'' = None" "net_SplitHostPort ''[2001:db8::1]'' = None" by code_simp+
  moreover have "\<not> equal_fold ''proxy.test.'' ''proxy.test''" "\<not> equal_fold ''2001:db8::1'' ''[2001:db8::1]''" by code_simp+
  ultimately show ?thesis by (simp add: isSelf_def)
qed

end
