(* ===== verification/Webengine.thy ===== *)
theory Webengine
  imports Cookies Html_Scan Go_Utf8
begin

section \<open>Runtime assets and the bootstrap (internal/webengine)\<close>

text \<open>
  The script block put into proxied documents, the handler of the runtime's files and the endpoint
  that stores an access token as a cookie.  The embedded files are the parameter \<open>assets\<close> and
  \<open>http.ServeContent\<close>, which adds range and conditional requests, the parameter \<open>serve_content\<close>.
\<close>

definition engine_Prefix :: string where
  "engine_Prefix = ''/__bumshi__/''"

definition bootstrapAssets :: "string list" where
  "bootstrapAssets = [''codec.js'', ''rewriter.js'', ''client.js'']"

definition buildBootstrap :: "string \<Rightarrow> bytes" where
  "buildBootstrap nonce =
     (let attr = (if nonce \<noteq> [] then '' nonce='' @ [quote_char] @ nonce @ [quote_char] else []) in
      concat (map (\<lambda>name. ''<script'' @ attr @ '' src='' @ [quote_char] @ engine_Prefix @ name @ [quote_char] @ ''></script>'')
        bootstrapAssets))"

subsection \<open>bytes.ToLower\<close>

text \<open>
  Go lower-cases ASCII text byte by byte and any other text rune by rune: an invalid byte decodes
  to U+FFFD, which is written back as three bytes.  The case table of Unicode is the parameter
  \<open>lower\<close>.
\<close>

function map_runes :: "(nat \<Rightarrow> nat) \<Rightarrow> bytes \<Rightarrow> bytes" where
  "map_runes lower [] = []"
| "map_runes lower (a # s) =
     (let (r, n) = decode_rune a s in utf8 (lower r) @ map_runes lower (drop n (a # s)))"
  by pat_completeness auto
termination
proof (relation "measure (\<lambda>(_, s). length s)", goal_cases)
  case (2 lower a s x r n)
  then have "0 < n" using decode_rune_pos [of a s] by (metis snd_conv)
  then show ?case by simp
qed simp

declare map_runes.simps(2) [simp del]

definition bytes_ToLower :: "(nat \<Rightarrow> nat) \<Rightarrow> bytes \<Rightarrow> bytes" where
  "bytes_ToLower lower s = (if is_ascii s then to_lower s else map_runes lower s)"

subsection \<open>Inserting the bootstrap\<close>

definition head_delim :: "char \<Rightarrow> bool" where
  "head_delim c \<longleftrightarrow> c = CHR ''>'' \<or> c = CHR ''/'' \<or> c = CHR '' '' \<or> byte c = 9 \<or> byte c = 10 \<or> byte c = 12 \<or> byte c = 13"

text \<open>
  The search runs over the lower-cased copy and indexes the original: \<open>None\<close> is the panic of an
  index out of range, \<open>Some None\<close> the result \<open>-1\<close>.
\<close>

function headOpenTag_loop :: "bytes \<Rightarrow> bytes \<Rightarrow> nat \<Rightarrow> nat option option" where
  "headOpenTag_loop body low from =
     (case index_str (drop from low) ''<head'' of
        None \<Rightarrow> Some None
      | Some k \<Rightarrow>
          let i = k + from; e = i + length ''<head'' in
          if e = length body then Some None
          else if length body < e then None
          else if head_delim (body ! e) then Some (Some i)
          else headOpenTag_loop body low e)"
  by pat_completeness auto
termination
  by (relation "measure (\<lambda>(_, low, from). length low - from)") (auto dest!: index_str_Some_bound)

declare headOpenTag_loop.simps [simp del]

definition headOpenTag :: "(nat \<Rightarrow> nat) \<Rightarrow> bytes \<Rightarrow> nat option option" where
  "headOpenTag lower body = headOpenTag_loop body (bytes_ToLower lower body) 0"

definition Inject :: "(nat \<Rightarrow> nat) \<Rightarrow> bytes \<Rightarrow> string \<Rightarrow> bytes option" where
  "Inject lower body nonce =
     (let boot = buildBootstrap nonce in
      case headOpenTag lower body of
        None \<Rightarrow> None
      | Some None \<Rightarrow> Some (boot @ body)
      | Some (Some idx) \<Rightarrow>
          (case index_byte (drop idx body) CHR ''>'' of
             None \<Rightarrow> Some (boot @ body)
           | Some gt \<Rightarrow> let pos = idx + gt + 1 in Some (take pos body @ boot @ drop pos body)))"

subsection \<open>Handlers\<close>

text \<open>\<open>URL.Query().Get\<close>: the first value of a key in a query string.\<close>

fun query_unescape :: "string \<Rightarrow> string option" where
  "query_unescape [] = Some []"
| "query_unescape (c # s) =
     (if c = CHR ''%'' then
        (case s of
           h # l # r \<Rightarrow>
             if is_hex h \<and> is_hex l then map_option (\<lambda>t. char_of (unhex h * 16 + unhex l) # t) (query_unescape r)
             else None
         | _ \<Rightarrow> None)
      else map_option (\<lambda>t. (if c = CHR ''+'' then CHR '' '' else c) # t) (query_unescape s))"

definition query_pair :: "string \<Rightarrow> (string \<times> string) list" where
  "query_pair part =
     (if List.member part CHR '';'' \<or> part = [] then []
      else let (k, v, _) = cut_byte CHR ''='' part in
        case query_unescape k of None \<Rightarrow> []
        | Some k \<Rightarrow> (case query_unescape v of None \<Rightarrow> [] | Some v \<Rightarrow> [(k, v)]))"

definition query_Get :: "string \<Rightarrow> string \<Rightarrow> string" where
  "query_Get query key =
     (case map_of (concat (map query_pair (split_byte CHR ''&'' query))) key of None \<Rightarrow> [] | Some v \<Rightarrow> v)"

definition AuthPath :: string where
  "AuthPath = engine_Prefix @ ''auth''"

definition access_cookie_of :: "bool \<Rightarrow> string \<Rightarrow> cookie" where
  "access_cookie_of secure tok =
     \<lparr>cName = ''bumshi_access'', cValue = tok, cQuoted = False, cPath = ''/'', cDomain = [], cExpires = None,
      cMaxAge = 400 * 24 * 60 * 60, cSecure = secure, cHttpOnly = True\<rparr>"

definition AuthHandler :: "bool \<Rightarrow> request \<Rightarrow> writer \<Rightarrow> writer" where
  "AuthHandler secure r w =
     (let tok = query_Get (RawQuery (rURL r)) ''t'' in
      if tok = [] then http_Error ''missing token'' 400 w
      else http_Redirect r ''/'' 303
        (w\<lparr>wHeader := Add_hdr ''Set-Cookie'' (cookie_String_lax (access_cookie_of secure tok)) (wHeader w)\<rparr>))"

definition engine_Handler :: "(string \<Rightarrow> bytes option) \<Rightarrow> (request \<Rightarrow> string \<Rightarrow> bytes \<Rightarrow> writer \<Rightarrow> writer)
    \<Rightarrow> request \<Rightarrow> writer \<Rightarrow> writer" where
  "engine_Handler assets serve_content r w =
     (let name = trim_prefix (Path (rURL r)) engine_Prefix in
      if name = [] \<or> contains_any name [CHR ''/'', CHR 0x5C] then http_NotFound w
      else case assets name of
          None \<Rightarrow> http_NotFound w
        | Some data \<Rightarrow>
            let w1 = hset ''Cache-Control'' ''no-cache'' (hset ''Content-Type'' ''text/javascript; charset=utf-8'' w);
                w2 = (if name = ''sw.js'' then hset ''Service-Worker-Allowed'' ''/'' w1 else w1)
            in serve_content r name data w2)"

subsection \<open>The insertion point\<close>

text \<open>A \<open><head>\<close> tag: the name in any case and a byte that ends it.\<close>

definition head_tag_at :: "bytes \<Rightarrow> nat \<Rightarrow> bool" where
  "head_tag_at body i \<longleftrightarrow>
     i + 5 < length body \<and> equal_fold (take 5 (drop i body)) ''<head'' \<and> head_delim (body ! (i + 5))"

definition first_head_tag :: "bytes \<Rightarrow> nat option" where
  "first_head_tag body = List.find (head_tag_at body) [0..<length body]"

text \<open>After the first tag, or at the start when there is none or it is not closed.\<close>

definition inject_at :: "bytes \<Rightarrow> nat" where
  "inject_at body =
     (case first_head_tag body of
        None \<Rightarrow> 0
      | Some i \<Rightarrow> (case index_byte (drop i body) CHR ''>'' of None \<Rightarrow> 0 | Some g \<Rightarrow> i + g + 1))"

lemma head_prefix_iff:
  "equal_fold (take 5 (drop i body)) ''<head'' \<longleftrightarrow> prefix ''<head'' (drop i (to_lower body))"
proof -
  have low: "to_lower ''<head'' = ''<head''" by code_simp
  have len: "length ''<head'' = 5" by simp
  show ?thesis unfolding equal_fold_def low to_lower_take to_lower_drop prefix_take_iff len ..
qed

text \<open>Inside a match there is no second one, so the search may go on behind it.\<close>

lemma head_no_overlap:
  assumes "prefix ''<head'' (drop i low)" "i < j" "j < i + 5"
  shows "\<not> prefix ''<head'' (drop j low)"
proof
  assume j: "prefix ''<head'' (drop j low)"
  obtain r where r: "drop i low = ''<head'' @ r" using assms(1) by (auto simp: prefix_def)
  obtain k where k: "j = i + k" "0 < k" "k < 5" using assms(2,3) less_imp_add_positive by (metis nat_add_left_cancel_less)
  have "drop j low = drop k (''<head'' @ r)" by (metis add.commute drop_drop k(1) r)
  moreover have "k \<in> {1, 2, 3, 4}" using k by auto
  ultimately show False using j by (auto simp: eval_nat_numeral)
qed

lemma headOpenTag_loop_spec:
  assumes "from \<le> length body"
  shows "\<exists>r. headOpenTag_loop body (to_lower body) from = Some r \<and>
    (case r of
       None \<Rightarrow> \<forall>j\<ge>from. \<not> head_tag_at body j
     | Some i \<Rightarrow> from \<le> i \<and> head_tag_at body i \<and> (\<forall>j\<ge>from. j < i \<longrightarrow> \<not> head_tag_at body j))"
  using assms
proof (induction body "to_lower body" "from" rule: headOpenTag_loop.induct)
  case (1 body "from")
  let ?low = "to_lower body"
  show ?case
  proof (cases "index_str (drop from ?low) ''<head''")
    case None
    have "\<not> head_tag_at body j" if "from \<le> j" for j
      using index_str_None [OF None, of "j - from"] that by (simp add: head_tag_at_def head_prefix_iff)
    with None show ?thesis by (subst headOpenTag_loop.simps) simp
  next
    case (Some k)
    let ?i = "k + from" let ?e = "k + from + 5"
    have at: "prefix ''<head'' (drop ?i ?low)" and bound: "?e \<le> length body"
      using index_str_SomeD [OF Some] index_str_Some_bound [OF Some] "1.prems" by (simp_all add: add.commute)
    have before: "\<not> head_tag_at body j" if "from \<le> j" "j < ?i" for j
      using index_str_first [OF Some, of "j - from"] that by (simp add: head_tag_at_def head_prefix_iff)
    have inside: "\<not> head_tag_at body j" if "?i < j" "j < ?e" for j
      using head_no_overlap [OF at, of j] that by (simp add: head_tag_at_def head_prefix_iff)
    have eq: "headOpenTag_loop body ?low from =
        (if ?e = length body then Some None
         else if head_delim (body ! ?e) then Some (Some ?i) else headOpenTag_loop body ?low ?e)"
      using bound Some by (subst headOpenTag_loop.simps) (simp add: Let_def eval_nat_numeral)
    consider "?e = length body" | "?e < length body" "head_delim (body ! ?e)"
      | "?e < length body" "\<not> head_delim (body ! ?e)" using bound by linarith
    then show ?thesis
    proof cases
      case 1
      have "\<not> head_tag_at body j" if "from \<le> j" for j
      proof (cases "j < ?i")
        case False
        then have "\<not> j + 5 < length body" using 1 by linarith
        then show ?thesis by (simp add: head_tag_at_def)
      qed (use before that in blast)
      with 1 show ?thesis by (simp add: eq)
    next
      case 2
      then have "head_tag_at body ?i" using at by (simp add: head_tag_at_def head_prefix_iff)
      with 2 before show ?thesis by (simp add: eq)
    next
      case 3
      have "\<not> head_tag_at body ?i" using 3 by (simp add: head_tag_at_def)
      then have none: "\<not> head_tag_at body j" if "from \<le> j" "j < ?e" for j
        using that before inside by (metis linorder_neqE_nat)
      have "\<exists>r. headOpenTag_loop body ?low ?e = Some r \<and>
        (case r of
           None \<Rightarrow> \<forall>j\<ge>?e. \<not> head_tag_at body j
         | Some i \<Rightarrow> ?e \<le> i \<and> head_tag_at body i \<and> (\<forall>j\<ge>?e. j < i \<longrightarrow> \<not> head_tag_at body j))"
        by (rule "1.hyps" [OF Some refl]) (use 3 bound in simp_all)
      then obtain r where r: "headOpenTag_loop body ?low ?e = Some r"
        "case r of None \<Rightarrow> \<forall>j\<ge>?e. \<not> head_tag_at body j
         | Some i \<Rightarrow> ?e \<le> i \<and> head_tag_at body i \<and> (\<forall>j\<ge>?e. j < i \<longrightarrow> \<not> head_tag_at body j)" by blast
      have "case r of None \<Rightarrow> \<forall>j\<ge>from. \<not> head_tag_at body j
         | Some i \<Rightarrow> from \<le> i \<and> head_tag_at body i \<and> (\<forall>j\<ge>from. j < i \<longrightarrow> \<not> head_tag_at body j)"
        using r(2) none by (cases r) (auto, (meson not_le)+)
      with r(1) 3 show ?thesis by (simp add: eq)
    qed
  qed
qed

lemma headOpenTag_ascii: "is_ascii body \<Longrightarrow> headOpenTag lower body = Some (first_head_tag body)"
proof -
  assume "is_ascii body"
  then obtain r where r: "headOpenTag lower body = Some r"
    "case r of None \<Rightarrow> \<forall>j\<ge>0. \<not> head_tag_at body j
     | Some i \<Rightarrow> 0 \<le> i \<and> head_tag_at body i \<and> (\<forall>j\<ge>0. j < i \<longrightarrow> \<not> head_tag_at body j)"
    using headOpenTag_loop_spec [of 0 body] by (auto simp: headOpenTag_def bytes_ToLower_def)
  have len: "head_tag_at body i \<Longrightarrow> i < length body" for i by (simp add: head_tag_at_def)
  have "first_head_tag body = r"
  proof (cases r)
    case None
    with r(2) show ?thesis by (simp add: first_head_tag_def find_None_iff)
  next
    case (Some i)
    then have "head_tag_at body i" "\<forall>j<i. \<not> head_tag_at body j" using r(2) by auto
    then show ?thesis
      unfolding Some first_head_tag_def find_Some_iff
      by (intro exI [of _ i]) (metis add_0 diff_zero length_upt len less_trans nth_upt)
  qed
  with r(1) show ?thesis by simp
qed

text \<open>
  C39.  On an ASCII document the bootstrap is inserted, with nothing else changed, right behind the
  first complete \<open><head>\<close> tag in any case, never behind a \<open><header>\<close>, and at the very start when
  there is no such tag; the position does not depend on Unicode tables.
\<close>

theorem Inject_ascii:
  assumes "is_ascii body"
  shows "Inject lower body nonce =
    Some (take (inject_at body) body @ buildBootstrap nonce @ drop (inject_at body) body)"
  by (simp add: Inject_def headOpenTag_ascii [OF assms] inject_at_def Let_def del: index_byte_None split: option.split)

definition sample_page :: bytes where
  "sample_page = ''<header><HEAD x>''"

theorem Inject_ascii_witness:
  "Inject id sample_page [] = Some (''<header><HEAD x>'' @ buildBootstrap [] @ [])"
proof -
  have "is_ascii sample_page" "inject_at sample_page = 16" unfolding sample_page_def by code_simp+
  with Inject_ascii [of sample_page id "[]"] show ?thesis by (simp add: sample_page_def)
qed

text \<open>
  Bytes that are not UTF-8 in front of the tag make the lower-cased copy longer than the
  document: its index is out of range of the original and the handler panics.
\<close>

theorem Inject_panics:
  assumes "\<And>r. r < 128 \<Longrightarrow> \<not> (65 \<le> r \<and> r \<le> 90) \<Longrightarrow> lower r = r" "lower 0xFFFD = 0xFFFD"
  shows "Inject lower (CHR 0xFF # CHR 0xFF # CHR 0xFF # ''<head>'') nonce = None"
proof -
  have "utf8 60 = ''<''" "utf8 104 = ''h''" "utf8 101 = ''e''" "utf8 97 = ''a''" "utf8 100 = ''d''" "utf8 62 = ''>''"
    by code_simp+
  then have ascii: "map_runes lower ''<head>'' = ''<head>''"
    by (simp add: map_runes.simps(2) decode_rune_def assms(1))
  have bad: "map_runes lower (CHR 0xFF # s) = CHR 0xEF # CHR 0xBF # CHR 0xBD # map_runes lower s" for s
  proof -
    have "utf8 0xFFFD = [CHR 0xEF, CHR 0xBF, CHR 0xBD]" by code_simp
    then show ?thesis by (simp add: map_runes.simps(2) decode_rune_def assms(2))
  qed
  let ?s = "CHR 0xFF # CHR 0xFF # CHR 0xFF # ''<head>''"
  have "bytes_ToLower lower ?s =
    [CHR 0xEF, CHR 0xBF, CHR 0xBD, CHR 0xEF, CHR 0xBF, CHR 0xBD, CHR 0xEF, CHR 0xBF, CHR 0xBD] @ ''<head>''"
    by (simp add: bytes_ToLower_def is_ascii_def bad ascii del: map_runes.simps)
  then show ?thesis
    by (simp add: Inject_def headOpenTag_def headOpenTag_loop.simps Let_def)
qed

theorem Inject_panics_witness:
  "Inject (\<lambda>r. r) (CHR 0xFF # CHR 0xFF # CHR 0xFF # ''<head>'') [] = None"
  by (rule Inject_panics) simp_all

end
