(* ===== verification/Go_Json.thy ===== *)
theory Go_Json
  imports Go_Utf8 Go_URL "HOL-Library.AList"
begin

section \<open>encoding/json\<close>

text \<open>
  What the panel uses of Go's \<open>encoding/json\<close>.  The encoder writes a value as \<open>Marshal\<close> does, with
  \<open><\<close>, \<open>>\<close> and \<open>&\<close> escaped.  The decoder reads the first value of a stream and stores it in a struct
  field by field: an unknown or repeated key, \<open>null\<close> and a value of the wrong type have Go's effect.
  Values nest, so the reader counts down a fuel; \<open>json_parse_complete\<close> shows that the length of the text
  is always enough.
\<close>

datatype json = JNull | JBool bool | JNum string | JStr string | JArr "json list" | JObj "(string \<times> json) list"

abbreviation json_quote :: char where
  "json_quote \<equiv> CHR 0x22"

abbreviation backslash :: char where
  "backslash \<equiv> CHR 0x5C"

subsection \<open>Encoding\<close>

definition escape_ascii :: "char \<Rightarrow> string" where
  "escape_ascii c =
     (let n = byte c in
      if n = 34 \<or> n = 92 then [backslash, c]
      else if n = 8 then backslash # ''b'' else if n = 12 then backslash # ''f''
      else if n = 10 then backslash # ''n'' else if n = 13 then backslash # ''r''
      else if n = 9 then backslash # ''t''
      else if n < 32 \<or> c = CHR ''<'' \<or> c = CHR ''>'' \<or> c = CHR ''&''
        then backslash # ''u00'' @ [digit_char (n div 16), digit_char (n mod 16)]
      else [c])"

function enc_string :: "string \<Rightarrow> string" where
  "enc_string [] = []"
| "enc_string (a # s) =
     (let (r, n) = decode_rune a s in
      (if byte a < 0x80 then escape_ascii a
       else if r = 0xFFFD \<and> n = 1 then backslash # ''ufffd''
       else if r = 0x2028 then backslash # ''u2028''
       else if r = 0x2029 then backslash # ''u2029''
       else take n (a # s)) @ enc_string (drop n (a # s)))"
  by pat_completeness auto
termination
proof (relation "measure length", goal_cases)
  case (2 a s x r n)
  then have "0 < n" using decode_rune_pos [of a s] by (metis snd_conv)
  then show ?case by simp
qed simp

declare enc_string.simps(2) [simp del]

definition json_string :: "string \<Rightarrow> string" where
  "json_string s = json_quote # enc_string s @ [json_quote]"

fun json_text :: "json \<Rightarrow> string" where
  "json_text JNull = ''null''"
| "json_text (JBool b) = (if b then ''true'' else ''false'')"
| "json_text (JNum d) = d"
| "json_text (JStr s) = json_string s"
| "json_text (JArr vs) = ''['' @ join '','' (map json_text vs) @ '']''"
| "json_text (JObj ms) = ''{'' @ join '','' (map (\<lambda>(k, v). json_string k @ '':'' @ json_text v) ms) @ ''}''"

subsection \<open>Reading a value\<close>

definition json_space :: "char \<Rightarrow> bool" where
  "json_space c \<longleftrightarrow> c = CHR '' '' \<or> byte c = 9 \<or> byte c = 10 \<or> byte c = 13"

abbreviation skip_ws :: "string \<Rightarrow> string" where
  "skip_ws s \<equiv> dropWhile json_space s"

text \<open>Four hex digits; \<open>\u\<close> escapes, where two surrogates make one rune and a lone one U+FFFD.\<close>

definition hex4 :: "string \<Rightarrow> nat option" where
  "hex4 s =
     (if 4 \<le> length s \<and> list_all is_hex (take 4 s)
      then Some (fold (\<lambda>c n. n * 16 + unhex c) (take 4 s) 0) else None)"

definition low_surrogate :: "string \<Rightarrow> nat option" where
  "low_surrogate s =
     (if has_prefix s (backslash # ''u'')
      then (case hex4 (drop 2 s) of
              None \<Rightarrow> None | Some l \<Rightarrow> if 0xDC00 \<le> l \<and> l \<le> 0xDFFF then Some (l - 0xDC00) else None)
      else None)"

definition escaped_rune :: "string \<Rightarrow> (string \<times> nat) option" where
  "escaped_rune s =
     (case hex4 s of
        None \<Rightarrow> None
      | Some u \<Rightarrow>
          (case (if 0xD800 \<le> u \<and> u \<le> 0xDBFF then low_surrogate (drop 4 s) else None) of
             None \<Rightarrow> Some (utf8 u, 4)
           | Some l \<Rightarrow> Some (utf8 (0x10000 + (u - 0xD800) * 1024 + l), 10)))"

definition escape_value :: "char \<Rightarrow> char option" where
  "escape_value c =
     (if c = json_quote \<or> c = backslash \<or> c = CHR ''/'' then Some c
      else if c = CHR ''b'' then Some CHR 0x08 else if c = CHR ''f'' then Some CHR 0x0C
      else if c = CHR ''n'' then Some CHR 0x0A else if c = CHR ''r'' then Some CHR 0x0D
      else if c = CHR ''t'' then Some CHR 0x09 else None)"

text \<open>A string from behind its opening quote, and what follows its closing one.\<close>

function dec_string :: "string \<Rightarrow> (string \<times> string) option" where
  "dec_string [] = None"
| "dec_string (a # s) =
     (if a = json_quote then Some ([], s)
      else if a = backslash then
        (case s of
           [] \<Rightarrow> None
         | c # s' \<Rightarrow>
             if c = CHR ''u'' then
               (case escaped_rune s' of
                  None \<Rightarrow> None
                | Some (t, n) \<Rightarrow> map_option (map_prod (append t) id) (dec_string (drop n s')))
             else
               (case escape_value c of
                  None \<Rightarrow> None | Some d \<Rightarrow> map_option (map_prod (Cons d) id) (dec_string s')))
      else if byte a < 0x20 then None
      else map_option (map_prod (append (utf8 (fst (decode_rune a s)))) id)
             (dec_string (drop (snd (decode_rune a s)) (a # s))))"
  by pat_completeness auto
termination
  by (relation "measure length") (use decode_rune_pos in \<open>force+\<close>)

declare dec_string.simps(2) [simp del]

text \<open>The literal of a number, and what follows it.\<close>

definition digits_of :: "string \<Rightarrow> (string \<times> string) option" where
  "digits_of s = (let ds = takeWhile is_digit s in if ds = [] then None else Some (ds, drop (length ds) s))"

definition parse_frac :: "string \<Rightarrow> (string \<times> string) option" where
  "parse_frac s =
     (if has_prefix s ''.'' then map_option (map_prod (Cons CHR ''.'') id) (digits_of (tl s)) else Some ([], s))"

definition parse_exp :: "string \<Rightarrow> (string \<times> string) option" where
  "parse_exp s =
     (case s of
        [] \<Rightarrow> Some ([], s)
      | c # t \<Rightarrow>
          if c = CHR ''e'' \<or> c = CHR ''E'' then
            (let sign = take 1 (takeWhile (\<lambda>x. x = CHR ''+'' \<or> x = CHR ''-'') t)
             in map_option (map_prod (append (c # sign)) id) (digits_of (drop (length sign) t)))
          else Some ([], s))"

definition parse_number :: "string \<Rightarrow> (json \<times> string) option" where
  "parse_number s =
     (let sign = (if has_prefix s ''-'' then ''-'' else []); s1 = drop (length sign) s in
      case digits_of s1 of
        None \<Rightarrow> None
      | Some (ds, _) \<Rightarrow>
          let i = (if hd ds = CHR ''0'' then ''0'' else ds) in
          (case parse_frac (drop (length i) s1) of
             None \<Rightarrow> None
           | Some (f, s2) \<Rightarrow>
               (case parse_exp s2 of None \<Rightarrow> None | Some (e, s3) \<Rightarrow> Some (JNum (sign @ i @ f @ e), s3))))"

definition expect :: "char \<Rightarrow> string \<Rightarrow> string option" where
  "expect c s = (case skip_ws s of [] \<Rightarrow> None | d # t \<Rightarrow> if d = c then Some t else None)"

fun parse_value :: "nat \<Rightarrow> string \<Rightarrow> (json \<times> string) option"
  and parse_members :: "nat \<Rightarrow> string \<Rightarrow> ((string \<times> json) list \<times> string) option"
  and parse_elems :: "nat \<Rightarrow> string \<Rightarrow> (json list \<times> string) option" where
  "parse_value 0 s = None"
| "parse_value (Suc n) s =
     (case skip_ws s of
        [] \<Rightarrow> None
      | c # t \<Rightarrow>
          if c = CHR ''{'' then
            (case expect CHR ''}'' t of
               Some r \<Rightarrow> Some (JObj [], r) | None \<Rightarrow> map_option (map_prod JObj id) (parse_members n t))
          else if c = CHR ''['' then
            (case expect CHR '']'' t of
               Some r \<Rightarrow> Some (JArr [], r) | None \<Rightarrow> map_option (map_prod JArr id) (parse_elems n t))
          else if c = json_quote then map_option (map_prod JStr id) (dec_string t)
          else if has_prefix (c # t) ''true'' then Some (JBool True, drop 3 t)
          else if has_prefix (c # t) ''false'' then Some (JBool False, drop 4 t)
          else if has_prefix (c # t) ''null'' then Some (JNull, drop 3 t)
          else parse_number (c # t))"
| "parse_members 0 s = None"
| "parse_members (Suc n) s =
     (case Option.bind (expect json_quote s) dec_string of
        None \<Rightarrow> None
      | Some (k, s1) \<Rightarrow>
          (case Option.bind (expect CHR '':'' s1) (parse_value n) of
             None \<Rightarrow> None
           | Some (v, s2) \<Rightarrow>
               (case expect CHR ''}'' s2 of
                  Some r \<Rightarrow> Some ([(k, v)], r)
                | None \<Rightarrow> map_option (map_prod (Cons (k, v)) id) (Option.bind (expect CHR '','' s2) (parse_members n)))))"
| "parse_elems 0 s = None"
| "parse_elems (Suc n) s =
     (case parse_value n s of
        None \<Rightarrow> None
      | Some (v, s2) \<Rightarrow>
          (case expect CHR '']'' s2 of
             Some r \<Rightarrow> Some ([v], r)
           | None \<Rightarrow> map_option (map_prod (Cons v) id) (Option.bind (expect CHR '','' s2) (parse_elems n))))"

definition json_parse :: "string \<Rightarrow> json option" where
  "json_parse s = map_option fst (parse_value (Suc (length s)) s)"

subsection \<open>Storing a value\<close>

text \<open>
  A key names a field when they agree up to case; two runes beyond ASCII fold to letters.  A setter
  returns the new value and whether the type was right.
\<close>

function fold_key :: "string \<Rightarrow> string" where
  "fold_key [] = []"
| "fold_key (a # s) =
     (case decode_rune a s of (r, n) \<Rightarrow>
        (if r = 0x17F then ''s'' else if r = 0x212A then ''k'' else if byte a < 0x80 then [lower_char a]
         else take n (a # s)) @ fold_key (drop n (a # s)))"
  by pat_completeness auto
termination
proof (relation "measure length", goal_cases)
  case (2 a s r n)
  then have "0 < n" using decode_rune_pos [of a s] by (metis snd_conv)
  then show ?case by simp
qed simp

declare fold_key.simps(2) [simp del]

type_synonym 'a setter = "json \<Rightarrow> 'a \<Rightarrow> 'a \<times> bool"

fun set_string :: "string setter" where
  "set_string (JStr s) x = (s, True)"
| "set_string JNull x = (x, True)"
| "set_string _ x = (x, False)"

fun set_bool :: "bool setter" where
  "set_bool (JBool b) x = (b, True)"
| "set_bool JNull x = (x, True)"
| "set_bool _ x = (x, False)"

fun set_int :: "int setter" where
  "set_int (JNum d) x = (case atoi d of None \<Rightarrow> (x, False) | Some i \<Rightarrow> (i, True))"
| "set_int JNull x = (x, True)"
| "set_int _ x = (x, False)"

text \<open>A map of booleans: an object adds to the map, an entry of the wrong type is stored as false.\<close>

fun set_bool_map :: "(string \<times> bool) list setter" where
  "set_bool_map (JObj ms) x =
     fold (\<lambda>(k, v) (x, ok). let (b, typed) = set_bool v False in (AList.update k b x, ok \<and> typed)) ms (x, True)"
| "set_bool_map JNull x = ([], True)"
| "set_bool_map _ x = (x, False)"

definition field :: "(('b \<Rightarrow> 'b) \<Rightarrow> 'a \<Rightarrow> 'a) \<Rightarrow> ('a \<Rightarrow> 'b) \<Rightarrow> 'b setter \<Rightarrow> 'a setter" where
  "field upd sel setter v x = (let (y, ok) = setter v (sel x) in (upd (\<lambda>_. y) x, ok))"

text \<open>\<open>strict\<close> is \<open>DisallowUnknownFields\<close>.\<close>

fun store :: "(string \<times> 'a setter) list \<Rightarrow> bool \<Rightarrow> 'a setter" where
  "store table strict (JObj ms) x =
     fold (\<lambda>(k, v) (x, ok).
       case List.find (\<lambda>(name, _). fold_key k = fold_key name) table of
         None \<Rightarrow> (x, ok \<and> \<not> strict)
       | Some (_, setter) \<Rightarrow> let (y, typed) = setter v x in (y, ok \<and> typed)) ms (x, True)"
| "store table strict JNull x = (x, True)"
| "store table strict _ x = (x, False)"

definition json_Decode :: "(string \<times> 'a setter) list \<Rightarrow> bool \<Rightarrow> string \<Rightarrow> 'a \<Rightarrow> 'a \<times> bool" where
  "json_Decode table strict data x =
     (case json_parse data of None \<Rightarrow> (x, False) | Some v \<Rightarrow> store table strict v x)"

subsection \<open>Round trips\<close>

lemma hex_digit_char: "d < 16 \<Longrightarrow> is_hex (digit_char d) \<and> unhex (digit_char d) = d"
  by (simp add: digit_char_def is_hex_def unhex_def is_digit_def)

lemma hex4_digits:
  "is_hex d \<Longrightarrow> is_hex e \<Longrightarrow> hex4 (CHR ''0'' # CHR ''0'' # d # e # s) = Some (unhex d * 16 + unhex e)"
proof -
  have "is_hex CHR ''0''" "unhex CHR ''0'' = 0" by (simp_all add: is_hex_def is_digit_def unhex_def)
  then show "is_hex d \<Longrightarrow> is_hex e \<Longrightarrow> ?thesis" by (simp add: hex4_def)
qed

lemma hex4_byte: "n < 256 \<Longrightarrow> hex4 (CHR ''0'' # CHR ''0'' # digit_char (n div 16) # digit_char (n mod 16) # s) = Some n"
proof -
  assume "n < 256"
  then have "n div 16 < 16" "n mod 16 < 16" by simp_all
  note d = hex_digit_char [OF this(1)] hex_digit_char [OF this(2)]
  show ?thesis unfolding hex4_digits [OF conjunct1 [OF d(1)] conjunct1 [OF d(2)]] conjunct2 [OF d(1)] conjunct2 [OF d(2)]
    by (rule arg_cong [where f = Some]) (rule div_mult_mod_eq)
qed

lemma byte_char: "byte a = n \<Longrightarrow> a = char_of n"
  by (drule sym) simp

lemma dec_short:
  "escape_value c = Some a \<Longrightarrow> c \<noteq> CHR ''u'' \<Longrightarrow>
   dec_string (backslash # c # s) = map_option (map_prod (Cons a) id) (dec_string s)"
  by (simp add: dec_string.simps(2))

lemma escape_values:
  "escape_value (char_of (34::nat)) = Some (char_of (34::nat))" "escape_value (char_of (92::nat)) = Some (char_of (92::nat))"
  "escape_value CHR ''b'' = Some (char_of (8::nat))" "escape_value CHR ''f'' = Some (char_of (12::nat))" "escape_value CHR ''n'' = Some (char_of (10::nat))"
  "escape_value CHR ''r'' = Some (char_of (13::nat))" "escape_value CHR ''t'' = Some (char_of (9::nat))"
  "char_of (34::nat) \<noteq> CHR ''u''" "char_of (92::nat) \<noteq> CHR ''u''"
  by code_simp+

lemma dec_long:
  assumes "byte a < 0x80"
  shows "dec_string (backslash # ''u00'' @ [digit_char (byte a div 16), digit_char (byte a mod 16)] @ s) =
    map_option (map_prod (Cons a) id) (dec_string s)"
proof -
  have "hex4 (CHR ''0'' # CHR ''0'' # digit_char (byte a div 16) # digit_char (byte a mod 16) # s) = Some (byte a)"
    using assms by (intro hex4_byte) simp
  then have "escaped_rune (CHR ''0'' # CHR ''0'' # digit_char (byte a div 16) # digit_char (byte a mod 16) # s) = Some ([a], 4)"
    using assms by (simp add: escaped_rune_def utf8_def)
  moreover have "map_prod (append [a]) id = map_prod (Cons a) (id :: string \<Rightarrow> string)" by (simp add: fun_eq_iff)
  ultimately show ?thesis by (simp add: dec_string.simps(2) del: byte_less)
qed

lemma dec_escape_ascii:
  assumes "byte a < 0x80"
  shows "dec_string (escape_ascii a @ s) = map_option (map_prod (Cons a) id) (dec_string s)"
proof -
  have plain: "dec_string (a # s) = map_option (map_prod (Cons a) id) (dec_string s)"
    if "a \<noteq> json_quote" "a \<noteq> backslash" "\<not> byte a < 0x20"
  proof -
    have "decode_rune a s = (byte a, 1)" using assms by (simp add: decode_rune_def)
    moreover have "utf8 (byte a) = [a]" using assms by (simp add: utf8_def)
    moreover have "map_prod (append [a]) id = map_prod (Cons a) (id :: string \<Rightarrow> string)" by (simp add: fun_eq_iff)
    ultimately show ?thesis using that by (simp add: dec_string.simps(2))
  qed
  have short: ?thesis if "escape_ascii a = [backslash, c]" "escape_value c = Some (char_of n)" "c \<noteq> CHR ''u''" "byte a = n" for c n
    unfolding that(1) using dec_short [OF that(2,3), of s] byte_char [OF that(4)] by simp
  consider "byte a = 34" | "byte a = 92" | "byte a = 8" | "byte a = 12" | "byte a = 10" | "byte a = 13" | "byte a = 9"
    | "escape_ascii a = backslash # ''u00'' @ [digit_char (byte a div 16), digit_char (byte a mod 16)]"
    | "byte a \<noteq> 34" "byte a \<noteq> 92" "\<not> byte a < 0x20" "escape_ascii a = [a]"
    unfolding escape_ascii_def Let_def by argo
  then show ?thesis
  proof cases
    case 1
    then show ?thesis by (intro short [OF _ escape_values(1)]) (simp_all add: escape_ascii_def byte_char escape_values)
  next
    case 2
    then show ?thesis by (intro short [OF _ escape_values(2)]) (simp_all add: escape_ascii_def byte_char escape_values)
  next
    case 3
    then show ?thesis by (intro short [OF _ escape_values(3)]) (simp_all add: escape_ascii_def)
  next
    case 4
    then show ?thesis by (intro short [OF _ escape_values(4)]) (simp_all add: escape_ascii_def)
  next
    case 5
    then show ?thesis by (intro short [OF _ escape_values(5)]) (simp_all add: escape_ascii_def)
  next
    case 6
    then show ?thesis by (intro short [OF _ escape_values(6)]) (simp_all add: escape_ascii_def)
  next
    case 7
    then show ?thesis by (intro short [OF _ escape_values(7)]) (simp_all add: escape_ascii_def)
  next
    case 8
    then show ?thesis using dec_long [OF assms] by simp
  next
    case 9
    from 9(1,2) have "a \<noteq> json_quote" "a \<noteq> backslash" by auto
    from plain [OF this 9(3)] show ?thesis using 9(4) by simp
  qed
qed

text \<open>A rune beyond ASCII, written as it is or as an escape, reads back as its bytes.\<close>

lemma dec_rune:
  assumes "decode_rune a s = (r, n)" "\<not> bad_rune a s" "0x80 \<le> byte a"
  shows "dec_string (take n (a # s) @ t) = map_option (map_prod (append (take n (a # s))) id) (dec_string t)"
proof -
  have n: "0 < n" "n \<le> Suc (length s)" using decode_rune_pos [of a s] decode_rune_width [of a s] assms(1) by simp_all
  then have eq: "take n (a # s) @ t = a # take (n - 1) s @ t" by (cases n) simp_all
  have dec: "decode_rune a (take (n - 1) s @ t) = (r, n)" by (rule decode_rune_local [OF assms(1,2)])
  have drop: "drop n (a # take (n - 1) s @ t) = t" using n by (cases n) simp_all
  have neq: "a \<noteq> json_quote" "a \<noteq> backslash" "\<not> byte a < 0x20" using assms(3) by auto
  show ?thesis
    unfolding eq dec_string.simps(2) if_not_P [OF neq(1)] if_not_P [OF neq(2)] if_not_P [OF neq(3)] dec fst_conv snd_conv drop
      utf8_decode [OF assms(1,2)] using n by (cases n) simp_all
qed

lemma dec_separator:
  assumes "d = CHR ''8'' \<or> d = CHR ''9''"
  shows "dec_string (backslash # ''u202'' @ d # t) = map_option (map_prod (append (utf8 (0x2020 + unhex d))) id) (dec_string t)"
proof -
  have h: "is_hex CHR ''2'' \<and> is_hex CHR ''0'' \<and> is_hex d" "unhex CHR ''2'' = 2" "unhex CHR ''0'' = 0" "unhex d < 10"
    using assms by (auto simp: is_hex_def is_digit_def unhex_def)
  have "hex4 (CHR ''2'' # CHR ''0'' # CHR ''2'' # d # t) = Some (0x2020 + unhex d)" using h by (simp add: hex4_def)
  then have "escaped_rune (CHR ''2'' # CHR ''0'' # CHR ''2'' # d # t) = Some (utf8 (0x2020 + unhex d), 4)"
    using h(4) by (simp add: escaped_rune_def)
  then show ?thesis by (simp add: dec_string.simps(2))
qed

lemma dec_enc_rune:
  assumes "decode_rune a s = (r, n)" "\<not> bad_rune a s"
  shows "dec_string ((if byte a < 0x80 then escape_ascii a
       else if r = 0xFFFD \<and> n = 1 then backslash # ''ufffd''
       else if r = 0x2028 then backslash # ''u2028''
       else if r = 0x2029 then backslash # ''u2029''
       else take n (a # s)) @ t) = map_option (map_prod (append (take n (a # s))) id) (dec_string t)"
proof (cases "byte a < 0x80")
  case True
  then have "n = 1" using assms(1) by (simp add: decode_rune_def)
  then show ?thesis using True dec_escape_ascii [OF True, of t] by (simp add: map_prod_def)
next
  case False
  have good: "\<not> (r = 0xFFFD \<and> n = 1)" using assms by (auto simp: bad_rune_def)
  have u: "utf8 r = take n (a # s)" by (rule utf8_decode [OF assms])
  consider "r = 0x2028" | "r = 0x2029" | "r \<noteq> 0x2028" "r \<noteq> 0x2029" by blast
  then show ?thesis
  proof cases
    case 1
    have "unhex CHR ''8'' = 8" by (simp add: unhex_def is_digit_def)
    with 1 dec_separator [of "CHR ''8''" t] u False show ?thesis by simp
  next
    case 2
    have "unhex CHR ''9'' = 9" by (simp add: unhex_def is_digit_def)
    with 2 dec_separator [of "CHR ''9''" t] u False show ?thesis by simp
  next
    case 3
    have big: "0x80 \<le> byte a" using False by simp
    show ?thesis unfolding if_not_P [OF False] if_not_P [OF good] if_not_P [OF 3(1)] if_not_P [OF 3(2)]
      by (rule dec_rune [OF assms big])
  qed
qed

lemma dec_enc_string: "valid_utf8 s \<Longrightarrow> dec_string (enc_string s @ json_quote # t) = Some (s, t)"
proof (induction s rule: enc_string.induct)
  case 1
  then show ?case by (simp add: dec_string.simps(2))
next
  case (2 a s)
  obtain r n where d: "decode_rune a s = (r, n)" by fastforce
  have v: "\<not> bad_rune a s" "valid_utf8 (drop n (a # s))" using "2.prems" by (simp_all add: valid_utf8.simps(2) d)
  have IH: "dec_string (enc_string (drop n (a # s)) @ json_quote # t) = Some (drop n (a # s), t)"
    using "2.IH" d v(2) by metis
  show ?case
    unfolding enc_string.simps(2) d Let_def prod.case append_assoc dec_enc_rune [OF d v(1)] IH
    by (simp add: map_prod_def)
qed

text \<open>An object of strings reads back; its length is fuel enough.\<close>

definition json_object :: "(string \<times> string) list \<Rightarrow> json" where
  "json_object kvs = JObj (map (\<lambda>(k, v). (k, JStr v)) kvs)"

lemma expect_hit: "\<not> json_space c \<Longrightarrow> expect c (c # s) = Some s"
  by (simp add: expect_def)

lemma expect_miss: "\<not> json_space d \<Longrightarrow> d \<noteq> c \<Longrightarrow> expect c (d # s) = None"
  by (simp add: expect_def)

lemma not_json_space:
  "\<not> json_space json_quote" "\<not> json_space CHR '':''" "\<not> json_space CHR '',''" "\<not> json_space CHR ''}''" "\<not> json_space CHR ''{''"
  by code_simp+

lemma parse_value_string:
  "valid_utf8 v \<Longrightarrow> parse_value (Suc n) (json_string v @ s) = Some (JStr v, s)"
  by (simp add: json_string_def not_json_space dec_enc_string)

lemma parse_object_members:
  "kvs \<noteq> [] \<Longrightarrow> list_all (\<lambda>(k, v). valid_utf8 k \<and> valid_utf8 v) kvs \<Longrightarrow> length kvs < n \<Longrightarrow>
   parse_members n (join '','' (map (\<lambda>(k, v). json_string k @ '':'' @ json_string v) kvs) @ CHR ''}'' # s) =
     Some (map (\<lambda>(k, v). (k, JStr v)) kvs, s)"
proof (induction kvs arbitrary: n)
  case (Cons kv kvs)
  obtain k v where kv: "kv = (k, v)" by (cases kv)
  obtain m where n: "n = Suc (Suc m)" using Cons.prems(3) by (cases n; cases "n - 1") auto
  have ok: "valid_utf8 k" "valid_utf8 v" using Cons.prems(2) by (simp_all add: kv)
  let ?rest = "(if kvs = [] then [] else '','' @ join '','' (map (\<lambda>(k, v). json_string k @ '':'' @ json_string v) kvs)) @ CHR ''}'' # s"
  have doc: "join '','' (map (\<lambda>(k, v). json_string k @ '':'' @ json_string v) (kv # kvs)) @ CHR ''}'' # s =
      json_quote # enc_string k @ json_quote # CHR '':'' # json_string v @ ?rest"
    by (simp add: kv join_Cons json_string_def)
  have key_ok: "Option.bind (expect json_quote (json_quote # enc_string k @ json_quote # u)) dec_string = Some (k, u)" for u
    by (simp add: expect_hit not_json_space dec_enc_string ok)
  have val_ok: "Option.bind (expect CHR '':'' (CHR '':'' # json_string v @ u)) (parse_value (Suc m)) = Some (JStr v, u)" for u
    using parse_value_string [OF ok(2)] by (simp add: expect_hit not_json_space del: parse_value.simps)
  show ?case
  proof (cases "kvs = []")
    case True
    show ?thesis unfolding doc n parse_members.simps(2) [of "Suc m"] key_ok option.case prod.case val_ok
      by (simp add: True kv expect_hit not_json_space)
  next
    case False
    have IH: "parse_members (Suc m) (join '','' (map (\<lambda>(k, v). json_string k @ '':'' @ json_string v) kvs) @ CHR ''}'' # s) =
        Some (map (\<lambda>(k, v). (k, JStr v)) kvs, s)"
      using Cons.prems by (intro Cons.IH False) (simp_all add: n)
    show ?thesis unfolding doc n parse_members.simps(2) [of "Suc m"] key_ok option.case prod.case val_ok
      using IH by (simp add: False kv expect_hit expect_miss not_json_space del: parse_members.simps)
  qed
qed simp

lemma json_object_text:
  "json_text (json_object kvs) = CHR ''{'' # join '','' (map (\<lambda>(k, v). json_string k @ '':'' @ json_string v) kvs) @ ''}''"
proof -
  have "map (\<lambda>(k, v). json_string k @ '':'' @ json_text v) (map (\<lambda>(k, v). (k, JStr v)) kvs) =
      map (\<lambda>(k, v). json_string k @ '':'' @ json_string v) kvs" by (induction kvs) auto
  then show ?thesis by (simp add: json_object_def del: map_map)
qed

lemma length_members: "length kvs \<le> length (join '','' (map (\<lambda>(k, v). json_string k @ '':'' @ json_string v) kvs))"
  by (induction kvs) (auto simp: join_Cons json_string_def)

lemma json_parse_object:
  assumes "list_all (\<lambda>(k, v). valid_utf8 k \<and> valid_utf8 v) kvs"
  shows "json_parse (json_text (json_object kvs) @ s) = Some (json_object kvs)"
proof (cases "kvs = []")
  case True
  then show ?thesis by (simp add: json_parse_def json_object_def expect_hit not_json_space)
next
  case False
  let ?ms = "join '','' (map (\<lambda>(k, v). json_string k @ '':'' @ json_string v) kvs)"
  have "length kvs < length (json_text (json_object kvs) @ s)" unfolding json_object_text using length_members [of kvs] by simp
  from parse_object_members [OF False assms this, of s]
  have m: "parse_members (length (json_text (json_object kvs) @ s)) (?ms @ CHR ''}'' # s) = Some (map (\<lambda>(k, v). (k, JStr v)) kvs, s)" .
  obtain k v rest where kvs: "kvs = (k, v) # rest" using False by (cases kvs) auto
  have quote: "\<exists>u. ?ms = json_quote # u" by (simp add: kvs join_Cons json_string_def)
  then have e: "expect CHR ''}'' (?ms @ CHR ''}'' # s) = None" by (auto simp: expect_miss not_json_space)
  have doc: "json_text (json_object kvs) @ s = CHR ''{'' # ?ms @ CHR ''}'' # s" by (simp add: json_object_text)
  have skip: "skip_ws (CHR ''{'' # u) = CHR ''{'' # u" for u by (simp add: not_json_space)
  show ?thesis
    using m unfolding json_parse_def parse_value.simps doc skip list.case if_P [OF refl] e option.case by (simp add: json_object_def)
qed

subsection \<open>The length of a text is fuel enough\<close>

lemma expect_shorter: "expect c s = Some t \<Longrightarrow> length t < length s"
proof -
  assume "expect c s = Some t"
  then have "skip_ws s = c # t" by (auto simp: expect_def split: list.splits if_splits)
  then show ?thesis using length_dropWhile_le [of json_space s] by simp
qed

lemma dec_string_shorter: "dec_string s = Some (x, r) \<Longrightarrow> length r < length s"
proof (induction s arbitrary: x r rule: dec_string.induct)
  case (2 a s)
  note d = "2.prems" [unfolded dec_string.simps(2) [of a s]]
  have pos: "0 < snd (decode_rune a s)" by (rule decode_rune_pos)
  consider "a = json_quote" | "a \<noteq> json_quote" "a = backslash" | "a \<noteq> json_quote" "a \<noteq> backslash" by blast
  then show ?case
  proof cases
    case 1
    then show ?thesis using d by simp
  next
    case 2
    then obtain c s' where s: "s = c # s'" using d by (cases s) simp_all
    show ?thesis
    proof (cases "c = CHR ''u''")
      case True
      then obtain t n y where "escaped_rune s' = Some (t, n)" "dec_string (drop n s') = Some (y, r)"
        using d 2 s by (auto split: option.splits)
      with "2.IH"(1) [OF 2 s True] show ?thesis by (fastforce simp: s)
    next
      case False
      then obtain y where "dec_string s' = Some (y, r)" "escape_value c \<noteq> None"
        using d 2 s by (auto split: option.splits)
      with "2.IH"(2) [OF 2 s False] show ?thesis by (fastforce simp: s)
    qed
  next
    case 3
    then obtain y where y: "dec_string (drop (snd (decode_rune a s)) (a # s)) = Some (y, r)" "\<not> byte a < 0x20"
      using d by (auto split: if_splits)
    from "2.IH"(3) [OF 3 y(2) y(1)] pos show ?thesis by (cases "snd (decode_rune a s)") auto
  qed
qed simp

lemma digits_of_shorter: "digits_of s = Some (ds, r) \<Longrightarrow> ds \<noteq> [] \<and> length r < length s \<and> length ds \<le> length s"
  using length_takeWhile_le [of is_digit s]
  by (cases s) (auto simp: digits_of_def Let_def split: if_splits)

lemma parse_frac_le: "parse_frac s = Some (f, r) \<Longrightarrow> length r \<le> length s"
  using digits_of_shorter [of "tl s"] by (auto simp: parse_frac_def split: if_splits)

lemma parse_exp_le: "parse_exp s = Some (f, r) \<Longrightarrow> length r \<le> length s"
proof -
  assume e: "parse_exp s = Some (f, r)"
  show ?thesis
  proof (cases s)
    case (Cons c t)
    show ?thesis
    proof (cases "c = CHR ''e'' \<or> c = CHR ''E''")
      case True
      then obtain k ds where "digits_of (drop k t) = Some (ds, r)"
        using e Cons by (auto simp: parse_exp_def Let_def)
      from digits_of_shorter [OF this] have "length r < length t - k" by simp
      with Cons show ?thesis by simp
    qed (use e Cons in \<open>auto simp: parse_exp_def\<close>)
  qed (use e in \<open>simp add: parse_exp_def\<close>)
qed

lemma parse_number_shorter: "parse_number s = Some (v, r) \<Longrightarrow> length r < length s"
proof -
  let ?s1 = "drop (length (if has_prefix s ''-'' then ''-'' else [])) s"
  assume p: "parse_number s = Some (v, r)"
  then obtain ds y where ds: "digits_of ?s1 = Some (ds, y)" by (auto simp: parse_number_def Let_def split: option.splits)
  let ?i = "if hd ds = CHR ''0'' then ''0'' else ds"
  have i: "0 < length ?i" "length ?i \<le> length ?s1"
    using digits_of_shorter [OF ds] by (cases ds; simp)+
  obtain f s2 e where f: "parse_frac (drop (length ?i) ?s1) = Some (f, s2)" and e: "parse_exp s2 = Some (e, r)"
    using p ds by (auto simp: parse_number_def Let_def split: option.splits)
  define k where "k = length ?i"
  define m where "m = length (if has_prefix s ''-'' then ''-'' else [])"
  have "length r \<le> length s - m - k" using parse_frac_le [OF f] parse_exp_le [OF e] by (simp add: k_def m_def)
  moreover have "0 < k" "k \<le> length s - m" using i by (simp_all add: k_def m_def)
  ultimately show ?thesis by linarith
qed

text \<open>
  A reader that succeeds with any fuel consumes something, and a fuel of what it consumes gives the
  same result.
\<close>

definition settled :: "(nat \<Rightarrow> string \<Rightarrow> ('a \<times> string) option) \<Rightarrow> string \<Rightarrow> 'a \<times> string \<Rightarrow> bool" where
  "settled parse s p \<longleftrightarrow> length (snd p) < length s \<and> (\<forall>m. length s - length (snd p) \<le> m \<longrightarrow> parse m s = Some p)"

lemma settledI:
  "length r < length s \<Longrightarrow> (\<And>m. length s - length r \<le> Suc m \<Longrightarrow> parse (Suc m) s = Some (x, r)) \<Longrightarrow> settled parse s (x, r)"
  unfolding settled_def using Suc_diff_Suc gr0_conv_Suc by (metis not_less0 not_less_eq_eq old.nat.exhaust snd_conv zero_less_diff le_zero_eq)

lemma settledD: "settled parse s (x, r) \<Longrightarrow> length s - length r \<le> m \<Longrightarrow> parse m s = Some (x, r)"
  "settled parse s (x, r) \<Longrightarrow> length r < length s"
  by (simp_all add: settled_def)

lemma parse_settled:
  "parse_value n s = Some p \<Longrightarrow> settled parse_value s p"
  "parse_members n s = Some q \<Longrightarrow> settled parse_members s q"
  "parse_elems n s = Some q' \<Longrightarrow> settled parse_elems s q'"
proof (induction n s and n s and n s arbitrary: p and q and q' rule: parse_value_parse_members_parse_elems.induct)
  case (2 n s)
  obtain c t where c: "skip_ws s = c # t" using 2(3) by (auto split: list.splits)
  have len: "length t < length s" using length_dropWhile_le [of json_space s] c by simp
  show ?case
  proof (cases "c = CHR ''{'' \<and> expect CHR ''}'' t = None \<or> c = CHR ''['' \<and> expect CHR '']'' t = None")
    case True
    then show ?thesis
    proof
      assume o: "c = CHR ''{'' \<and> expect CHR ''}'' t = None"
      then obtain kvs r where m: "parse_members n t = Some (kvs, r)" "p = (JObj kvs, r)"
        using 2(3) c by auto
      have "settled parse_members t (kvs, r)" using 2(1) [OF c] o m(1) by auto
      from settledD [OF this] o c m(2) len show ?thesis by (auto intro!: settledI)
    next
      assume o: "c = CHR ''['' \<and> expect CHR '']'' t = None"
      then obtain vs r where m: "parse_elems n t = Some (vs, r)" "p = (JArr vs, r)"
        using 2(3) c by auto
      have "settled parse_elems t (vs, r)" using 2(2) [OF c] o m(1) by auto
      from settledD [OF this] o c m(2) len show ?thesis by (auto intro!: settledI)
    qed
  next
    case False
    have "parse_value (Suc m) s = parse_value (Suc n) s" for m
    proof (cases "c = CHR ''{'' \<or> c = CHR ''[''")
      case True
      then show ?thesis
      proof
        assume o: "c = CHR ''{''"
        then obtain r where "expect CHR ''}'' t = Some r" using False by auto
        with o show ?thesis by (simp add: c)
      next
        assume o: "c = CHR ''[''"
        then obtain r where "expect CHR '']'' t = Some r" using False by auto
        with o show ?thesis by (simp add: c)
      qed
    qed (simp add: c)
    with 2(3) have free: "parse_value (Suc m) s = Some p" for m by simp
    obtain v r where p: "p = (v, r)" by (cases p)
    have got: "parse_value (Suc n) s = Some (v, r)" using 2(3) p by simp
    have "length r \<le> length t"
    proof (cases "c = CHR ''{'' \<or> c = CHR ''[''")
      case True
      then have "expect CHR ''}'' t = Some r \<or> expect CHR '']'' t = Some r" using False got c by auto
      then show ?thesis using expect_shorter less_imp_le by metis
    next
      case no: False
      show ?thesis
      proof (cases "c = json_quote")
        case True
        then obtain x where "dec_string t = Some (x, r)" using no got c by auto
        then show ?thesis using dec_string_shorter by fastforce
      next
        case False
        have "Some (v, r) = Some (JBool True, drop 3 t) \<or> Some (v, r) = Some (JBool False, drop 4 t) \<or>
            Some (v, r) = Some (JNull, drop 3 t) \<or> parse_number (c # t) = Some (v, r)"
          using no False got c by (simp split: if_splits)
        then show ?thesis using parse_number_shorter [of "c # t" v r] by auto
      qed
    qed
    with len have "length r < length s" by simp
    then show ?thesis unfolding p by (rule settledI) (simp only: free p)
  qed
next
  case (4 n s)
  obtain k s1 where k: "Option.bind (expect json_quote s) dec_string = Some (k, s1)"
    using 4(3) by (auto split: option.splits)
  obtain v s2 where v: "Option.bind (expect CHR '':'' s1) (parse_value n) = Some (v, s2)"
    using 4(3) k by (auto split: option.splits)
  obtain t1 where t1: "expect CHR '':'' s1 = Some t1" "parse_value n t1 = Some (v, s2)" using v by (auto simp: bind_eq_Some_conv)
  have s1: "length s1 < length s" using k expect_shorter dec_string_shorter by (fastforce simp: bind_eq_Some_conv)
  note head = settledD [OF 4(1) [OF k _ t1]] expect_shorter [OF t1(1)]
  have again: "Option.bind (expect CHR '':'' s1) (parse_value m) = Some (v, s2)" if "length t1 - length s2 \<le> m" for m
    using head(1) [OF _ that] t1(1) by simp
  show ?case
  proof (cases "expect CHR ''}'' s2")
    case (Some r)
    then have "q = ([(k, v)], r)" using 4(3) k v by simp
    moreover have "length r < length s2" by (rule expect_shorter [OF Some])
    ultimately show ?thesis using Some head s1 k again by (auto intro!: settledI)
  next
    case None
    then obtain s3 kvs r where t: "expect CHR '','' s2 = Some s3" "parse_members n s3 = Some (kvs, r)" "q = ((k, v) # kvs, r)"
      using 4(3) k v by (auto simp: bind_eq_Some_conv)
    have "settled parse_members s3 (kvs, r)" using 4(2) [OF k _ v _ None t(1,2)] by simp
    from settledD [OF this] expect_shorter [OF t(1)] t(1,3) None head s1 k again show ?thesis by (auto intro!: settledI)
  qed
next
  case (6 n s)
  obtain v s2 where v: "parse_value n s = Some (v, s2)" using 6(3) by (auto split: option.splits)
  note head = settledD [OF 6(1) [OF v]]
  show ?case
  proof (cases "expect CHR '']'' s2")
    case (Some r)
    then have "q' = ([v], r)" using 6(3) v by simp
    moreover have "length r < length s2" by (rule expect_shorter [OF Some])
    ultimately show ?thesis using Some head by (auto intro!: settledI)
  next
    case None
    then obtain s3 vs r where t: "expect CHR '','' s2 = Some s3" "parse_elems n s3 = Some (vs, r)" "q' = (v # vs, r)"
      using 6(3) v by (auto simp: bind_eq_Some_conv)
    have "settled parse_elems s3 (vs, r)" using 6(2) [OF v _ None t(1,2)] by simp
    from settledD [OF this] expect_shorter [OF t(1)] t(1,3) None head show ?thesis by (auto intro!: settledI)
  qed
qed simp_all

text \<open>Whatever any amount of fuel can read from a text, \<open>json_parse\<close> reads.\<close>

theorem json_parse_complete: "parse_value n s = Some (v, r) \<Longrightarrow> json_parse s = Some v"
  using settledD(1) [OF parse_settled(1), where m = "Suc (length s)"] by (simp add: json_parse_def del: parse_value.simps)

end
