(* ===== verification/Service_Info.thy ===== *)
theory Service_Info
  imports Go_Json Http
begin

section \<open>Health and version (internal/health, internal/version)\<close>

text \<open>
  The readiness flag with the two probes that report it, and the build's identity.  The values that
  the linker and the runtime provide are the argument of \<open>version_Get\<close>.
\<close>

definition json_body :: "json \<Rightarrow> bytes" where
  "json_body v = json_text v @ newline"

definition json_content :: string where
  "json_content = ''application/json; charset=utf-8''"

record checker =
  ckReady :: bool

definition health_New :: checker where
  "health_New = \<lparr>ckReady = False\<rparr>"

definition SetReady :: "bool \<Rightarrow> checker \<Rightarrow> checker" where
  "SetReady ready c = c\<lparr>ckReady := ready\<rparr>"

definition writeStatus :: "nat \<Rightarrow> string \<Rightarrow> writer \<Rightarrow> writer" where
  "writeStatus code status w =
     Write (json_body (JObj [(''status'', JStr status)])) (WriteHeader code (hset ''Content-Type'' json_content w))"

definition health_Live :: "checker \<Rightarrow> writer \<Rightarrow> writer" where
  "health_Live c w = writeStatus 200 ''ok'' w"

definition health_Ready :: "checker \<Rightarrow> writer \<Rightarrow> writer" where
  "health_Ready c w = (if ckReady c then writeStatus 200 ''ready'' w else writeStatus 503 ''not ready'' w)"

record build_info =
  biVersion :: string
  biCommit :: string
  biBuildDate :: string
  biGoVersion :: string
  biOS :: string
  biArch :: string

text \<open>\<open>stamped\<close> holds what \<open>-ldflags\<close> overrides of the three variables.\<close>

definition version_Get :: "(string \<Rightarrow> string option) \<Rightarrow> string \<times> string \<times> string \<Rightarrow> build_info" where
  "version_Get stamped = (\<lambda>(go, os, arch).
     let var = (\<lambda>name default. case stamped name of None \<Rightarrow> default | Some v \<Rightarrow> v) in
     \<lparr>biVersion = var ''Version'' ''dev'', biCommit = var ''Commit'' ''none'', biBuildDate = var ''BuildDate'' ''unknown'',
      biGoVersion = go, biOS = os, biArch = arch\<rparr>)"

definition version_json :: "build_info \<Rightarrow> json" where
  "version_json i = JObj
     [(''version'', JStr (biVersion i)), (''commit'', JStr (biCommit i)), (''buildDate'', JStr (biBuildDate i)),
      (''goVersion'', JStr (biGoVersion i)), (''os'', JStr (biOS i)), (''arch'', JStr (biArch i))]"

definition handleVersion :: "build_info \<Rightarrow> writer \<Rightarrow> writer" where
  "handleVersion i w = Write (json_body (version_json i)) (hset ''Content-Type'' json_content w)"

end
