(* ===== verification/Go_Mux.thy ===== *)
theory Go_Mux
  imports Http "HOL-Library.Char_ord" "HOL-Library.List_Lexorder"
begin

section \<open>net/http: the request multiplexer\<close>

text \<open>
  \<open>http.ServeMux\<close> of Go 1.25, for patterns without a host.  A pattern is parsed into a method and
  segments; an invalid one panics when it is registered, here \<open>None\<close>.  A request is matched segment by
  segment, a literal before a wildcard before the rest of the path, as the routing tree does; then
  come the redirects to a trailing slash and to the clean path, and the answers 405 and 404.
\<close>

datatype segment = Literal string | Wildcard string | RestOfPath

type_synonym 'h route = "string \<times> segment list \<times> 'h"

subsection \<open>Patterns\<close>

definition path_unescape :: "string \<Rightarrow> string" where
  "path_unescape s = (case unescape EncPath s of None \<Rightarrow> s | Some t \<Rightarrow> t)"

definition clean_path :: "string \<Rightarrow> string" where
  "clean_path p0 =
     (let p = (if has_prefix p0 ''/'' then p0 else CHR ''/'' # p0); np = path_Clean p
      in if has_suffix p ''/'' \<and> np \<noteq> ''/'' then np @ ''/'' else np)"

definition wildcard_name :: "string \<Rightarrow> bool" where
  "wildcard_name n \<longleftrightarrow> n \<noteq> [] \<and> \<not> is_digit (hd n) \<and> list_all (\<lambda>c. is_alnum c \<or> c = CHR ''_'') n"

fun parse_segments :: "string list \<Rightarrow> segment list option" where
  "parse_segments [] = Some []"
| "parse_segments (seg # rest) =
     (if seg = [] \<and> rest = [] then Some [RestOfPath]
      else if \<not> List.member seg CHR ''{'' then map_option (Cons (Literal (path_unescape seg))) (parse_segments rest)
      else if seg = ''{$}'' then (if rest = [] then Some [Literal ''/''] else None)
      else if has_prefix seg ''{'' \<and> has_suffix seg ''}'' \<and> wildcard_name (butlast (tl seg))
        then map_option (Cons (Wildcard (butlast (tl seg)))) (parse_segments rest)
      else None)"

definition wildcards :: "segment list \<Rightarrow> string list" where
  "wildcards segs = concat (map (\<lambda>s. case s of Wildcard n \<Rightarrow> [n] | _ \<Rightarrow> []) segs)"

definition parse_pattern :: "string \<Rightarrow> (string \<times> segment list) option" where
  "parse_pattern pat =
     (let (before, after, found) = cut_byte CHR '' '' pat;
          (verb, path) = (if found then (before, trim_left_set '' '' after) else ([], pat))
      in if found \<and> \<not> is_http_token verb then None
         else if \<not> has_prefix path ''/'' then None
         else if verb \<noteq> [] \<and> verb \<noteq> ''CONNECT'' \<and> path \<noteq> clean_path path then None
         else (case parse_segments (split_byte CHR ''/'' (tl path)) of
                 None \<Rightarrow> None
               | Some segs \<Rightarrow> if distinct (wildcards segs) then Some (verb, segs) else None))"

text \<open>Registering a list of patterns, \<open>None\<close> when one panics.\<close>

fun register_all :: "(string \<times> 'h) list \<Rightarrow> 'h route list option" where
  "register_all [] = Some []"
| "register_all ((pat, h) # rest) =
     (case parse_pattern pat of
        None \<Rightarrow> None
      | Some (verb, segs) \<Rightarrow> map_option (Cons (verb, segs, h)) (register_all rest))"

subsection \<open>Matching\<close>

text \<open>A candidate: its whole pattern, what is left of it, the wildcards bound so far, the handler.\<close>

type_synonym 'h candidate = "segment list \<times> segment list \<times> (string \<times> string) list \<times> 'h"

definition first_segment :: "string \<Rightarrow> string \<times> string" where
  "first_segment path =
     (if path = ''/'' then (''/'', [])
      else let seg = takeWhile (\<lambda>c. c \<noteq> CHR ''/'') (tl path) in (path_unescape seg, drop (length seg) (tl path)))"

lemma first_segment_shorter: "path \<noteq> [] \<Longrightarrow> length (snd (first_segment path)) < length path"
  by (cases path) (auto simp: first_segment_def Let_def)

definition at_literal :: "string \<Rightarrow> 'h candidate list \<Rightarrow> 'h candidate list" where
  "at_literal seg cands = List.map_filter (\<lambda>(all, left, bound, h).
     case left of Literal l # rest \<Rightarrow> if l = seg then Some (all, rest, bound, h) else None | _ \<Rightarrow> None) cands"

definition at_wildcard :: "string \<Rightarrow> 'h candidate list \<Rightarrow> 'h candidate list" where
  "at_wildcard seg cands = List.map_filter (\<lambda>(all, left, bound, h).
     case left of Wildcard n # rest \<Rightarrow> Some (all, rest, bound @ [(n, seg)], h) | _ \<Rightarrow> None) cands"

definition finished_at :: "segment list \<Rightarrow> 'h candidate list \<Rightarrow> (segment list \<times> (string \<times> string) list \<times> 'h) option" where
  "finished_at end cands = map_option (\<lambda>(all, _, bound, h). (all, bound, h)) (List.find (\<lambda>(_, left, _). left = end) cands)"

function match_path :: "'h candidate list \<Rightarrow> string \<Rightarrow> (segment list \<times> (string \<times> string) list \<times> 'h) option" where
  "match_path cands path =
     (if path = [] then finished_at [] cands
      else
        let (seg, rest) = first_segment path in
        case match_path (at_literal seg cands) rest of
          Some m \<Rightarrow> Some m
        | None \<Rightarrow>
            (case if seg \<noteq> ''/'' then match_path (at_wildcard seg cands) rest else None of
               Some m \<Rightarrow> Some m
             | None \<Rightarrow> finished_at [RestOfPath] cands))"
  by pat_completeness auto
termination
  by (relation "measure (length \<circ> snd)") (auto, metis first_segment_shorter snd_conv, metis first_segment_shorter snd_conv)

declare match_path.simps [simp del]

definition match_verb :: "'h route list \<Rightarrow> string \<Rightarrow> string \<Rightarrow> (segment list \<times> (string \<times> string) list \<times> 'h) option" where
  "match_verb routes verb path =
     match_path (map (\<lambda>(_, segs, h). (segs, segs, [], h)) (filter (\<lambda>(v, _). v = verb) routes)) path"

definition mux_match :: "'h route list \<Rightarrow> string \<Rightarrow> string \<Rightarrow> (segment list \<times> (string \<times> string) list \<times> 'h) option" where
  "mux_match routes verb path =
     (case match_verb routes verb path of
        Some m \<Rightarrow> Some m
      | None \<Rightarrow>
          (case if verb = ''HEAD'' then match_verb routes ''GET'' path else None of
             Some m \<Rightarrow> Some m | None \<Rightarrow> match_verb routes [] path))"

definition exact_match :: "(segment list \<times> (string \<times> string) list \<times> 'h) option \<Rightarrow> string \<Rightarrow> bool" where
  "exact_match m path =
     (case m of
        None \<Rightarrow> False
      | Some (segs, _) \<Rightarrow>
          if segs = [] \<or> last segs \<noteq> RestOfPath then True
          else if path \<noteq> [] \<and> last path \<noteq> CHR ''/'' then False
          else length segs = count_list path CHR ''/'')"

definition slash_redirect :: "'h route list \<Rightarrow> string \<Rightarrow> string \<Rightarrow> url \<Rightarrow> url option" where
  "slash_redirect routes verb path u =
     (if \<not> exact_match (mux_match routes verb path) path \<and> \<not> has_suffix path ''/'' \<and>
         exact_match (mux_match routes verb (path @ ''/'')) (path @ ''/'')
      then Some (empty_url\<lparr>Path := clean_path (Path u) @ ''/'', RawQuery := RawQuery u\<rparr>) else None)"

text \<open>The methods with a pattern for the path, or for it with a slash, sorted.\<close>

definition verbs_at :: "'h route list \<Rightarrow> string \<Rightarrow> string list" where
  "verbs_at routes path = filter (\<lambda>v. v \<noteq> [] \<and> match_verb routes v path \<noteq> None) (map fst routes)"

definition matching_verbs :: "'h route list \<Rightarrow> string \<Rightarrow> string list" where
  "matching_verbs routes path =
     (let found = (\<lambda>p. let vs = verbs_at routes p in if List.member vs ''GET'' then ''HEAD'' # vs else vs)
      in sort (remdups (found path @ (if \<not> has_suffix path ''/'' then found (path @ ''/'') else []))))"

datatype 'h mux_result = MuxRedirect string | MuxHandler 'h "(string \<times> string) list" | MuxNotAllowed "string list" | MuxNotFound

definition mux_find :: "'h route list \<Rightarrow> request \<Rightarrow> 'h mux_result" where
  "mux_find routes r =
     (let u = rURL r; escaped = EscapedPath u; verb = rMethod r;
          path = (if verb = ''CONNECT'' then escaped else clean_path escaped)
      in case slash_redirect routes verb path u of
           Some v \<Rightarrow> MuxRedirect (url_String v)
         | None \<Rightarrow>
             if path \<noteq> escaped then MuxRedirect (url_String (empty_url\<lparr>Path := path, RawQuery := RawQuery u\<rparr>))
             else (case mux_match routes verb path of
                     Some (_, bound, h) \<Rightarrow> MuxHandler h bound
                   | None \<Rightarrow>
                       (let verbs = matching_verbs routes path
                        in if verbs \<noteq> [] then MuxNotAllowed verbs else MuxNotFound)))"

text \<open>What the multiplexer itself answers.\<close>

definition mux_answer :: "'h mux_result \<Rightarrow> request \<Rightarrow> writer \<Rightarrow> writer" where
  "mux_answer m r w =
     (case m of
        MuxRedirect target \<Rightarrow> http_Redirect r target 301 w
      | MuxNotAllowed verbs \<Rightarrow> http_Error ''Method Not Allowed'' 405 (hset ''Allow'' (join '', '' verbs) w)
      | _ \<Rightarrow> http_NotFound w)"

definition path_value :: "(string \<times> string) list \<Rightarrow> string \<Rightarrow> string" where
  "path_value bound name = (case map_of bound name of None \<Rightarrow> [] | Some v \<Rightarrow> v)"

subsection \<open>A route found is a route registered\<close>

abbreviation all_handlers :: "('h \<Rightarrow> bool) \<Rightarrow> 'h candidate list \<Rightarrow> bool" where
  "all_handlers P cands \<equiv> list_all (\<lambda>c. P (snd (snd (snd c)))) cands"

lemma find_in: "List.find P xs = Some x \<Longrightarrow> x \<in> set xs"
  by (induction xs) (auto split: if_splits)

lemma finished_at_handler: "all_handlers P cands \<Longrightarrow> finished_at rest cands = Some (segs, b, h) \<Longrightarrow> P h"
  by (auto simp: finished_at_def list_all_iff dest!: find_in)

lemma list_all_map_filter:
  "list_all P xs \<Longrightarrow> (\<And>x y. P x \<Longrightarrow> f x = Some y \<Longrightarrow> Q y) \<Longrightarrow> list_all Q (List.map_filter f xs)"
  by (induction xs) (auto simp: map_filter_simps split: option.split)

lemma at_handlers:
  "all_handlers P cands \<Longrightarrow> all_handlers P (at_literal seg cands)"
  "all_handlers P cands \<Longrightarrow> all_handlers P (at_wildcard seg cands)"
  unfolding at_literal_def at_wildcard_def
  by (erule list_all_map_filter; auto split: list.splits segment.splits if_splits)+

lemma match_path_handler: "all_handlers P cands \<Longrightarrow> match_path cands path = Some (segs, b, h) \<Longrightarrow> P h"
proof (induction cands path arbitrary: segs b h rule: match_path.induct)
  case (1 cands path)
  obtain seg rest where f: "first_segment path = (seg, rest)" by fastforce
  show ?case
  proof (cases "path = []")
    case True
    then have "finished_at [] cands = Some (segs, b, h)" using "1.prems"(2) by (simp add: match_path.simps [of cands "[]"])
    with "1.prems"(1) show ?thesis by (rule finished_at_handler)
  next
    case False
    from "1.prems"(2) False consider "match_path (at_literal seg cands) rest = Some (segs, b, h)"
      | "match_path (at_literal seg cands) rest = None" "seg \<noteq> ''/''" "match_path (at_wildcard seg cands) rest = Some (segs, b, h)"
      | "finished_at [RestOfPath] cands = Some (segs, b, h)"
      by (subst (asm) match_path.simps) (auto simp: f Let_def split: option.splits if_splits)
    then show ?thesis
    proof cases
      case 1
      show ?thesis by (rule "1.IH"(1) [OF False f [symmetric] refl at_handlers(1) [OF "1.prems"(1)] 1])
    next
      case 2
      show ?thesis by (rule "1.IH"(2) [OF False f [symmetric] refl 2(1,2) at_handlers(2) [OF "1.prems"(1)] 2(3)])
    next
      case 3
      show ?thesis by (rule finished_at_handler [OF "1.prems"(1) 3])
    qed
  qed
qed

lemma match_verb_from:
  "match_verb routes verb path = Some (segs, b, h) \<Longrightarrow> \<exists>segs'. (verb, segs', h) \<in> set routes"
  unfolding match_verb_def
  by (erule match_path_handler [rotated]) (force simp: list_all_iff)

lemma mux_find_from:
  "mux_find routes r = MuxHandler h b \<Longrightarrow> \<exists>verb segs. (verb, segs, h) \<in> set routes \<and>
    (verb = rMethod r \<or> verb = ''GET'' \<and> rMethod r = ''HEAD'' \<or> verb = [])"
  by (auto simp: mux_find_def mux_match_def Let_def split: option.splits if_splits dest!: match_verb_from)

lemma register_all_from:
  "register_all pats = Some routes \<Longrightarrow> (verb, segs, h) \<in> set routes \<Longrightarrow>
   \<exists>pat. (pat, h) \<in> set pats \<and> parse_pattern pat = Some (verb, segs)"
proof (induction pats arbitrary: routes)
  case (Cons p pats)
  obtain pat rt where p: "p = (pat, rt)" by (cases p)
  obtain v ss rest where "parse_pattern pat = Some (v, ss)" "register_all pats = Some rest" "routes = (v, ss, rt) # rest"
    using Cons.prems(1) by (auto simp: p split: option.splits)
  then show ?case using Cons.IH [of rest] Cons.prems(2) p by auto
qed simp

lemma parse_pattern_verb:
  "CHR '' '' \<notin> set verb \<Longrightarrow> parse_pattern (verb @ CHR '' '' # path) = Some (v, segs) \<Longrightarrow> v = verb"
proof -
  assume *: "CHR '' '' \<notin> set verb" "parse_pattern (verb @ CHR '' '' # path) = Some (v, segs)"
  have "takeWhile (\<lambda>c. c \<noteq> CHR '' '') (verb @ CHR '' '' # path) = verb"
    using *(1) by (induction verb) auto
  with *(2) show "v = verb" by (simp add: parse_pattern_def cut_byte_def Let_def split: if_splits option.splits)
qed

end
