(* ===== verification/Auth_Limiter.thy ===== *)
theory Auth_Limiter
  imports Prelude "HOL-Library.AList"
begin

section \<open>Login rate limiting (internal/auth/ratelimit.go)\<close>

text \<open>
  A fixed-window limiter per key.  Times are nanoseconds on the monotonic clock; the map of windows
  is an association list.  The locale \<open>window_limiter\<close> is what the panel relies on, stated on the
  abstraction \<open>view\<close> (the count and the end of each key's window); \<open>RateLimiter\<close> interprets it.
\<close>

record hitWindow =
  hwCount :: int
  hwReset :: int

record limiter =
  lLimit :: int
  lWindow :: int
  lHits :: "(string \<times> hitWindow) list"

definition NewRateLimiter :: "int \<Rightarrow> int \<Rightarrow> limiter" where
  "NewRateLimiter limit window = \<lparr>lLimit = limit, lWindow = window, lHits = []\<rparr>"

definition Allow :: "int \<Rightarrow> string \<Rightarrow> limiter \<Rightarrow> bool \<times> limiter" where
  "Allow now key r =
     (let fresh = (True, r\<lparr>lHits := AList.update key \<lparr>hwCount = 1, hwReset = now + lWindow r\<rparr> (lHits r)\<rparr>) in
      case map_of (lHits r) key of
        None \<Rightarrow> fresh
      | Some w \<Rightarrow>
          if hwReset w < now then fresh
          else let c = hwCount w + 1
               in (c \<le> lLimit r, r\<lparr>lHits := AList.update key (w\<lparr>hwCount := c\<rparr>) (lHits r)\<rparr>))"

definition Reset :: "string \<Rightarrow> limiter \<Rightarrow> limiter" where
  "Reset key r = r\<lparr>lHits := AList.delete key (lHits r)\<rparr>"

subsection \<open>The interface\<close>

text \<open>
  The outcomes of a run of attempts, each a time, a key and whether success would be followed by a
  reset of the key.
\<close>

type_synonym attempt = "int \<times> string \<times> bool"

fun after_allow :: "(string \<Rightarrow> 's \<Rightarrow> 's) \<Rightarrow> string \<Rightarrow> bool \<Rightarrow> bool \<times> 's \<Rightarrow> 's" where
  "after_allow reset k succeeds (ok, s) = (if ok \<and> succeeds then reset k s else s)"

fun outcomes :: "(int \<Rightarrow> string \<Rightarrow> 's \<Rightarrow> bool \<times> 's) \<Rightarrow> (string \<Rightarrow> 's \<Rightarrow> 's) \<Rightarrow> 's \<Rightarrow> attempt list \<Rightarrow> (int \<times> string \<times> bool) list" where
  "outcomes allow reset s [] = []"
| "outcomes allow reset s ((t, k, succeeds) # as) =
     (t, k, fst (allow t k s)) # outcomes allow reset (after_allow reset k succeeds (allow t k s)) as"

text \<open>No attempt with the key would succeed.\<close>

definition failing :: "string \<Rightarrow> attempt list \<Rightarrow> bool" where
  "failing k as \<longleftrightarrow> list_all (\<lambda>(_, j, succeeds). \<not> (j = k \<and> succeeds)) as"

lemma failing_simps [simp]:
  "failing k []" "failing k ((t, j, succeeds) # as) \<longleftrightarrow> \<not> (j = k \<and> succeeds) \<and> failing k as"
  by (simp_all add: failing_def)

definition accepted :: "string \<Rightarrow> int \<Rightarrow> int \<Rightarrow> (int \<times> string \<times> bool) list \<Rightarrow> nat" where
  "accepted k t T os = length (filter (\<lambda>(u, j, ok). j = k \<and> ok \<and> t \<le> u \<and> u \<le> T) os)"

lemma accepted_simps [simp]:
  "accepted k t T [] = 0"
  "accepted k t T ((u, j, ok) # os) = (if j = k \<and> ok \<and> t \<le> u \<and> u \<le> T then 1 else 0) + accepted k t T os"
  by (simp_all add: accepted_def)

abbreviation times :: "attempt list \<Rightarrow> int list" where
  "times as \<equiv> map fst as"

lemma accepted_late: "list_all (\<lambda>u. T < u) (times as) \<Longrightarrow> accepted k t T (outcomes allow reset s as) = 0"
  by (induction allow reset s as rule: outcomes.induct) auto

locale window_limiter =
  fixes allow :: "int \<Rightarrow> string \<Rightarrow> 's \<Rightarrow> bool \<times> 's"
    and reset :: "string \<Rightarrow> 's \<Rightarrow> 's"
    and view :: "'s \<Rightarrow> string \<Rightarrow> (int \<times> int) option"
    and limit :: "'s \<Rightarrow> int"
    and window :: "'s \<Rightarrow> int"
  assumes allow_new: "(case view s k of None \<Rightarrow> True | Some (c, d) \<Rightarrow> d < now) \<Longrightarrow>
      fst (allow now k s) \<and> view (snd (allow now k s)) = (view s)(k \<mapsto> (1, now + window s))"
    and allow_in: "view s k = Some (c, d) \<Longrightarrow> now \<le> d \<Longrightarrow>
      fst (allow now k s) = (c + 1 \<le> limit s) \<and> view (snd (allow now k s)) = (view s)(k \<mapsto> (c + 1, d))"
    and allow_limit: "limit (snd (allow now k s)) = limit s"
    and allow_window: "window (snd (allow now k s)) = window s"
    and reset_view: "view (reset k s) = (view s)(k := None)"
    and reset_limit: "limit (reset k s) = limit s"
    and reset_window: "window (reset k s) = window s"
begin

lemma allow_view_cases:
  obtains "fst (allow now k s)" "view (snd (allow now k s)) = (view s)(k \<mapsto> (1, now + window s))"
      "\<And>c d. view s k = Some (c, d) \<Longrightarrow> d < now"
  | c d where "view s k = Some (c, d)" "now \<le> d" "fst (allow now k s) = (c + 1 \<le> limit s)"
      "view (snd (allow now k s)) = (view s)(k \<mapsto> (c + 1, d))"
proof (cases "case view s k of None \<Rightarrow> True | Some (c, d) \<Rightarrow> d < now")
  case True
  then show ?thesis using allow_new [OF True] that(1) by (auto split: option.splits)
next
  case False
  then obtain c d where "view s k = Some (c, d)" "now \<le> d" by (auto split: option.splits)
  with allow_in [OF this] that(2) show ?thesis by blast
qed

lemma allow_other: "j \<noteq> k \<Longrightarrow> view (snd (allow now j s)) k = view s k"
  by (rule allow_view_cases [of now j s]) auto

lemma after_failing: "\<not> x \<Longrightarrow> after_allow reset k x p = snd p"
  by (cases p) simp

lemma after_other: "j \<noteq> k \<Longrightarrow> view (after_allow reset j x (allow now j s)) k = view s k"
  using allow_other [of j k now s] by (cases "allow now j s") (auto simp: reset_view)

lemma after_limit: "limit (after_allow reset j x (allow now j s)) = limit s"
  using allow_limit [of now j s] by (cases "allow now j s") (auto simp: reset_limit)

lemma after_window: "window (after_allow reset j x (allow now j s)) = window s"
  using allow_window [of now j s] by (cases "allow now j s") (auto simp: reset_window)

text \<open>Inside one window, only what is left of the limit is accepted.\<close>

lemma within_window:
  "view s k = Some (c, d) \<Longrightarrow> T \<le> d \<Longrightarrow> sorted (times as) \<Longrightarrow> failing k as \<Longrightarrow>
   accepted k t T (outcomes allow reset s as) \<le> nat (limit s - c)"
proof (induction as arbitrary: s c d)
  case (Cons a as)
  obtain u j x where a: "a = (u, j, x)" by (cases a) auto
  let ?s = "after_allow reset j x (allow u j s)"
  have sorted: "sorted (times as)" "list_all (\<lambda>v. u \<le> v) (times as)"
    using Cons.prems(3) by (auto simp: a list_all_iff)
  show ?case
  proof (cases "j = k")
    case False
    then show ?thesis
      using Cons.IH [OF _ Cons.prems(2) sorted(1), of ?s c] Cons.prems(1,4)
      by (simp add: a after_other after_limit)
  next
    case True
    have x: "after_allow reset k x (allow u k s) = snd (allow u k s)" "failing k as" using Cons.prems(4) True by (simp_all add: a after_failing)
    show ?thesis
    proof (cases "u \<le> d")
      case in_window: True
      from allow_in [OF Cons.prems(1) in_window] have
        "fst (allow u k s) = (c + 1 \<le> limit s)" "view ?s k = Some (c + 1, d)" by (simp_all add: True x)
      with Cons.IH [OF this(2) Cons.prems(2) sorted(1) x(2)] show ?thesis
        by (auto simp: a True x allow_limit)
    next
      case False
      then have late: "T < u" using Cons.prems(2) by linarith
      then have "list_all (\<lambda>v. T < v) (times as)" using sorted(2) by (auto simp: list_all_iff)
      from accepted_late [OF this, of k t allow reset ?s] late show ?thesis by (simp add: a)
    qed
  qed
qed simp

text \<open>From a moment on, at most the rest of the running window and one more window count.\<close>

lemma two_windows:
  assumes "T \<le> t + window s" "list_all (\<lambda>u. t \<le> u) (times as)" "sorted (times as)" "failing k as"
  shows "accepted k t T (outcomes allow reset s as) \<le>
    (case view s k of None \<Rightarrow> 0 | Some (c, d) \<Rightarrow> nat (limit s - c)) + nat (max 1 (limit s))"
  using assms
proof (induction as arbitrary: s)
  case (Cons a as)
  obtain u j x where a: "a = (u, j, x)" by (cases a) auto
  let ?s = "after_allow reset j x (allow u j s)"
  have sorted: "sorted (times as)" "list_all (\<lambda>v. t \<le> v) (times as)" and u: "t \<le> u"
    using Cons.prems(2,3) by (auto simp: a list_all_iff)
  have IH: "accepted k t T (outcomes allow reset ?s as) \<le>
    (case view ?s k of None \<Rightarrow> 0 | Some (c, d) \<Rightarrow> nat (limit s - c)) + nat (max 1 (limit s))"
    using Cons.IH [of ?s, OF _ sorted(2,1)] Cons.prems(1,4)
    by (auto simp: a after_limit after_window split: option.splits)
  show ?case
  proof (cases "j = k")
    case False
    then show ?thesis using IH by (simp add: a after_other)
  next
    case True
    have x: "after_allow reset k x (allow u k s) = snd (allow u k s)" "failing k as" using Cons.prems(4) True by (simp_all add: a after_failing)
    show ?thesis
    proof (rule allow_view_cases [of u k s])
      assume new: "fst (allow u k s)" "view (snd (allow u k s)) = (view s)(k \<mapsto> (1, u + window s))"
      have "view ?s k = Some (1, u + window s)" "T \<le> u + window s"
        using new(2) Cons.prems(1) u by (simp_all add: True x)
      from within_window [OF this sorted(1) x(2), of t]
      have "accepted k t T (outcomes allow reset s (a # as)) \<le> 1 + nat (limit s - 1)"
        by (simp add: a True x allow_limit)
      also have "1 + nat (limit s - 1) = nat (max 1 (limit s))" by simp
      finally show ?thesis by (rule trans_le_add2)
    next
      fix c d
      assume *: "view s k = Some (c, d)" "u \<le> d" "fst (allow u k s) = (c + 1 \<le> limit s)"
        "view (snd (allow u k s)) = (view s)(k \<mapsto> (c + 1, d))"
      then show ?thesis using IH by (auto simp: a True x)
    qed
  qed
qed simp

lemma counts_positive:
  "(\<And>c d. view s k = Some (c, d) \<Longrightarrow> 1 \<le> c) \<Longrightarrow> view (after_allow reset j x (allow now j s)) k = Some (c, d) \<Longrightarrow> 1 \<le> c"
proof (cases "fst (allow now j s) \<and> x")
  case True
  assume *: "\<And>c d. view s k = Some (c, d) \<Longrightarrow> 1 \<le> c" "view (after_allow reset j x (allow now j s)) k = Some (c, d)"
  then have "j \<noteq> k" using True by (cases "allow now j s") (auto simp: reset_view)
  with * show "1 \<le> c" by (simp add: after_other)
next
  case False
  then have "after_allow reset j x (allow now j s) = snd (allow now j s)" by (cases "allow now j s") auto
  moreover assume "\<And>c d. view s k = Some (c, d) \<Longrightarrow> 1 \<le> c" "view (after_allow reset j x (allow now j s)) k = Some (c, d)"
  ultimately show "1 \<le> c" by (rule_tac allow_view_cases [of now j s]; cases "j = k") force+
qed

lemma accepted_bound:
  assumes "T \<le> t + window s" "sorted (times as)" "failing k as" "\<And>c d. view s k = Some (c, d) \<Longrightarrow> 1 \<le> c"
  shows "accepted k t T (outcomes allow reset s as) \<le> 2 * nat (max 1 (limit s))"
  using assms
proof (induction as arbitrary: s)
  case (Cons a as)
  obtain u j x where a: "a = (u, j, x)" by (cases a) auto
  let ?s = "after_allow reset j x (allow u j s)"
  show ?case
  proof (cases "t \<le> u")
    case True
    have "list_all (\<lambda>v. t \<le> v) (times (a # as))" using True Cons.prems(2) by (auto simp: a list_all_iff)
    from two_windows [OF Cons.prems(1) this Cons.prems(2,3)] Cons.prems(4) show ?thesis
      by (auto split: option.splits)
  next
    case False
    have "accepted k t T (outcomes allow reset ?s as) \<le> 2 * nat (max 1 (limit ?s))"
      by (rule Cons.IH) (use Cons.prems counts_positive [OF Cons.prems(4)] in \<open>auto simp: a after_window\<close>)
    with False show ?thesis by (simp add: a after_limit)
  qed
qed simp

text \<open>What a key sees depends on its own attempts only.\<close>

lemma isolated:
  "view s k = view s' k \<Longrightarrow> limit s = limit s' \<Longrightarrow> window s = window s' \<Longrightarrow>
   filter (\<lambda>(u, j, ok). j = k) (outcomes allow reset s as) = outcomes allow reset s' (filter (\<lambda>(u, j, x). j = k) as)"
proof (induction as arbitrary: s s')
  case (Cons a as)
  obtain u j x where a: "a = (u, j, x)" by (cases a) auto
  show ?case
  proof (cases "j = k")
    case False
    then show ?thesis
      using Cons.IH [of "after_allow reset j x (allow u j s)" s'] Cons.prems
      by (simp add: a after_other after_limit after_window)
  next
    case True
    have "fst (allow u k s) = fst (allow u k s') \<and> view (snd (allow u k s)) k = view (snd (allow u k s')) k"
      using Cons.prems allow_new [where s = s and k = k and now = u] allow_new [where s = s' and k = k and now = u]
        allow_in [where s = s and k = k and now = u] allow_in [where s = s' and k = k and now = u]
      by (cases "case view s k of None \<Rightarrow> True | Some (c, d) \<Rightarrow> d < u") (auto split: option.splits)
    then have "fst (allow u k s) = fst (allow u k s')"
      "view (after_allow reset k x (allow u k s)) k = view (after_allow reset k x (allow u k s')) k"
      by (cases "allow u k s"; cases "allow u k s'"; auto simp: reset_view)+
    then show ?thesis
      using Cons.IH [of "after_allow reset k x (allow u k s)" "after_allow reset k x (allow u k s')"] Cons.prems
      by (simp add: a True after_limit after_window)
  qed
qed simp

end

subsection \<open>The limiter implements it\<close>

definition limiter_view :: "limiter \<Rightarrow> string \<Rightarrow> (int \<times> int) option" where
  "limiter_view r k = map_option (\<lambda>w. (hwCount w, hwReset w)) (map_of (lHits r) k)"

interpretation rate: window_limiter Allow Reset limiter_view lLimit lWindow
  by unfold_locales
    (auto simp: Allow_def Reset_def limiter_view_def Let_def update_conv' delete_conv' fun_eq_iff split: option.splits)

text \<open>
  In any stretch of time no longer than the window, of all the attempts made with a key that do
  not succeed at most twice the limit are accepted (the rest of one window and a whole next one),
  whatever other keys do; and what a key experiences is what it would experience alone, so no client
  can exhaust the attempts of another.
\<close>

theorem limiter_bound:
  assumes "sorted (times as)" "T \<le> t + window" "failing k as"
  shows "accepted k t T (outcomes Allow Reset (NewRateLimiter limit window) as) \<le> 2 * nat (max 1 limit) \<and>
    filter (\<lambda>(u, j, ok). j = k) (outcomes Allow Reset (NewRateLimiter limit window) as) =
      outcomes Allow Reset (NewRateLimiter limit window) (filter (\<lambda>(u, j, x). j = k) as)"
  using rate.accepted_bound [of T t "NewRateLimiter limit window" as k]
    rate.isolated [of "NewRateLimiter limit window" k "NewRateLimiter limit window" as] assms
  by (simp add: NewRateLimiter_def limiter_view_def)

theorem limiter_bound_witness:
  "accepted ''a'' 0 60 (outcomes Allow Reset (NewRateLimiter 1 60)
     [(0, ''a'', False), (1, ''b'', True), (2, ''a'', False), (70, ''a'', False)]) \<le> 2 \<and>
   outcomes Allow Reset (NewRateLimiter 1 60) [(0, ''a'', False), (1, ''b'', True), (2, ''a'', False), (70, ''a'', False)] =
     [(0, ''a'', True), (1, ''b'', True), (2, ''a'', False), (70, ''a'', True)]"
proof -
  have "sorted (times [(0::int, ''a'', False), (1, ''b'', True), (2, ''a'', False), (70, ''a'', False)])"
    "failing ''a'' [(0::int, ''a'', False), (1, ''b'', True), (2, ''a'', False), (70, ''a'', False)]" by simp_all
  from limiter_bound [OF this(1) _ this(2), of 60 0 60 1] show ?thesis
    by (simp add: NewRateLimiter_def Allow_def Reset_def Let_def)
qed

text \<open>
  The table only grows: an attempt is remembered after its window has ended, until its key is reset.
\<close>

lemma Allow_remembers:
  "map_of (lHits (snd (Allow now j l))) k \<noteq> None \<longleftrightarrow> k = j \<or> map_of (lHits l) k \<noteq> None"
  by (auto simp: Allow_def Let_def update_conv' split: option.split)

end
