(* ===== verification/Go_Hex.thy ===== *)
theory Go_Hex
  imports Prelude
begin

section \<open>encoding/hex and random identifiers\<close>

text \<open>
  Tokens and identifiers are random bytes in lower-case hex.  \<open>crypto/rand.Read\<close> either fills the
  buffer or fails: \<open>Some b\<close> with the buffer, or \<open>None\<close>.
\<close>

definition hex_byte :: "char \<Rightarrow> string" where
  "hex_byte c = [digit_char (byte c div 16), digit_char (byte c mod 16)]"

definition hex_EncodeToString :: "bytes \<Rightarrow> string" where
  "hex_EncodeToString b = concat (map hex_byte b)"

lemma digit_char_inj: "a < 16 \<Longrightarrow> b < 16 \<Longrightarrow> digit_char a = digit_char b \<longleftrightarrow> a = b"
  by (metis digit_val_char)

lemma hex_byte_inj: "hex_byte c = hex_byte d \<longleftrightarrow> c = d"
proof
  assume eq: "hex_byte c = hex_byte d"
  have b: "byte c div 16 < 16" "byte d div 16 < 16" "byte c mod 16 < 16" "byte d mod 16 < 16"
    using byte_less [of c] byte_less [of d] by (simp_all add: less_mult_imp_div_less)
  have "byte c div 16 = byte d div 16" "byte c mod 16 = byte d mod 16"
    using eq digit_char_inj [OF b(1,2)] digit_char_inj [OF b(3,4)] by (simp_all add: hex_byte_def)
  then have "byte c = byte d" by (metis div_mult_mod_eq)
  then show "c = d" by simp
qed simp

lemma hex_simps [simp]:
  "hex_EncodeToString [] = []" "hex_EncodeToString (c # b) = hex_byte c @ hex_EncodeToString b"
  by (simp_all add: hex_EncodeToString_def)

lemma length_hex [simp]: "length (hex_EncodeToString b) = 2 * length b"
  by (induction b) (simp_all add: hex_byte_def)

lemma hex_inj: "hex_EncodeToString b = hex_EncodeToString c \<longleftrightarrow> b = c"
proof
  assume "hex_EncodeToString b = hex_EncodeToString c"
  then show "b = c"
  proof (induction b arbitrary: c)
    case Nil
    then have "length (hex_EncodeToString c) = 0" by (metis hex_simps(1) list.size(3))
    then show ?case by simp
  next
    case (Cons x b)
    then have "length (hex_EncodeToString c) = 2 * length (x # b)" by (metis length_hex)
    then obtain y c' where c: "c = y # c'" by (cases c) auto
    with Cons.prems have "hex_byte x = hex_byte y" "hex_EncodeToString b = hex_EncodeToString c'"
      by (simp_all add: hex_byte_def)
    with Cons.IH c show ?case by (simp add: hex_byte_inj)
  qed
qed simp

text \<open>The characters of an identifier are digits and small letters.\<close>

lemma hex_chars: "list_all (\<lambda>c. is_digit c \<or> is_lower c) (hex_EncodeToString b)"
proof (induction b)
  case (Cons c b)
  have "byte c div 16 < 16" "byte c mod 16 < 16"
    using byte_less [of c] by (simp_all add: less_mult_imp_div_less)
  with Cons digit_char_hex show ?case by (simp add: hex_byte_def)
qed simp

definition randomHex :: "bytes option \<Rightarrow> string option" where
  "randomHex rand = map_option hex_EncodeToString rand"

end
