(* ===== verification/Auth_Session.thy ===== *)
theory Auth_Session
  imports Go_Hex "HOL-Library.AList"
begin

section \<open>Admin sessions (internal/auth/session.go)\<close>

text \<open>
  The store maps tokens to sessions with an expiry; \<open>Get\<close> and \<open>Count\<close> drop what has expired.  Its
  contract is the locale \<open>session_store\<close>, on the abstraction \<open>live\<close>: the sessions that count at a
  moment.  The map is an association list with distinct keys.
\<close>

record session =
  seUser :: string
  seCSRF :: string
  seExpiry :: int

record sessionStore =
  ssByToken :: "(string \<times> session) list"
  ssTtl :: int

definition NewSessionStore :: "int \<Rightarrow> sessionStore" where
  "NewSessionStore ttl = \<lparr>ssByToken = [], ssTtl = ttl\<rparr>"

definition randomToken :: "bytes option \<Rightarrow> string option" where
  "randomToken rand = map_option hex_EncodeToString rand"

definition session_Create :: "int \<Rightarrow> string \<Rightarrow> bytes option \<Rightarrow> bytes option \<Rightarrow> sessionStore
    \<Rightarrow> (string \<times> string) option \<times> sessionStore" where
  "session_Create now user rand1 rand2 s =
     (case randomToken rand1 of
        None \<Rightarrow> (None, s)
      | Some tok \<Rightarrow>
          (case randomToken rand2 of
             None \<Rightarrow> (None, s)
           | Some csrf \<Rightarrow>
               (Some (tok, csrf), s\<lparr>ssByToken :=
                  AList.update tok \<lparr>seUser = user, seCSRF = csrf, seExpiry = now + ssTtl s\<rparr> (ssByToken s)\<rparr>)))"

definition session_Get :: "int \<Rightarrow> string \<Rightarrow> sessionStore \<Rightarrow> session option \<times> sessionStore" where
  "session_Get now tok s =
     (if tok = [] then (None, s)
      else case map_of (ssByToken s) tok of
          None \<Rightarrow> (None, s)
        | Some sess \<Rightarrow>
            if seExpiry sess < now then (None, s\<lparr>ssByToken := AList.delete tok (ssByToken s)\<rparr>)
            else (Some sess, s))"

definition session_Delete :: "string \<Rightarrow> sessionStore \<Rightarrow> sessionStore" where
  "session_Delete tok s = s\<lparr>ssByToken := AList.delete tok (ssByToken s)\<rparr>"

definition session_Count :: "int \<Rightarrow> sessionStore \<Rightarrow> nat \<times> sessionStore" where
  "session_Count now s =
     (let kept = filter (\<lambda>(_, sess). \<not> seExpiry sess < now) (ssByToken s)
      in (length kept, s\<lparr>ssByToken := kept\<rparr>))"

subsection \<open>The interface\<close>

datatype session_op =
  SCreate string "bytes option" "bytes option" | SGet string | SDelete string | SCount

text \<open>An operation leaves a token alone: it does not delete it and does not happen to draw it.\<close>

fun leaves :: "string \<Rightarrow> session_op \<Rightarrow> bool" where
  "leaves tok (SCreate u r1 r2) = (randomToken r1 \<noteq> Some tok)"
| "leaves tok (SDelete tok') = (tok' \<noteq> tok)"
| "leaves tok _ = True"

locale session_store =
  fixes create :: "int \<Rightarrow> string \<Rightarrow> bytes option \<Rightarrow> bytes option \<Rightarrow> 's \<Rightarrow> (string \<times> string) option \<times> 's"
    and get :: "int \<Rightarrow> string \<Rightarrow> 's \<Rightarrow> session option \<times> 's"
    and delete :: "string \<Rightarrow> 's \<Rightarrow> 's"
    and sessions :: "int \<Rightarrow> 's \<Rightarrow> nat \<times> 's"
    and apply_op :: "int \<times> session_op \<Rightarrow> 's \<Rightarrow> 's"
    and live :: "'s \<Rightarrow> int \<Rightarrow> string \<Rightarrow> session option"
    and ttl :: "'s \<Rightarrow> int"
    and invar :: "'s \<Rightarrow> bool"
  assumes apply_op: "apply_op (now, SCreate u r1 r2) s = snd (create now u r1 r2 s)"
      "apply_op (now, SGet tok) s = snd (get now tok s)"
      "apply_op (now, SDelete tok) s = delete tok s" "apply_op (now, SCount) s = snd (sessions now s)"
    and invar_op: "invar s \<Longrightarrow> invar (apply_op op s)"
    and ttl_op: "ttl (apply_op op s) = ttl s"
    and get_live: "invar s \<Longrightarrow> fst (get now tok s) = live s now tok"
    and get_keeps: "invar s \<Longrightarrow> now \<le> t \<Longrightarrow> live (snd (get now tok s)) t = live s t"
    and count_keeps: "invar s \<Longrightarrow> now \<le> t \<Longrightarrow> live (snd (sessions now s)) t = live s t"
    and create_ok: "invar s \<Longrightarrow> fst (create now u r1 r2 s) = Some (tok, csrf) \<Longrightarrow> tok \<noteq> [] \<Longrightarrow>
      live (snd (create now u r1 r2 s)) t =
        (live s t)(tok := if t \<le> now + ttl s then Some \<lparr>seUser = u, seCSRF = csrf, seExpiry = now + ttl s\<rparr> else None)"
    and create_other: "invar s \<Longrightarrow> randomToken r1 \<noteq> Some tok \<Longrightarrow> live (snd (create now u r1 r2 s)) t tok = live s t tok"
    and delete_live: "invar s \<Longrightarrow> live (delete tok s) t = (live s t)(tok := None)"
begin

lemma op_leaves: "invar s \<Longrightarrow> now \<le> t \<Longrightarrow> leaves tok op \<Longrightarrow> live (apply_op (now, op) s) t tok = live s t tok"
  by (cases op) (auto simp: apply_op create_other get_keeps count_keeps delete_live)

lemma run_leaves:
  "invar s \<Longrightarrow> list_all (\<lambda>(now, op). now \<le> t \<and> leaves tok op) ops \<Longrightarrow>
   invar (fold apply_op ops s) \<and> live (fold apply_op ops s) t tok = live s t tok"
  by (induction ops arbitrary: s) (auto simp: invar_op op_leaves)

lemma lifetime:
  assumes "invar s" "fst (create now u r1 r2 s) = Some (tok, csrf)" "tok \<noteq> []"
    "list_all (\<lambda>(now, op). now \<le> t \<and> leaves tok op) ops"
  shows "fst (get t tok (fold apply_op ops (snd (create now u r1 r2 s)))) =
    (if t \<le> now + ttl s then Some \<lparr>seUser = u, seCSRF = csrf, seExpiry = now + ttl s\<rparr> else None)"
proof -
  let ?s = "snd (create now u r1 r2 s)"
  have "invar ?s" using invar_op [OF assms(1), of "(now, SCreate u r1 r2)"] by (simp add: apply_op)
  from run_leaves [OF this assms(4)] show ?thesis
    using create_ok [OF assms(1-3), of t] by (simp add: get_live)
qed

lemma logout:
  assumes "invar s" "list_all (\<lambda>(now, op). now \<le> t \<and> leaves tok op) ops"
  shows "fst (get t tok (fold apply_op ops (delete tok s))) = None"
proof -
  have "invar (delete tok s)" using invar_op [OF assms(1), of "(t, SDelete tok)"] by (simp add: apply_op)
  from run_leaves [OF this assms(2)] show ?thesis using delete_live [OF assms(1)] by (simp add: get_live)
qed

end

subsection \<open>The store implements it\<close>

fun session_step :: "int \<times> session_op \<Rightarrow> sessionStore \<Rightarrow> sessionStore" where
  "session_step (now, SCreate u r1 r2) s = snd (session_Create now u r1 r2 s)"
| "session_step (now, SGet tok) s = snd (session_Get now tok s)"
| "session_step (now, SDelete tok) s = session_Delete tok s"
| "session_step (now, SCount) s = snd (session_Count now s)"

definition session_live :: "sessionStore \<Rightarrow> int \<Rightarrow> string \<Rightarrow> session option" where
  "session_live s now tok =
     (if tok = [] then None
      else case map_of (ssByToken s) tok of None \<Rightarrow> None | Some sess \<Rightarrow> if seExpiry sess < now then None else Some sess)"

definition session_invar :: "sessionStore \<Rightarrow> bool" where
  "session_invar s \<longleftrightarrow> distinct (map fst (ssByToken s))"

lemma map_of_filter_value:
  "distinct (map fst xs) \<Longrightarrow>
   map_of (filter (\<lambda>(_, v). P v) xs) k = (case map_of xs k of None \<Rightarrow> None | Some v \<Rightarrow> if P v then Some v else None)"
  by (induction xs) (auto simp: map_of_eq_None_iff split: option.splits)

lemma distinct_filter_fst: "distinct (map fst xs) \<Longrightarrow> distinct (map fst (filter P xs))"
  by (induction xs) auto

lemma session_step_invar: "session_invar s \<Longrightarrow> session_invar (session_step op s)"
  by (cases op; cases "snd op")
    (auto simp: session_invar_def session_Create_def session_Get_def session_Delete_def session_Count_def Let_def
      distinct_update distinct_delete distinct_filter_fst split: option.splits)

lemma session_step_ttl: "ssTtl (session_step op s) = ssTtl s"
  by (cases op; cases "snd op")
    (auto simp: session_Create_def session_Get_def session_Delete_def session_Count_def Let_def split: option.splits)

lemma session_Create_live:
  assumes "fst (session_Create now u r1 r2 s) = Some (tok, csrf)" "tok \<noteq> []"
  shows "session_live (snd (session_Create now u r1 r2 s)) t = (session_live s t)(tok :=
    if t \<le> now + ssTtl s then Some \<lparr>seUser = u, seCSRF = csrf, seExpiry = now + ssTtl s\<rparr> else None)"
  using assms by (auto simp: session_Create_def session_live_def update_conv' fun_eq_iff split: option.splits)

lemma session_Create_other:
  "randomToken r1 \<noteq> Some tok \<Longrightarrow> session_live (snd (session_Create now u r1 r2 s)) t tok = session_live s t tok"
  by (auto simp: session_Create_def session_live_def update_conv' split: option.splits)

interpretation sessions: session_store session_Create session_Get session_Delete session_Count
    session_step session_live ssTtl session_invar
proof unfold_locales
  fix s :: sessionStore and now t :: int and tok :: string
  assume inv: "session_invar s"
  show "fst (session_Get now tok s) = session_live s now tok"
    by (auto simp: session_Get_def session_live_def split: option.splits)
  show "session_live (session_Delete tok s) t = (session_live s t)(tok := None)"
    by (auto simp: session_Delete_def session_live_def delete_conv' fun_eq_iff split: option.splits)
  assume "now \<le> t"
  then show "session_live (snd (session_Get now tok s)) t = session_live s t"
    by (auto simp: session_Get_def session_live_def delete_conv' fun_eq_iff split: option.splits)
  show "session_live (snd (session_Count now s)) t = session_live s t"
    using inv \<open>now \<le> t\<close>
    by (auto simp: session_Count_def session_live_def session_invar_def map_of_filter_value fun_eq_iff Let_def split: option.splits)
qed (simp_all add: session_step_invar session_step_ttl session_Create_live session_Create_other)

text \<open>
  C33.  The life of a session.  Once created, whatever else is done to the store, a token returns
  its session, with its user and CSRF token, up to the end of its time to live and never after; and
  after a logout it returns nothing, at any time.
\<close>

theorem session_lifetime:
  assumes "session_invar s" "session_Create now user (Some b) (Some c) s = (Some (tok, csrf), s1)" "b \<noteq> []"
    "list_all (\<lambda>(u, op). u \<le> t \<and> leaves tok op) ops" "list_all (\<lambda>(u, op). u \<le> t' \<and> leaves tok op) ops'"
  shows "fst (session_Get t tok (fold session_step ops s1)) =
      (if t \<le> now + ssTtl s then Some \<lparr>seUser = user, seCSRF = csrf, seExpiry = now + ssTtl s\<rparr> else None) \<and>
    fst (session_Get t' tok (fold session_step ops' (session_Delete tok (fold session_step ops s1)))) = None"
proof -
  have create: "fst (session_Create now user (Some b) (Some c) s) = Some (tok, csrf)"
    "snd (session_Create now user (Some b) (Some c) s) = s1" using assms(2) by simp_all
  have tok: "tok \<noteq> []" using create(1) assms(3) length_hex [of b]
    by (auto simp: session_Create_def randomToken_def simp del: length_hex)
  have "session_invar s1" using session_step_invar [OF assms(1), of "(now, SCreate user (Some b) (Some c))"] create(2) by simp
  then have "session_invar (fold session_step ops s1)"
    using sessions.run_leaves [OF _ assms(4)] by blast
  from sessions.lifetime [OF assms(1) create(1) tok assms(4)] sessions.logout [OF this assms(5)]
  show ?thesis by (simp add: create(2))
qed

theorem session_lifetime_witness:
  "fst (session_Get 9 ''61'' (fold session_step [(5, SCount), (7, SDelete ''63'')]
     (snd (session_Create 1 ''admin'' (Some ''a'') (Some ''b'') (NewSessionStore 10))))) =
   Some \<lparr>seUser = ''admin'', seCSRF = ''62'', seExpiry = 11\<rparr>"
proof -
  let ?c = "session_Create 1 ''admin'' (Some ''a'') (Some ''b'') (NewSessionStore 10)"
  have hex: "hex_EncodeToString ''a'' = ''61''" "hex_EncodeToString ''b'' = ''62''" by code_simp+
  then have c: "?c = (Some (''61'', ''62''), snd ?c)"
    by (simp add: session_Create_def randomToken_def)
  have inv: "session_invar (NewSessionStore 10)" by (simp add: session_invar_def NewSessionStore_def)
  have ops: "list_all (\<lambda>(u, op). u \<le> (9::int) \<and> leaves ''61'' op) [(5, SCount), (7, SDelete ''63'')]" by simp
  have "ssTtl (NewSessionStore 10) = 10" by (simp add: NewSessionStore_def)
  with session_lifetime [OF inv c _ ops, of 9 "[]"] show ?thesis by simp
qed

end
