(* ===== verification/Disk.thy ===== *)
theory Disk
  imports Prelude "HOL-Library.AList"
begin

section \<open>The files of the service\<close>

text \<open>
  The roster of access users and the live switches are kept in two files, each the JSON of a value:
  a list of users (\<open>Roster\<close>) or a snapshot of the switches (\<open>Saved\<close>).  Both are on one disk, so that
  what happens when their paths meet is the model's to show: each reader finds the other's JSON of the
  wrong shape.  A file may also hold nothing, text that is no JSON, a part of a text whose writing
  failed, or it may be one that cannot be read.  Paths are compared as they are written.
\<close>

record accessUser =
  auID :: string
  auLabel :: string
  auToken :: string
  auCreated :: int
  auExpires :: "int option"

record snapshot =
  snProxyEnabled :: bool
  snAccessLog :: bool
  snModules :: "(string \<times> bool) list"

datatype file_text = Unreadable | Blank | Malformed | Partial | Roster "accessUser list" | Saved snapshot

type_synonym disk = "(string \<times> file_text) list"

end
