(* ===== verification/Auth_Password.thy ===== *)
theory Auth_Password
  imports Go_Base64
begin

unbundle bit_operations_syntax

section \<open>Password hashes (internal/auth/password.go, pbkdf2.go)\<close>

text \<open>
  PBKDF2 as it is coded, and the hash strings around it.  HMAC-SHA256 is the parameter
  \<open>hmac\<close>, a function of the key and the message; all that is asked of it is the length of its
  result.
\<close>

subsection \<open>crypto/subtle\<close>

definition ConstantTimeCompare :: "bytes \<Rightarrow> bytes \<Rightarrow> nat" where
  "ConstantTimeCompare x y =
     (if length x \<noteq> length y then 0
      else if fold (\<lambda>(a, b) v. v OR (byte a XOR byte b)) (zip x y) 0 = 0 then 1 else 0)"

lemma xor_eq_0: "a XOR b = (0::nat) \<longleftrightarrow> a = b"
  by (auto simp: bit_eq_iff bit_simps)

lemma fold_or_eq_0:
  "length x = length y \<Longrightarrow>
   fold (\<lambda>(a, b) v. v OR (byte a XOR byte b)) (zip x y) v = 0 \<longleftrightarrow> v = (0::nat) \<and> x = y"
proof (induction x y arbitrary: v rule: list_induct2)
  case (Cons a x b y)
  then show ?case by (auto simp: or_eq_0_iff xor_eq_0)
qed simp

lemma ConstantTimeCompare_eq: "ConstantTimeCompare x y = (if x = y then 1 else 0)"
  by (auto simp: ConstantTimeCompare_def fold_or_eq_0)

subsection \<open>PBKDF2\<close>

definition xor_bytes :: "bytes \<Rightarrow> bytes \<Rightarrow> bytes" where
  "xor_bytes t u = map (\<lambda>(a, b). char_of (byte a XOR byte b)) (zip t u)"

definition be32 :: "nat \<Rightarrow> bytes" where
  "be32 i = [char_of (i div 2 ^ 24 mod 256), char_of (i div 2 ^ 16 mod 256), char_of (i div 2 ^ 8 mod 256), char_of (i mod 256)]"

fun pbkdf2_rounds :: "(bytes \<Rightarrow> bytes) \<Rightarrow> nat \<Rightarrow> bytes \<Rightarrow> bytes \<Rightarrow> bytes" where
  "pbkdf2_rounds prf 0 u t = t"
| "pbkdf2_rounds prf (Suc n) u t = (let u = prf u in pbkdf2_rounds prf n u (xor_bytes t u))"

definition pbkdf2_block :: "(bytes \<Rightarrow> bytes) \<Rightarrow> bytes \<Rightarrow> nat \<Rightarrow> nat \<Rightarrow> bytes" where
  "pbkdf2_block prf salt iter i =
     (let t = prf (salt @ be32 i) in pbkdf2_rounds prf (iter - 1) t t)"

definition hashLen :: nat where
  "hashLen = 32"

definition pbkdf2SHA256 :: "(bytes \<Rightarrow> bytes \<Rightarrow> bytes) \<Rightarrow> bytes \<Rightarrow> bytes \<Rightarrow> nat \<Rightarrow> nat \<Rightarrow> bytes" where
  "pbkdf2SHA256 hmac password salt iter keyLen =
     (let numBlocks = (keyLen + hashLen - 1) div hashLen
      in take keyLen (concat (map (pbkdf2_block (hmac password) salt iter) [1..<numBlocks + 1])))"

subsection \<open>Hash strings\<close>

datatype auth_error = ErrInvalidHash

definition pbkdf2Iterations :: nat where
  "pbkdf2Iterations = 600000"

definition pbkdf2KeyLen :: nat where
  "pbkdf2KeyLen = 32"

definition hashScheme :: string where
  "hashScheme = ''pbkdf2_sha256''"

definition HashPassword :: "(bytes \<Rightarrow> bytes \<Rightarrow> bytes) \<Rightarrow> bytes option \<Rightarrow> string \<Rightarrow> string option" where
  "HashPassword hmac rand password =
     (case rand of
        None \<Rightarrow> None
      | Some salt \<Rightarrow>
          Some (join ''$'' [hashScheme, itoa pbkdf2Iterations, std_encode salt,
            std_encode (pbkdf2SHA256 hmac password salt pbkdf2Iterations pbkdf2KeyLen)]))"

definition VerifyPassword :: "(bytes \<Rightarrow> bytes \<Rightarrow> bytes) \<Rightarrow> string \<Rightarrow> string \<Rightarrow> auth_error + bool" where
  "VerifyPassword hmac encoded password =
     (case split_byte CHR ''$'' encoded of
        [scheme, iters, salt64, want64] \<Rightarrow>
          if scheme \<noteq> hashScheme then Inl ErrInvalidHash
          else
            (case atoi iters of
               None \<Rightarrow> Inl ErrInvalidHash
             | Some iter \<Rightarrow>
                 if iter \<le> 0 then Inl ErrInvalidHash
                 else
                   (case std_decode salt64 of
                      None \<Rightarrow> Inl ErrInvalidHash
                    | Some salt \<Rightarrow>
                        (case std_decode want64 of
                           None \<Rightarrow> Inl ErrInvalidHash
                         | Some want \<Rightarrow>
                             let got = pbkdf2SHA256 hmac password salt (nat iter) (length want)
                             in Inr (ConstantTimeCompare got want = 1))))
      | _ \<Rightarrow> Inl ErrInvalidHash)"

subsection \<open>PBKDF2 is that of RFC 8018\<close>

text \<open>\<open>U_(j+1)\<close> of a block, the exclusive or of \<open>U_1\<close> to \<open>U_c\<close> byte by byte, and the derived key.\<close>

definition rfc_U :: "(bytes \<Rightarrow> bytes) \<Rightarrow> bytes \<Rightarrow> nat \<Rightarrow> nat \<Rightarrow> bytes" where
  "rfc_U prf salt i j = (prf ^^ j) (prf (salt @ be32 i))"

definition rfc_F :: "(bytes \<Rightarrow> bytes) \<Rightarrow> bytes \<Rightarrow> nat \<Rightarrow> nat \<Rightarrow> bytes" where
  "rfc_F prf salt c i =
     map (\<lambda>k. char_of (foldr (\<lambda>j acc. byte (rfc_U prf salt i j ! k) XOR acc) [0..<c] 0)) [0..<hashLen]"

definition rfc_PBKDF2 :: "(bytes \<Rightarrow> bytes) \<Rightarrow> bytes \<Rightarrow> nat \<Rightarrow> nat \<Rightarrow> bytes" where
  "rfc_PBKDF2 prf salt c dkLen =
     (if dkLen = 0 then []
      else
        let l = (dkLen + hashLen - 1) div hashLen; r = dkLen - (l - 1) * hashLen
        in concat (map (rfc_F prf salt c) [1..<l]) @ take r (rfc_F prf salt c l))"

lemma length_xor_bytes [simp]: "length (xor_bytes t u) = min (length t) (length u)"
  by (simp add: xor_bytes_def)

lemma xor_less_256: "(byte a XOR byte b) < 256"
proof -
  have "take_bit 8 (byte a XOR byte b) = byte a XOR byte b"
    using byte_less [of a] byte_less [of b] by (simp add: take_bit_xor take_bit_nat_eq_self)
  then show ?thesis using take_bit_nat_less_exp [of 8 "byte a XOR byte b"] by simp
qed

lemma byte_xor_bytes: "k < length t \<Longrightarrow> k < length u \<Longrightarrow> byte (xor_bytes t u ! k) = byte (t ! k) XOR byte (u ! k)"
  using xor_less_256 [of "t ! k" "u ! k"] by (simp add: xor_bytes_def)

lemma pbkdf2_rounds_spec:
  assumes size: "\<And>m. length (prf m) = hashLen" and len: "length t = hashLen"
  shows "length (pbkdf2_rounds prf n u t) = hashLen \<and>
    (\<forall>k<hashLen. byte (pbkdf2_rounds prf n u t ! k) =
       byte (t ! k) XOR foldr (\<lambda>j acc. byte ((prf ^^ Suc j) u ! k) XOR acc) [0..<n] 0)"
  using len
proof (induction n arbitrary: u t)
  case (Suc n)
  have "length (xor_bytes t (prf u)) = hashLen" using Suc.prems size by simp
  note IH = Suc.IH [OF this, of "prf u"]
  have "byte (xor_bytes t (prf u) ! k) = byte (t ! k) XOR byte (prf u ! k)" if "k < hashLen" for k
    by (rule byte_xor_bytes) (use that Suc.prems size in simp_all)
  moreover have "[0..<Suc n] = 0 # map Suc [0..<n]" by (metis map_Suc_upt upt_conv_Cons zero_less_Suc)
  ultimately show ?case
    using IH by (simp add: Let_def foldr_map comp_def funpow_swap1 xor.assoc del: upt_Suc)
qed simp

lemma rfc_F_block:
  assumes size: "\<And>m. length (prf m) = hashLen" and "0 < c"
  shows "pbkdf2_block prf salt c i = rfc_F prf salt c i"
proof -
  let ?t = "prf (salt @ be32 i)"
  note spec = pbkdf2_rounds_spec [of "prf" ?t "c - 1" ?t, OF size size]
  obtain n where c: "c = Suc n" using assms(2) by (cases c) auto
  have upt: "[0..<Suc n] = 0 # map Suc [0..<n]" by (metis map_Suc_upt upt_conv_Cons zero_less_Suc)
  show ?thesis
  proof (rule nth_equalityI)
    show "length (pbkdf2_block prf salt c i) = length (rfc_F prf salt c i)"
      using spec by (simp add: pbkdf2_block_def rfc_F_def Let_def)
    fix k assume "k < length (pbkdf2_block prf salt c i)"
    then have k: "k < hashLen" using spec by (simp add: pbkdf2_block_def Let_def)
    let ?x = "pbkdf2_block prf salt c i ! k"
    have "byte ?x = foldr (\<lambda>j acc. byte (rfc_U prf salt i j ! k) XOR acc) [0..<c] 0"
      using spec k by (simp add: pbkdf2_block_def Let_def c upt foldr_map comp_def rfc_U_def funpow_swap1 del: upt_Suc)
    then have "?x = char_of (foldr (\<lambda>j acc. byte (rfc_U prf salt i j ! k) XOR acc) [0..<c] 0)"
      by (metis char_of_char)
    with k show "?x = rfc_F prf salt c i ! k" by (simp add: rfc_F_def)
  qed
qed

lemma length_rfc_F [simp]: "length (rfc_F prf salt c i) = hashLen"
  by (simp add: rfc_F_def)

lemma length_concat_blocks: "length (concat (map (rfc_F prf salt c) ns)) = length ns * hashLen"
  by (induction ns) simp_all

lemma length_pbkdf2:
  assumes "\<And>m. length (hmac password m) = 32" "0 < iter"
  shows "length (pbkdf2SHA256 hmac password salt iter keyLen) = keyLen"
proof -
  let ?l = "(keyLen + hashLen - 1) div hashLen"
  have F: "pbkdf2_block (hmac password) salt iter = rfc_F (hmac password) salt iter"
    by (intro ext rfc_F_block) (simp_all add: assms hashLen_def)
  have "length (concat (map (rfc_F (hmac password) salt iter) [1..<?l + 1])) = ?l * hashLen"
    by (simp only: length_concat_blocks) simp
  moreover have "keyLen \<le> ?l * hashLen" by (simp add: hashLen_def)
  ultimately show ?thesis by (simp add: pbkdf2SHA256_def Let_def F)
qed

text \<open>
  C34.  For any pseudo-random function with 32-byte results and at least one iteration the code
  derives exactly the key of RFC 8018: the blocks \<open>T_1\<close> to \<open>T_l\<close>, the last one cut, of the length
  asked for.
\<close>

theorem pbkdf2_rfc8018:
  assumes "\<And>m. length (hmac password m) = 32" "0 < iter"
  shows "pbkdf2SHA256 hmac password salt iter keyLen = rfc_PBKDF2 (hmac password) salt iter keyLen \<and>
    length (pbkdf2SHA256 hmac password salt iter keyLen) = keyLen"
proof -
  let ?mac = "hmac password" let ?l = "(keyLen + hashLen - 1) div hashLen"
  have F: "pbkdf2_block ?mac salt iter = rfc_F ?mac salt iter"
    by (intro ext rfc_F_block) (simp_all add: assms hashLen_def)
  have eq: "pbkdf2SHA256 hmac password salt iter keyLen = take keyLen (concat (map (rfc_F ?mac salt iter) [1..<?l + 1]))"
    by (simp add: pbkdf2SHA256_def Let_def F)
  show ?thesis
  proof (cases "keyLen = 0")
    case True
    then show ?thesis by (simp add: pbkdf2SHA256_def rfc_PBKDF2_def)
  next
    case False
    then have l: "1 \<le> ?l" and before: "(?l - 1) * hashLen \<le> keyLen" by (simp_all add: hashLen_def)
    have "[1..<?l + 1] = [1..<?l] @ [?l]" using l by simp
    then have "take keyLen (concat (map (rfc_F ?mac salt iter) [1..<?l + 1])) =
        concat (map (rfc_F ?mac salt iter) [1..<?l]) @ take (keyLen - (?l - 1) * hashLen) (rfc_F ?mac salt iter ?l)"
      using before by (simp only: map_append concat_append take_append) (simp add: length_concat_blocks)
    then have "pbkdf2SHA256 hmac password salt iter keyLen = rfc_PBKDF2 ?mac salt iter keyLen"
      using False unfolding eq rfc_PBKDF2_def Let_def by simp
    with length_pbkdf2 [of hmac password iter salt keyLen] assms show ?thesis by simp
  qed
qed

definition toy_hmac :: "bytes \<Rightarrow> bytes \<Rightarrow> bytes" where
  "toy_hmac k m = take 32 (k @ m @ replicate 32 CHR 0x36)"

lemma length_toy_hmac: "length (toy_hmac k m) = 32"
  by (simp add: toy_hmac_def)

theorem pbkdf2_rfc8018_witness:
  "length (pbkdf2SHA256 toy_hmac ''pw'' ''salt'' 3 40) = 40"
proof -
  have "0 < (3::nat)" by simp
  from pbkdf2_rfc8018 [of toy_hmac "''pw''" 3 "''salt''" 40, OF length_toy_hmac this] show ?thesis by blast
qed

subsection \<open>Checking a password\<close>

lemma dollar_free:
  "CHR ''$'' \<notin> set hashScheme" "CHR ''$'' \<notin> set (std_encode s)" "itoa pbkdf2Iterations = ''600000''"
proof -
  have "\<not> List.member std_alphabet CHR ''$''" by code_simp
  then show "CHR ''$'' \<notin> set (std_encode s)" by (intro std64.enc_no_sep) simp
  show "CHR ''$'' \<notin> set hashScheme" "itoa pbkdf2Iterations = ''600000''" by code_simp+
qed

lemma made_hash:
  assumes "\<And>k m. length (hmac k m) = 32" "HashPassword hmac (Some salt) password = Some encoded"
  shows "VerifyPassword hmac encoded candidate =
      Inr (rfc_PBKDF2 (hmac candidate) salt 600000 32 = rfc_PBKDF2 (hmac password) salt 600000 32) \<and>
    VerifyPassword hmac encoded password = Inr True"
proof -
  let ?dk = "\<lambda>pw. pbkdf2SHA256 hmac pw salt 600000 32"
  have encoded: "encoded = join ''$'' [hashScheme, ''600000'', std_encode salt, std_encode (?dk password)]"
    using assms(2) by (simp add: HashPassword_def dollar_free(3)) (simp add: pbkdf2Iterations_def pbkdf2KeyLen_def)
  have "split_byte CHR ''$'' encoded = [hashScheme, ''600000'', std_encode salt, std_encode (?dk password)]"
    unfolding encoded by (rule split_byte_join) (auto simp: dollar_free(1,2))
  moreover have "atoi ''600000'' = Some 600000" by code_simp
  moreover have "length (?dk password) = 32" by (rule length_pbkdf2) (simp_all add: assms(1))
  ultimately have verify: "VerifyPassword hmac encoded pw = Inr (?dk pw = ?dk password)" for pw
    by (simp add: VerifyPassword_def std64.dec_enc ConstantTimeCompare_eq Let_def)
  have "?dk pw = rfc_PBKDF2 (hmac pw) salt 600000 32" for pw
  proof -
    have "pbkdf2_block (hmac pw) salt 600000 = rfc_F (hmac pw) salt 600000"
      by (intro ext rfc_F_block) (simp_all add: assms hashLen_def)
    then show ?thesis by (simp add: pbkdf2SHA256_def rfc_PBKDF2_def hashLen_def Let_def)
  qed
  with verify show ?thesis by simp
qed

text \<open>
  A hash made by \<open>HashPassword\<close> parses back, and a password is accepted against it exactly
  when it derives the same key from the salt; the password itself always is.
\<close>

theorem password_roundtrip:
  assumes "\<And>k m. length (hmac k m) = 32" "HashPassword hmac (Some salt) password = Some encoded"
  shows "VerifyPassword hmac encoded candidate =
      Inr (rfc_PBKDF2 (hmac candidate) salt 600000 32 = rfc_PBKDF2 (hmac password) salt 600000 32) \<and>
    VerifyPassword hmac encoded password = Inr True"
  using made_hash [OF assms] .

theorem password_roundtrip_witness:
  "\<exists>encoded. HashPassword toy_hmac (Some ''0123456789abcdef'') ''hunter2'' = Some encoded \<and>
     VerifyPassword toy_hmac encoded ''hunter2'' = Inr True"
proof -
  obtain encoded where e: "HashPassword toy_hmac (Some ''0123456789abcdef'') ''hunter2'' = Some encoded"
    by (simp add: HashPassword_def)
  from password_roundtrip [OF length_toy_hmac this, of "''hunter2''"] e show ?thesis by blast
qed

text \<open>
  A stored hash with an empty key is well-formed to \<open>VerifyPassword\<close>, and then every password
  is correct.
\<close>

theorem empty_key_accepts_all:
  "VerifyPassword hmac ''pbkdf2_sha256$600000$c2FsdA$'' password = Inr True"
proof -
  have "split_byte CHR ''$'' ''pbkdf2_sha256$600000$c2FsdA$'' = [hashScheme, ''600000'', ''c2FsdA'', []]"
    "atoi ''600000'' = Some 600000" "std_decode ''c2FsdA'' = Some ''salt''" by code_simp+
  then show ?thesis
    by (simp add: VerifyPassword_def std64.dec_Nil ConstantTimeCompare_eq pbkdf2SHA256_def Let_def)
qed

end
