(* ===== verification/Admin_Roster.thy ===== *)
theory Admin_Roster
  imports Disk Go_Hex Go_Utf8 Auth_Password "HOL-Library.Multiset"
begin

section \<open>Access users (internal/admin/accessusers.go)\<close>

text \<open>
  The roster of end-user credentials, in memory and in a file.  Writing and renaming may fail:
  \<open>wok\<close> and \<open>rok\<close> say whether they succeed.  The map of users is an association list, whose order is
  an order of iteration.
\<close>

definition Expired :: "int \<Rightarrow> accessUser \<Rightarrow> bool" where
  "Expired now u = (case auExpires u of None \<Rightarrow> False | Some e \<Rightarrow> e < now)"

record accessStore =
  asUsers :: "(string \<times> accessUser) list"
  asPath :: string

datatype io_error = RandomError | ReadError | ParseError | WriteError | RenameError

subsection \<open>Loading and saving\<close>

definition add_user :: "accessUser \<Rightarrow> accessStore \<Rightarrow> accessStore" where
  "add_user u s = s\<lparr>asUsers := AList.update (auID u) u (asUsers s)\<rparr>"

definition access_load :: "disk \<Rightarrow> accessStore \<Rightarrow> io_error option \<times> accessStore" where
  "access_load d s =
     (case map_of d (asPath s) of
        None \<Rightarrow> (None, s)
      | Some Unreadable \<Rightarrow> (Some ReadError, s)
      | Some Blank \<Rightarrow> (None, s)
      | Some (Roster us) \<Rightarrow> (None, fold (\<lambda>u s. if auID u \<noteq> [] then add_user u s else s) us s)
      | Some _ \<Rightarrow> (Some ParseError, s))"

definition NewAccessStore :: "disk \<Rightarrow> string \<Rightarrow> io_error + accessStore" where
  "NewAccessStore d path =
     (let s = \<lparr>asUsers = [], asPath = path\<rparr> in
      if path = [] then Inr s
      else case access_load d s of (Some e, _) \<Rightarrow> Inl e | (None, s) \<Rightarrow> Inr s)"

definition by_creation :: "accessStore \<Rightarrow> accessUser list" where
  "by_creation s = sort_key auCreated (map snd (asUsers s))"

text \<open>
  What the JSON of a user stands for: bytes of a label that are not UTF-8 are lost in it.  (Identifiers and
  tokens are hexadecimal.)
\<close>

definition json_user :: "accessUser \<Rightarrow> accessUser" where
  "json_user u = u\<lparr>auLabel := to_utf8 (auLabel u)\<rparr>"

text \<open>A failed write may leave part of the text in the temporary file.\<close>

definition access_save :: "bool \<Rightarrow> bool \<Rightarrow> accessStore \<Rightarrow> disk \<Rightarrow> io_error option \<times> disk" where
  "access_save wok rok s d =
     (if asPath s = [] then (None, d)
      else
        let data = Roster (map json_user (by_creation s)); tmp = asPath s @ ''.tmp'' in
        if \<not> wok then (Some WriteError, AList.update tmp Partial d)
        else if \<not> rok then (Some RenameError, AList.update tmp data d)
        else (None, AList.update (asPath s) data (AList.delete tmp (AList.update tmp data d))))"

subsection \<open>Operations\<close>

definition no_user :: accessUser where
  "no_user = \<lparr>auID = [], auLabel = [], auToken = [], auCreated = 0, auExpires = None\<rparr>"

definition access_Create :: "bool \<Rightarrow> bool \<Rightarrow> int \<Rightarrow> bytes option \<Rightarrow> bytes option \<Rightarrow> string \<Rightarrow> int option
    \<Rightarrow> accessStore \<times> disk \<Rightarrow> (accessUser \<times> io_error option) \<times> accessStore \<times> disk" where
  "access_Create wok rok now rand1 rand2 label expires = (\<lambda>(s, d).
     case randomHex rand1 of
       None \<Rightarrow> ((no_user, Some RandomError), s, d)
     | Some uid \<Rightarrow>
         (case randomHex rand2 of
            None \<Rightarrow> ((no_user, Some RandomError), s, d)
          | Some tok \<Rightarrow>
              let u = \<lparr>auID = uid, auLabel = label, auToken = tok, auCreated = now, auExpires = expires\<rparr>;
                  s = add_user u s; (err, d) = access_save wok rok s d
              in ((u, err), s, d)))"

definition access_List :: "accessStore \<Rightarrow> accessUser list" where
  "access_List s = by_creation s"

definition access_Delete :: "bool \<Rightarrow> bool \<Rightarrow> string \<Rightarrow> accessStore \<times> disk \<Rightarrow> io_error option \<times> accessStore \<times> disk" where
  "access_Delete wok rok uid = (\<lambda>(s, d).
     let s = s\<lparr>asUsers := AList.delete uid (asUsers s)\<rparr>; (err, d) = access_save wok rok s d in (err, s, d))"

definition Authorized :: "int \<Rightarrow> accessStore \<Rightarrow> string \<Rightarrow> bool" where
  "Authorized now s tok =
     (if tok = [] then False
      else
        case fold (\<lambda>(_, u) m. if ConstantTimeCompare (auToken u) tok = 1 then Some u else m) (asUsers s) None of
          None \<Rightarrow> False
        | Some u \<Rightarrow> \<not> Expired now u)"

text \<open>The operations that change the roster, with the faults of the disk and the time of the call.\<close>

datatype access_op =
  ACreate string "int option" "bytes option" "bytes option" | ADelete string

fun access_step :: "(bool \<times> bool \<times> int) \<times> access_op \<Rightarrow> accessStore \<times> disk \<Rightarrow> accessStore \<times> disk" where
  "access_step ((wok, rok, now), ACreate label expires r1 r2) sd = snd (access_Create wok rok now r1 r2 label expires sd)"
| "access_step ((wok, rok, now), ADelete uid) sd = snd (access_Delete wok rok uid sd)"

subsection \<open>The roster in memory\<close>

text \<open>Each user is stored once, under its own identifier.\<close>

definition access_inv :: "accessStore \<Rightarrow> bool" where
  "access_inv s \<longleftrightarrow> distinct (map fst (asUsers s)) \<and> list_all (\<lambda>(k, u). k = auID u \<and> k \<noteq> []) (asUsers s)"

text \<open>\<open>u\<close> is in the roster and alone has its token; nobody has a token.\<close>

definition holds :: "accessStore \<Rightarrow> accessUser \<Rightarrow> bool" where
  "holds s u \<longleftrightarrow> List.member (map snd (asUsers s)) u \<and> list_all (\<lambda>v. auToken v = auToken u \<longrightarrow> v = u) (map snd (asUsers s))"

definition gone :: "accessStore \<Rightarrow> string \<Rightarrow> bool" where
  "gone s tok \<longleftrightarrow> list_all (\<lambda>v. auToken v \<noteq> tok) (map snd (asUsers s))"

lemma set_update_subset: "set (AList.update k v xs) \<subseteq> insert (k, v) (set xs)"
  by (induction xs) auto

lemma set_update_keeps: "(j, w) \<in> set xs \<Longrightarrow> j \<noteq> k \<Longrightarrow> (j, w) \<in> set (AList.update k v xs)"
  by (induction xs) auto

lemma update_in: "(k, v) \<in> set (AList.update k v xs)"
  by (induction xs) auto

lemma access_inv_add: "access_inv s \<Longrightarrow> auID u \<noteq> [] \<Longrightarrow> access_inv (add_user u s)"
  using set_update_subset [of "auID u" u "asUsers s"]
  by (auto simp: access_inv_def add_user_def distinct_update list_all_iff)

lemma access_inv_delete: "access_inv s \<Longrightarrow> access_inv (s\<lparr>asUsers := AList.delete uid (asUsers s)\<rparr>)"
  by (simp add: access_inv_def distinct_delete) (auto simp: list_all_iff AList.delete_eq)

lemma fold_last_match:
  "fold (\<lambda>(_, u) m. if P u then Some u else m) xs m =
     (case filter P (rev (map snd xs)) of [] \<Rightarrow> m | u # _ \<Rightarrow> Some u)"
  by (induction xs arbitrary: m) (auto split: list.splits)

lemma Authorized_last:
  "Authorized now s tok \<longleftrightarrow> tok \<noteq> [] \<and>
     (case filter (\<lambda>u. auToken u = tok) (rev (map snd (asUsers s))) of [] \<Rightarrow> False | u # _ \<Rightarrow> \<not> Expired now u)"
proof -
  have ct: "(\<lambda>u. ConstantTimeCompare (auToken u) tok = 1) = (\<lambda>u. auToken u = tok)"
    by (simp add: ConstantTimeCompare_eq fun_eq_iff)
  show ?thesis
    unfolding Authorized_def fold_last_match ct
    by (cases "filter (\<lambda>u. auToken u = tok) (rev (map snd (asUsers s)))") simp_all
qed

text \<open>With one holder of a token the order of iteration does not matter.\<close>

lemma Authorized_holds: "holds s u \<Longrightarrow> auToken u \<noteq> [] \<Longrightarrow> Authorized now s (auToken u) \<longleftrightarrow> \<not> Expired now u"
proof -
  let ?us = "rev (map snd (asUsers s))"
  assume h: "holds s u" "auToken u \<noteq> []"
  then have mem: "u \<in> set ?us" "\<forall>v\<in>set ?us. auToken v = auToken u \<longrightarrow> v = u"
    unfolding holds_def list_all_iff List.member_iff set_rev by blast+
  show ?thesis
  proof (cases "filter (\<lambda>v. auToken v = auToken u) ?us")
    case Nil
    then have "\<forall>v\<in>set ?us. auToken v \<noteq> auToken u" by (simp only: filter_empty_conv)
    with mem(1) show ?thesis by blast
  next
    case (Cons v vs)
    then have "v \<in> set (filter (\<lambda>v. auToken v = auToken u) ?us)" by simp
    then have "v \<in> set ?us \<and> auToken v = auToken u" by simp
    with mem(2) have "v = u" by blast
    with h(2) show ?thesis unfolding Authorized_last Cons list.case by blast
  qed
qed

lemma Authorized_gone: "gone s tok \<Longrightarrow> \<not> Authorized now s tok"
proof -
  assume "gone s tok"
  then have "\<forall>v\<in>set (rev (map snd (asUsers s))). auToken v \<noteq> tok"
    by (simp only: gone_def list_all_iff set_rev not_False_eq_True simp_thms)
  then have "filter (\<lambda>u. auToken u = tok) (rev (map snd (asUsers s))) = []"
    unfolding filter_empty_conv .
  then show ?thesis unfolding Authorized_last by (simp only: list.case simp_thms)
qed

subsection \<open>The interface of the gate\<close>

text \<open>
  What the proxy and the panel rely on, for any store \<open>'s\<close>: a user who is held is authorised until
  the end of the access, nobody is by a token that is gone, and an operation that does not concern
  a user changes neither.
\<close>

fun spares :: "accessUser \<Rightarrow> access_op \<Rightarrow> bool" where
  "spares u (ACreate label expires r1 r2) = (randomHex r1 \<noteq> Some (auID u) \<and> randomHex r2 \<noteq> Some (auToken u))"
| "spares u (ADelete uid) = (uid \<noteq> auID u)"

fun draws :: "string \<Rightarrow> access_op \<Rightarrow> bool" where
  "draws tok (ACreate label expires r1 r2) = (randomHex r2 = Some tok)"
| "draws tok (ADelete uid) = False"

definition harmless :: "accessUser \<Rightarrow> access_op \<Rightarrow> bool" where
  "harmless u op \<longleftrightarrow> spares u op \<and> (case op of ACreate l x r1 r2 \<Rightarrow> r1 \<noteq> Some [] | _ \<Rightarrow> True)"

locale token_gate =
  fixes authorized :: "int \<Rightarrow> 's \<Rightarrow> string \<Rightarrow> bool"
    and step :: "'e \<times> access_op \<Rightarrow> 's \<Rightarrow> 's"
    and held :: "'s \<Rightarrow> accessUser \<Rightarrow> bool"
    and absent :: "'s \<Rightarrow> string \<Rightarrow> bool"
    and invar :: "'s \<Rightarrow> bool"
  assumes held_authorized: "held s u \<Longrightarrow> auToken u \<noteq> [] \<Longrightarrow> authorized now s (auToken u) = (\<not> Expired now u)"
    and absent_unauthorized: "absent s tok \<Longrightarrow> \<not> authorized now s tok"
    and held_step: "invar s \<Longrightarrow> held s u \<Longrightarrow> spares u op \<Longrightarrow> held (step (e, op) s) u"
    and absent_step: "absent s tok \<Longrightarrow> \<not> draws tok op \<Longrightarrow> absent (step (e, op) s) tok"
    and delete_absent: "invar s \<Longrightarrow> held s u \<Longrightarrow> absent (step (e, ADelete (auID u)) s) (auToken u)"
    and invar_step: "invar s \<Longrightarrow> (case op of ACreate l x r1 r2 \<Rightarrow> r1 \<noteq> Some [] | _ \<Rightarrow> True) \<Longrightarrow> invar (step (e, op) s)"
begin

lemma held_run:
  "invar s \<Longrightarrow> held s u \<Longrightarrow> list_all (\<lambda>(_, op). harmless u op) ops \<Longrightarrow>
   invar (fold step ops s) \<and> held (fold step ops s) u"
  by (induction ops arbitrary: s) (auto simp: harmless_def held_step invar_step)

lemma absent_run:
  "absent s tok \<Longrightarrow> list_all (\<lambda>(_, op). \<not> draws tok op) ops \<Longrightarrow> absent (fold step ops s) tok"
  by (induction ops arbitrary: s) (auto simp: absent_step)

lemma access_lifetime:
  assumes "invar s" "held s u" "auToken u \<noteq> []" "list_all (\<lambda>(_, op). harmless u op) ops"
    "list_all (\<lambda>(_, op). \<not> draws (auToken u) op) ops'"
  shows "authorized now (fold step ops s) (auToken u) = (\<not> Expired now u)"
    "\<not> authorized now (fold step ops' (step (e, ADelete (auID u)) (fold step ops s))) (auToken u)"
proof -
  have run: "invar (fold step ops s)" "held (fold step ops s) u" using held_run [OF assms(1,2,4)] by blast+
  show "authorized now (fold step ops s) (auToken u) = (\<not> Expired now u)"
    by (rule held_authorized [OF run(2) assms(3)])
  show "\<not> authorized now (fold step ops' (step (e, ADelete (auID u)) (fold step ops s))) (auToken u)"
    by (rule absent_unauthorized [OF absent_run [OF delete_absent [OF run] assms(5)]])
qed

end

subsection \<open>The store implements it\<close>

lemma fst_access_step:
  "fst (access_step (e, ACreate l x (Some b) (Some c)) (s, d)) =
     add_user \<lparr>auID = hex_EncodeToString b, auLabel = l, auToken = hex_EncodeToString c, auCreated = snd (snd e), auExpires = x\<rparr> s"
  "fst (access_step (e, ACreate l x None r2) (s, d)) = s"
  "fst (access_step (e, ACreate l x (Some b) None) (s, d)) = s"
  "fst (access_step (e, ADelete uid) (s, d)) = s\<lparr>asUsers := AList.delete uid (asUsers s)\<rparr>"
  by (cases e; simp add: access_Create_def access_Delete_def randomHex_def Let_def case_prod_unfold)+

lemma access_step_cases:
  obtains (add) u where "fst (access_step (e, op) sd) = add_user u (fst sd)" "\<And>v. spares v op \<Longrightarrow> auID u \<noteq> auID v \<and> auToken u \<noteq> auToken v"
      "\<And>tok. \<not> draws tok op \<Longrightarrow> auToken u \<noteq> tok" "(case op of ACreate l x r1 r2 \<Rightarrow> r1 \<noteq> Some [] | _ \<Rightarrow> True) \<Longrightarrow> auID u \<noteq> []"
  | (remove) uid where "op = ADelete uid" "fst (access_step (e, op) sd) = (fst sd)\<lparr>asUsers := AList.delete uid (asUsers (fst sd))\<rparr>"
  | (same) "fst (access_step (e, op) sd) = fst sd"
proof (cases op)
  case (ACreate l x r1 r2)
  obtain s d where sd: "sd = (s, d)" by (cases sd)
  show ?thesis
  proof (cases r1)
    case None
    then show ?thesis using that(3) by (simp add: ACreate sd fst_access_step)
  next
    case r1: (Some b)
    show ?thesis
    proof (cases r2)
      case None
      then show ?thesis using that(3) r1 by (simp add: ACreate sd fst_access_step)
    next
      case (Some c)
      have "b \<noteq> [] \<Longrightarrow> hex_EncodeToString b \<noteq> []" using length_hex [of b] by (auto simp del: length_hex)
      then show ?thesis
        using that(1) [of "\<lparr>auID = hex_EncodeToString b, auLabel = l, auToken = hex_EncodeToString c, auCreated = snd (snd e), auExpires = x\<rparr>"]
        by (simp add: ACreate sd r1 Some fst_access_step randomHex_def)
    qed
  qed
next
  case (ADelete uid)
  then show ?thesis using that(2) by (cases sd) (simp add: fst_access_step)
qed

lemma holds_add: "access_inv s \<Longrightarrow> holds s u \<Longrightarrow> auID v \<noteq> auID u \<Longrightarrow> auToken v \<noteq> auToken u \<Longrightarrow> holds (add_user v s) u"
proof -
  assume *: "access_inv s" "holds s u" "auID v \<noteq> auID u" "auToken v \<noteq> auToken u"
  then have "(auID u, u) \<in> set (asUsers s)" by (auto simp: holds_def access_inv_def list_all_iff)
  then have "(auID u, u) \<in> set (AList.update (auID v) v (asUsers s))" using *(3) by (simp add: set_update_keeps)
  then have "u \<in> set (map snd (AList.update (auID v) v (asUsers s)))" by (force simp: image_iff)
  moreover have "w = u" if "w \<in> set (map snd (AList.update (auID v) v (asUsers s)))" "auToken w = auToken u" for w
    using that *(2,4) set_update_subset [of "auID v" v "asUsers s"] by (auto simp: holds_def list_all_iff)
  ultimately show ?thesis by (simp add: holds_def add_user_def list_all_iff)
qed

lemma holds_delete: "access_inv s \<Longrightarrow> holds s u \<Longrightarrow> uid \<noteq> auID u \<Longrightarrow> holds (s\<lparr>asUsers := AList.delete uid (asUsers s)\<rparr>) u"
proof -
  assume *: "access_inv s" "holds s u" "uid \<noteq> auID u"
  then have "(auID u, u) \<in> set (asUsers s)" by (auto simp: holds_def access_inv_def list_all_iff)
  then have "(auID u, u) \<in> set (AList.delete uid (asUsers s))" using *(3) by (simp add: AList.delete_eq)
  then have "u \<in> set (map snd (AList.delete uid (asUsers s)))" by (force simp: image_iff)
  moreover have "w = u" if "w \<in> set (map snd (AList.delete uid (asUsers s)))" "auToken w = auToken u" for w
    using that *(2) by (auto simp: AList.delete_eq holds_def list_all_iff)
  ultimately show ?thesis by (simp add: holds_def list_all_iff)
qed

lemma gone_delete: "access_inv s \<Longrightarrow> holds s u \<Longrightarrow> gone (s\<lparr>asUsers := AList.delete (auID u) (asUsers s)\<rparr>) (auToken u)"
proof -
  assume *: "access_inv s" "holds s u"
  have "auToken (snd p) \<noteq> auToken u" if "p \<in> set (AList.delete (auID u) (asUsers s))" for p
  proof
    assume eq: "auToken (snd p) = auToken u"
    have p: "p \<in> set (asUsers s)" "fst p \<noteq> auID u" using that by (auto simp: AList.delete_eq)
    then have "snd p = u" "fst p = auID (snd p)" using * eq by (auto simp: holds_def access_inv_def list_all_iff)
    with p(2) show False by simp
  qed
  then show ?thesis by (simp add: gone_def list_all_iff)
qed

lemma gone_add: "gone s tok \<Longrightarrow> auToken u \<noteq> tok \<Longrightarrow> gone (add_user u s) tok"
  using set_update_subset [of "auID u" u "asUsers s"] by (auto simp: gone_def add_user_def list_all_iff)

interpretation gate: token_gate "\<lambda>now sd. Authorized now (fst sd)" access_step
    "\<lambda>sd. holds (fst sd)" "\<lambda>sd. gone (fst sd)" "\<lambda>sd. access_inv (fst sd)"
proof unfold_locales
  fix sd :: "accessStore \<times> disk" and u tok now e op
  show "holds (fst sd) u \<Longrightarrow> auToken u \<noteq> [] \<Longrightarrow> Authorized now (fst sd) (auToken u) = (\<not> Expired now u)"
    by (rule Authorized_holds)
  show "gone (fst sd) tok \<Longrightarrow> \<not> Authorized now (fst sd) tok" by (rule Authorized_gone)
  show "access_inv (fst sd) \<Longrightarrow> holds (fst sd) u \<Longrightarrow> spares u op \<Longrightarrow> holds (fst (access_step (e, op) sd)) u"
    by (rule access_step_cases [of e op sd]) (auto simp: holds_add holds_delete)
  show "gone (fst sd) tok \<Longrightarrow> \<not> draws tok op \<Longrightarrow> gone (fst (access_step (e, op) sd)) tok"
    by (rule access_step_cases [of e op sd]) (auto simp: gone_add, auto simp: gone_def list_all_iff AList.delete_eq)
  show "access_inv (fst sd) \<Longrightarrow> holds (fst sd) u \<Longrightarrow> gone (fst (access_step (e, ADelete (auID u)) sd)) (auToken u)"
    by (cases sd) (simp add: fst_access_step gone_delete)
  show "access_inv (fst sd) \<Longrightarrow> (case op of ACreate l x r1 r2 \<Rightarrow> r1 \<noteq> Some [] | _ \<Rightarrow> True) \<Longrightarrow>
      access_inv (fst (access_step (e, op) sd))"
    by (rule access_step_cases [of e op sd]) (auto simp: access_inv_add access_inv_delete)
qed

text \<open>
  C26.  The life of an access token.  A new user's token is authorised until its expiry, and forever
  if it has none, through any operations on other users and any failures of the disk; once the
  operator deletes the user it is never authorised again, even when the deletion could not be saved.
\<close>

theorem access_token_lifetime:
  assumes "access_inv s" "access_Create wok rok t0 (Some b) (Some c) label expires (s, d) = ((u, err), sd)"
    "b \<noteq> []" "c \<noteq> []" "gone s (hex_EncodeToString c)"
    "list_all (\<lambda>(_, op). harmless u op) ops" "list_all (\<lambda>(_, op). \<not> draws (auToken u) op) ops'"
  shows "Authorized now (fst (fold access_step ops sd)) (auToken u) =
      (case expires of None \<Rightarrow> True | Some x \<Rightarrow> now \<le> x) \<and>
    \<not> Authorized now (fst (fold access_step ops' (access_step (e, ADelete (auID u)) (fold access_step ops sd)))) (auToken u)"
proof -
  let ?u = "\<lparr>auID = hex_EncodeToString b, auLabel = label, auToken = hex_EncodeToString c, auCreated = t0, auExpires = expires\<rparr>"
  have u: "u = ?u" and sd: "fst sd = add_user ?u s"
    using assms(2) by (auto simp: access_Create_def randomHex_def Let_def split: prod.splits)
  have ne: "auID ?u \<noteq> []" "auToken ?u \<noteq> []"
    using assms(3,4) length_hex [of b] length_hex [of c] by (auto simp del: length_hex)
  have inv: "access_inv (fst sd)" using access_inv_add [OF assms(1) ne(1)] by (simp only: sd)
  have mem: "?u \<in> set (map snd (AList.update (auID ?u) ?u (asUsers s)))"
    using update_in [of "auID ?u" ?u "asUsers s"] by (force simp: image_iff)
  have "w = ?u" if "w \<in> set (map snd (AList.update (auID ?u) ?u (asUsers s)))" "auToken w = auToken ?u" for w
    using that assms(5) set_update_subset [of "auID ?u" ?u "asUsers s"] by (auto simp: gone_def list_all_iff)
  with mem have "holds (fst sd) u" unfolding sd u by (simp add: holds_def add_user_def list_all_iff)
  note life = gate.access_lifetime [OF inv this _ assms(6,7)]
  have "auToken u \<noteq> []" using ne(2) by (simp only: u not_False_eq_True)
  then have "Authorized now (fst (fold access_step ops sd)) (auToken u) = (\<not> Expired now u)"
    "\<not> Authorized now (fst (fold access_step ops' (access_step (e, ADelete (auID u)) (fold access_step ops sd)))) (auToken u)"
    by (rule life)+
  then show ?thesis by (auto simp: u Expired_def split: option.splits)
qed

definition empty_store :: "string \<Rightarrow> accessStore" where
  "empty_store path = \<lparr>asUsers = [], asPath = path\<rparr>"

theorem access_token_lifetime_witness:
  "Authorized 50 (fst (fold access_step [((True, True, 3), ADelete ''99'')]
      (snd (access_Create True True 0 (Some ''a'') (Some ''b'') ''phone'' (Some 60) (empty_store [], []))))) ''62''"
proof -
  let ?c = "access_Create True True 0 (Some ''a'') (Some ''b'') ''phone'' (Some 60) (empty_store [], [])"
  let ?u = "\<lparr>auID = ''61'', auLabel = ''phone'', auToken = ''62'', auCreated = 0, auExpires = Some 60\<rparr>"
  have hex: "hex_EncodeToString ''a'' = ''61''" "hex_EncodeToString ''b'' = ''62''" by code_simp+
  then have c: "?c = ((?u, None), snd ?c)"
    by (simp add: access_Create_def randomHex_def access_save_def empty_store_def add_user_def Let_def)
  have s: "access_inv (empty_store [])" "gone (empty_store []) (hex_EncodeToString ''b'')"
    by (simp_all add: access_inv_def gone_def empty_store_def)
  have ops: "list_all (\<lambda>(_, op). harmless ?u op) [((True, True, 3), ADelete ''99'')]"
    "list_all (\<lambda>(_, op). \<not> draws (auToken ?u) op) []" by (simp_all add: harmless_def)
  from access_token_lifetime [OF s(1) c _ _ s(2) ops, of 50] show ?thesis by simp
qed

subsection \<open>The roster on disk\<close>

lemma access_load_fold:
  "distinct (map auID us) \<Longrightarrow> list_all (\<lambda>u. auID u \<noteq> []) us \<Longrightarrow>
   map_of (asUsers (fold (\<lambda>u s. if auID u \<noteq> [] then add_user u s else s) us s)) =
     map_of (asUsers s) ++ map_of (map (\<lambda>u. (auID u, u)) us)"
proof (induction us arbitrary: s)
  case (Cons u us)
  have "map_of (map (\<lambda>u. (auID u, u)) us) (auID u) = None"
    using Cons.prems(1) by (simp add: map_of_eq_None_iff image_image)
  with Cons show ?case
    by (simp add: add_user_def update_conv') (auto simp: fun_eq_iff map_add_def split: option.splits)
qed simp

lemma by_creation_map:
  assumes "access_inv s"
  shows "map_of (map (\<lambda>u. (auID u, u)) (by_creation s)) = map_of (asUsers s)"
    "distinct (map auID (by_creation s))" "list_all (\<lambda>u. auID u \<noteq> []) (by_creation s)"
proof -
  have key: "fst p = auID (snd p) \<and> fst p \<noteq> []" if "p \<in> set (asUsers s)" for p
    using assms that by (force simp: access_inv_def list_all_iff)
  have fst: "map fst (asUsers s) = map (auID \<circ> snd) (asUsers s)" using key by (simp add: map_eq_conv)
  have "mset (map auID (by_creation s)) = mset (map fst (asUsers s))"
    unfolding fst by_creation_def by (simp add: mset_map comp_def image_mset.compositionality)
  then show d: "distinct (map auID (by_creation s))"
    using assms by (metis access_inv_def mset_eq_imp_distinct_iff)
  have set: "set (map (\<lambda>u. (auID u, u)) (by_creation s)) = set (asUsers s)"
    using key by (force simp: by_creation_def image_image image_iff)
  show "map_of (map (\<lambda>u. (auID u, u)) (by_creation s)) = map_of (asUsers s)"
    using assms d set by (subst map_of_inject_set) (simp_all add: comp_def access_inv_def)
  show "list_all (\<lambda>u. auID u \<noteq> []) (by_creation s)"
    using key by (force simp: by_creation_def list_all_iff)
qed

lemma json_user_id [simp]: "auID (json_user u) = auID u"
  by (simp add: json_user_def)

lemma json_user_idem [simp]: "json_user (json_user u) = json_user u"
  by (simp add: json_user_def)

lemma json_user_same: "valid_utf8 (auLabel u) \<Longrightarrow> json_user u = u"
  by (simp add: json_user_def to_utf8_id)

lemma reload:
  assumes "access_inv s" "asPath s = path" "path \<noteq> []"
  obtains s' where "NewAccessStore (snd (access_save True True s d)) path = Inr s'"
    "map_of (asUsers s') = map_option json_user \<circ> map_of (asUsers s)" "asPath s' = path"
proof -
  let ?us = "map json_user (by_creation s)"
  have path: "asPath (fold (\<lambda>u s. if auID u \<noteq> [] then add_user u s else s) us z) = asPath z" for us z
    by (induction us arbitrary: z) (simp_all add: add_user_def)
  have ids: "distinct (map auID ?us)" "list_all (\<lambda>u. auID u \<noteq> []) ?us"
    using by_creation_map(2,3) [OF assms(1)] by (simp_all add: comp_def list_all_iff)
  have "map (\<lambda>u. (auID u, u)) ?us = map (\<lambda>(k, u). (k, json_user u)) (map (\<lambda>u. (auID u, u)) (by_creation s))" by simp
  then have "map_of (map (\<lambda>u. (auID u, u)) ?us) = map_option json_user \<circ> map_of (asUsers s)"
    by (simp only: map_of_map by_creation_map(1) [OF assms(1)])
  with access_load_fold [OF ids] path assms(2,3) show thesis
    by (intro that [of "fold (\<lambda>u s. if auID u \<noteq> [] then add_user u s else s) ?us \<lparr>asUsers = [], asPath = path\<rparr>"])
      (simp_all add: access_save_def NewAccessStore_def access_load_def Let_def update_conv')
qed

text \<open>
  C35.  Saving is atomic and loading undoes it.  When a save reports success a later start reads back
  the same roster, with U+FFFD for what is not UTF-8 in a label; when it reports an error, whatever went
  wrong, the file is still the one that was there before, never a part of a roster.
\<close>

theorem roster_durable:
  assumes "access_inv s" "asPath s \<noteq> []"
  shows "case access_save wok rok s d of
      (None, d') \<Rightarrow> (case NewAccessStore d' (asPath s) of
         Inl _ \<Rightarrow> False | Inr s' \<Rightarrow> map_of (asUsers s') = map_option json_user \<circ> map_of (asUsers s) \<and> asPath s' = asPath s)
    | (Some _, d') \<Rightarrow> map_of d' (asPath s) = map_of d (asPath s)"
proof (cases "wok \<and> rok")
  case True
  obtain s' where "NewAccessStore (snd (access_save True True s d)) (asPath s) = Inr s'"
    "map_of (asUsers s') = map_option json_user \<circ> map_of (asUsers s)" "asPath s' = asPath s"
    by (rule reload [OF assms(1) refl assms(2)])
  moreover have "fst (access_save True True s d) = None" by (simp add: access_save_def Let_def)
  ultimately show ?thesis using True by (cases "access_save True True s d") simp
next
  case False
  then show ?thesis using assms(2) by (auto simp: access_save_def Let_def update_conv' split: if_splits)
qed

theorem roster_durable_witness:
  "(case access_save True True (add_user (no_user\<lparr>auID := ''61''\<rparr>) (empty_store ''/r'')) [] of
      (None, d') \<Rightarrow> (case NewAccessStore d' ''/r'' of
         Inl _ \<Rightarrow> False | Inr s' \<Rightarrow> map_of (asUsers s') ''61'' = Some (no_user\<lparr>auID := ''61''\<rparr>))
    | (Some _, d') \<Rightarrow> False)"
proof -
  let ?s = "add_user (no_user\<lparr>auID := ''61''\<rparr>) (empty_store ''/r'')"
  have s: "access_inv ?s" "asPath ?s = ''/r''" "asPath ?s \<noteq> []" "map_of (asUsers ?s) ''61'' = Some (no_user\<lparr>auID := ''61''\<rparr>)"
    by (simp_all add: access_inv_def add_user_def empty_store_def no_user_def)
  have "fst (access_save True True ?s []) = None" by (simp add: access_save_def s(2) Let_def)
  with roster_durable [OF s(1,3), where wok = True and rok = True and d = "[]"] s(2,4) show ?thesis
    by (auto simp: json_user_def no_user_def split: prod.splits option.splits sum.splits)
qed

end
