(* ===== verification/Settings.thy ===== *)
theory Settings
  imports Disk
begin

section \<open>Live settings (internal/settings/settings.go)\<close>

text \<open>
  The switches the panel changes at run time, kept in memory and, when a path is set, in a file.
  \<open>wok\<close> and \<open>rok\<close> say whether writing and renaming succeed; a failed write may leave part of the
  text in the temporary file.
\<close>

definition knownModules :: "string list" where
  "knownModules = [''generic'', ''youtube'', ''telegram'']"

record settings =
  stProxyEnabled :: bool
  stAccessLog :: bool
  stModules :: "(string \<times> bool) list"
  stPath :: string

definition settings_New :: "bool \<Rightarrow> bool \<Rightarrow> settings" where
  "settings_New proxyEnabled accessLog =
     \<lparr>stProxyEnabled = proxyEnabled, stAccessLog = accessLog,
      stModules = AList.update ''generic'' proxyEnabled (fold (\<lambda>m. AList.update m False) knownModules []), stPath = []\<rparr>"

definition Snapshot :: "settings \<Rightarrow> snapshot" where
  "Snapshot s = \<lparr>snProxyEnabled = stProxyEnabled s, snAccessLog = stAccessLog s, snModules = stModules s\<rparr>"

definition settings_save :: "bool \<Rightarrow> bool \<Rightarrow> settings \<Rightarrow> disk \<Rightarrow> disk" where
  "settings_save wok rok s d =
     (if stPath s = [] then d
      else
        let tmp = stPath s @ ''.tmp'' in
        if \<not> wok then AList.update tmp Partial d
        else if \<not> rok then AList.update tmp (Saved (Snapshot s)) d
        else AList.update (stPath s) (Saved (Snapshot s)) (AList.delete tmp d))"

definition SetProxyEnabled :: "bool \<Rightarrow> settings \<Rightarrow> settings" where
  "SetProxyEnabled v s = s\<lparr>stProxyEnabled := v, stModules := AList.update ''generic'' v (stModules s)\<rparr>"

definition SetAccessLog :: "bool \<Rightarrow> settings \<Rightarrow> settings" where
  "SetAccessLog v s = s\<lparr>stAccessLog := v\<rparr>"

text \<open>\<open>Validate\<close> reports the first unknown module in the order of iteration.\<close>

definition Validate :: "snapshot \<Rightarrow> string option" where
  "Validate snap = List.find (\<lambda>name. \<not> List.member knownModules name) (map fst (snModules snap))"

definition Apply :: "snapshot \<Rightarrow> settings \<Rightarrow> settings" where
  "Apply snap s =
     s\<lparr>stProxyEnabled := snProxyEnabled snap, stAccessLog := snAccessLog snap,
       stModules := fold (\<lambda>m mods. case map_of (snModules snap) m of None \<Rightarrow> mods | Some v \<Rightarrow> AList.update m v mods)
         knownModules (AList.update ''generic'' (snProxyEnabled snap) (stModules s))\<rparr>"

text \<open>The three setters, each with the write that follows it.\<close>

datatype settings_op = OProxy bool | OAccessLog bool | OApply snapshot

fun settings_change :: "settings_op \<Rightarrow> settings \<Rightarrow> settings" where
  "settings_change (OProxy v) s = SetProxyEnabled v s"
| "settings_change (OAccessLog v) s = SetAccessLog v s"
| "settings_change (OApply snap) s = Apply snap s"

definition settings_step :: "bool \<Rightarrow> bool \<Rightarrow> settings_op \<Rightarrow> settings \<times> disk \<Rightarrow> settings \<times> disk" where
  "settings_step wok rok op = (\<lambda>(s, d). let s = settings_change op s in (s, settings_save wok rok s d))"

definition Persist :: "bool \<Rightarrow> bool \<Rightarrow> string \<Rightarrow> settings \<times> disk \<Rightarrow> settings \<times> disk" where
  "Persist wok rok path = (\<lambda>(s, d).
     if path = [] then (s, d)
     else
       let s = s\<lparr>stPath := path\<rparr> in
       case map_of d path of
         Some (Saved snap) \<Rightarrow> settings_step wok rok (OApply snap) (s, d)
       | _ \<Rightarrow> (s, d))"

subsection \<open>Invariant and durability\<close>

text \<open>Exactly the known modules have a switch.\<close>

definition settings_inv :: "settings \<Rightarrow> bool" where
  "settings_inv s \<longleftrightarrow> dom (map_of (stModules s)) = set knownModules"

lemma modules_fold:
  "map_of (fold (\<lambda>m mods. case f m of None \<Rightarrow> mods | Some v \<Rightarrow> AList.update m v mods) ms xs) k =
     (if k \<in> set ms \<and> f k \<noteq> None then f k else map_of xs k)"
  by (induction ms arbitrary: xs) (auto simp: update_conv' split: option.splits)

lemma Apply_modules:
  "map_of (stModules (Apply snap s)) k =
     (if k \<in> set knownModules \<and> map_of (snModules snap) k \<noteq> None then map_of (snModules snap) k
      else if k = ''generic'' then Some (snProxyEnabled snap) else map_of (stModules s) k)"
  by (auto simp: Apply_def modules_fold update_conv')

lemma generic_known: "''generic'' \<in> set knownModules"
  by (simp add: knownModules_def)

lemma settings_inv_New: "settings_inv (settings_New p a)"
  by (auto simp: settings_inv_def settings_New_def knownModules_def update_conv' split: if_splits)

lemma settings_inv_change: "settings_inv s \<Longrightarrow> settings_inv (settings_change op s)"
proof (cases op)
  case (OProxy v)
  assume "settings_inv s"
  with OProxy generic_known show ?thesis by (auto simp: settings_inv_def SetProxyEnabled_def update_conv')
next
  case (OAccessLog v)
  assume "settings_inv s"
  with OAccessLog show ?thesis by (simp add: settings_inv_def SetAccessLog_def)
next
  case (OApply snap)
  assume inv: "settings_inv s"
  have "k \<in> dom (map_of (stModules (Apply snap s))) \<longleftrightarrow> k \<in> set knownModules" for k
  proof -
    have "k \<in> dom (map_of (stModules s)) \<longleftrightarrow> k \<in> set knownModules" using inv by (simp add: settings_inv_def)
    then show ?thesis using generic_known
      by (cases "k \<in> set knownModules"; cases "k = ''generic''") (auto simp: domIff Apply_modules)
  qed
  with OApply show ?thesis by (auto simp: settings_inv_def)
qed

lemma change_path [simp]: "stPath (settings_change op s) = stPath s"
  by (cases op) (simp_all add: SetProxyEnabled_def SetAccessLog_def Apply_def)

text \<open>The meaning of a state: the two switches and the module map.\<close>

definition meaning :: "settings \<Rightarrow> bool \<times> bool \<times> (string \<Rightarrow> bool option)" where
  "meaning s = (stProxyEnabled s, stAccessLog s, map_of (stModules s))"

lemma meaning_Apply_Snapshot:
  assumes "settings_inv s" "settings_inv z"
  shows "meaning (Apply (Snapshot s) z) = meaning s"
proof -
  have "map_of (stModules (Apply (Snapshot s) z)) k = map_of (stModules s) k" for k
  proof (cases "k \<in> set knownModules")
    case True
    then have "map_of (stModules s) k \<noteq> None" using assms(1) by (metis domIff settings_inv_def)
    with True show ?thesis by (simp add: Apply_modules Snapshot_def)
  next
    case False
    then have "map_of (stModules s) k = None" "map_of (stModules z) k = None" "k \<noteq> ''generic''"
      using assms generic_known by (metis domIff settings_inv_def)+
    with False show ?thesis by (simp add: Apply_modules)
  qed
  then show ?thesis by (auto simp: meaning_def Apply_def Snapshot_def)
qed

text \<open>
  A change in the panel outlives a restart.  After any change whose file is written, a server
  started with any configuration and pointed at the same path has the settings that were left, each
  module included; when writing or renaming fails the file keeps the settings before the change, in
  full.  In either case exactly the known modules have a switch.
\<close>

theorem settings_durable:
  assumes "settings_inv s" "stPath s = path" "path \<noteq> []"
  shows "case settings_step wok rok op (s, d) of (s', d') \<Rightarrow>
    settings_inv s' \<and>
    (if wok \<and> rok
     then meaning (fst (Persist w r path (settings_New proxyEnabled accessLog, d'))) = meaning s'
     else map_of d' path = map_of d path)"
proof -
  let ?s = "settings_change op s"
  let ?z = "(settings_New proxyEnabled accessLog)\<lparr>stPath := path\<rparr>"
  have inv: "settings_inv ?s" "settings_inv ?z"
    using settings_inv_change [OF assms(1)] settings_inv_New by (simp_all add: settings_inv_def)
  have path: "stPath ?s = path" using assms(2) by simp
  have "meaning (fst (Persist w r path (settings_New proxyEnabled accessLog, AList.update path (Saved (Snapshot ?s)) x))) = meaning ?s" for x
    using assms(3) meaning_Apply_Snapshot [OF inv]
    by (simp add: Persist_def update_conv' settings_step_def Let_def)
  with inv(1) path assms(3) show ?thesis
    by (simp add: settings_step_def settings_save_def Let_def update_conv' delete_conv')
qed

theorem settings_durable_witness:
  "stProxyEnabled (fst (Persist True True ''/s'' (settings_New True True,
     snd (settings_step True True (OProxy False) ((settings_New True True)\<lparr>stPath := ''/s''\<rparr>, []))))) = False"
proof -
  let ?s = "(settings_New True True)\<lparr>stPath := ''/s''\<rparr>"
  have s: "settings_inv ?s" "stPath ?s = ''/s''" using settings_inv_New by (simp_all add: settings_inv_def)
  have off: "stProxyEnabled (fst (settings_step True True (OProxy False) (?s, []))) = False"
    by (simp add: settings_step_def SetProxyEnabled_def Let_def)
  from settings_durable [OF s, where wok = True and rok = True and op = "OProxy False" and d = "[]"
      and w = True and r = True and proxyEnabled = True and accessLog = True] off
  show ?thesis by (simp add: meaning_def split: prod.splits)
qed

text \<open>
  \<open>SetProxyEnabled\<close> keeps the switch of the generic module equal to the proxy's; \<open>Apply\<close>, which the
  panel uses, lets a snapshot set them apart.
\<close>

theorem generic_untracked:
  "Validate \<lparr>snProxyEnabled = True, snAccessLog = False, snModules = [(''generic'', False)]\<rparr> = None \<and>
   stProxyEnabled (Apply \<lparr>snProxyEnabled = True, snAccessLog = False, snModules = [(''generic'', False)]\<rparr> s) \<and>
   map_of (stModules (Apply \<lparr>snProxyEnabled = True, snAccessLog = False, snModules = [(''generic'', False)]\<rparr> s)) ''generic''
     = Some False"
  by (simp add: Validate_def Apply_modules) (simp add: Apply_def knownModules_def)

end
