(* ===== verification/Admin.thy ===== *)
theory Admin
  imports Service_Info Go_Mux Cookies Go_Base64 Auth_Limiter Auth_Session Admin_Roster Settings
begin

section \<open>The admin panel (internal/admin/admin.go)\<close>

text \<open>
  \<open>panel_config\<close> is \<open>Options\<close> without the stores, which make up the state \<open>panel\<close>, together with what
  the handlers take from the library: HMAC-SHA256, the text of a time, the printable runes, the
  embedded assets and the build's identity.  A handler maps the panel and the response being written;
  \<open>panel_env\<close> is what it finds around it: the clock at the session check or limiter and later, random
  bytes, and whether file operations succeed.
\<close>

record panel_config =
  pcBasePath :: string
  pcUsername :: string
  pcPasswordHash :: string
  pcPublicURL :: string
  pcStartedAt :: int
  pcTrustedProxy :: "(string \<Rightarrow> bool) option"
  pcHmac :: "bytes \<Rightarrow> bytes \<Rightarrow> bytes"
  pcTime :: "int \<Rightarrow> string"
  pcPrintable :: "nat \<Rightarrow> bool"
  pcAsset :: "string \<Rightarrow> bytes option"
  pcBuild :: build_info

datatype panel_log = HashMalformed | FailedLogin string | SettingsUpdated bool bool | CreateNotPersisted | DeleteNotPersisted

record panel =
  pnSettings :: settings
  pnSessions :: sessionStore
  pnLogins :: limiter
  pnAccess :: accessStore
  pnDisk :: disk
  pnLog :: "panel_log list"

record panel_env =
  veGate :: int
  veNow :: int
  veRand1 :: "bytes option"
  veRand2 :: "bytes option"
  veWriteOk :: bool
  veRenameOk :: bool

type_synonym panel_action = "panel_env \<Rightarrow> request \<Rightarrow> panel \<Rightarrow> writer \<Rightarrow> panel \<times> writer"

definition AdminSessionTTL :: int where
  "AdminSessionTTL = 8 * 3600 * 10 ^ 9"

definition sessionCookie :: string where
  "sessionCookie = ''bumshi_admin_session''"

definition csrfCookie :: string where
  "csrfCookie = ''bumshi_admin_csrf''"

definition csrfHeader :: string where
  "csrfHeader = ''X-CSRF-Token''"

definition maxBodyBytes :: nat where
  "maxBodyBytes = 16 * 1024"

subsection \<open>Answers, peers and cookies\<close>

definition writeJSON :: "nat \<Rightarrow> json \<Rightarrow> writer \<Rightarrow> writer" where
  "writeJSON code v w = Write (json_body v) (WriteHeader code (hset ''Content-Type'' json_content w))"

definition errBody :: "string \<Rightarrow> json" where
  "errBody msg = JObj [(''error'', JStr msg)]"

definition peer_host :: "request \<Rightarrow> string" where
  "peer_host r = (case net_SplitHostPort (rRemoteAddr r) of Some (host, _) \<Rightarrow> host | None \<Rightarrow> rRemoteAddr r)"

definition trusted_peer :: "(string \<Rightarrow> bool) option \<Rightarrow> string \<Rightarrow> bool" where
  "trusted_peer trusted peer = (case trusted of None \<Rightarrow> False | Some f \<Rightarrow> f peer)"

definition clientIP :: "request \<Rightarrow> (string \<Rightarrow> bool) option \<Rightarrow> string" where
  "clientIP r trusted =
     (let peer = peer_host r in
      if \<not> trusted_peer trusted peer then peer
      else
        let xff = Get (rHeader r) ''X-Forwarded-For''; ip = trim_space (last (split_byte CHR '','' xff));
            real = trim_space (Get (rHeader r) ''X-Real-Ip'')
        in if xff \<noteq> [] \<and> ip \<noteq> [] then ip else if real \<noteq> [] then real else peer)"

definition isSecureRequest :: "panel_config \<Rightarrow> request \<Rightarrow> bool" where
  "isSecureRequest h r =
     (if rTLS r then True
      else if trusted_peer (pcTrustedProxy h) (peer_host r)
        then equal_fold (Get (rHeader r) ''X-Forwarded-Proto'') ''https''
      else False)"

definition http_SetCookie :: "string \<Rightarrow> cookie \<Rightarrow> writer \<Rightarrow> writer" where
  "http_SetCookie sameSite c w =
     (let v = cookie_String sameSite c in
      if v = [] then w else w\<lparr>wHeader := Add_hdr ''Set-Cookie'' v (wHeader w)\<rparr>)"

definition setCookie :: "panel_config \<Rightarrow> request \<Rightarrow> string \<Rightarrow> string \<Rightarrow> bool \<Rightarrow> writer \<Rightarrow> writer" where
  "setCookie h r name value httpOnly w =
     http_SetCookie ''Strict'' \<lparr>cName = name, cValue = value, cQuoted = False, cPath = pcBasePath h, cDomain = [],
       cExpires = None, cMaxAge = AdminSessionTTL div 10 ^ 9, cSecure = isSecureRequest h r, cHttpOnly = httpOnly\<rparr> w"

definition clearCookie :: "panel_config \<Rightarrow> request \<Rightarrow> string \<Rightarrow> writer \<Rightarrow> writer" where
  "clearCookie h r name w =
     http_SetCookie ''Strict'' \<lparr>cName = name, cValue = [], cQuoted = False, cPath = pcBasePath h, cDomain = [],
       cExpires = None, cMaxAge = - 1, cSecure = isSecureRequest h r, cHttpOnly = True\<rparr> w"

subsection \<open>Sessions\<close>

definition currentSession :: "panel_env \<Rightarrow> request \<Rightarrow> panel \<Rightarrow> session option \<times> panel" where
  "currentSession e r s =
     (case request_Cookie r sessionCookie of
        None \<Rightarrow> (None, s)
      | Some v \<Rightarrow> let (sess, st) = session_Get (veGate e) v (pnSessions s) in (sess, s\<lparr>pnSessions := st\<rparr>))"

definition auth :: "panel_action \<Rightarrow> panel_action" where
  "auth next e r s w =
     (let (sess, s) = currentSession e r s in
      case sess of None \<Rightarrow> (s, writeJSON 401 (errBody ''unauthorized'') w) | Some _ \<Rightarrow> next e r s w)"

definition authCSRF :: "panel_action \<Rightarrow> panel_action" where
  "authCSRF next e r s w =
     (let (sess, s) = currentSession e r s in
      case sess of
        None \<Rightarrow> (s, writeJSON 401 (errBody ''unauthorized'') w)
      | Some sess \<Rightarrow>
          if ConstantTimeCompare (Get (rHeader r) csrfHeader) (seCSRF sess) \<noteq> 1
          then (s, writeJSON 403 (errBody ''invalid CSRF token'') w)
          else next e r s w)"

subsection \<open>Pages and assets\<close>

text \<open>\<open>bytes.ReplaceAll\<close> for a pattern that is not empty.\<close>

function replace_all :: "bytes \<Rightarrow> bytes \<Rightarrow> bytes \<Rightarrow> bytes" where
  "replace_all pat rep data =
     (if pat = [] then data
      else case index_str data pat of
          None \<Rightarrow> data
        | Some i \<Rightarrow> take i data @ rep @ replace_all pat rep (drop (i + length pat) data))"
  by pat_completeness auto
termination
  by (relation "measure (\<lambda>(_, _, data). length data)") (auto dest!: index_str_Some_bound simp flip: length_greater_0_conv)

declare replace_all.simps [simp del]

definition writeAsset :: "panel_config \<Rightarrow> string \<Rightarrow> string \<Rightarrow> writer \<Rightarrow> writer" where
  "writeAsset h name contentType w =
     (case pcAsset h name of
        None \<Rightarrow> http_NotFound w
      | Some raw0 \<Rightarrow>
          let data = (if has_suffix name ''.html'' \<or> has_suffix name ''.js''
                      then replace_all ''__BASE__'' (pcBasePath h) raw0 else raw0)
          in Write data (hset ''Cache-Control'' ''no-store'' (hset ''X-Content-Type-Options'' ''nosniff''
               (hset ''Content-Type'' contentType w))))"

definition serveApp :: "panel_config \<Rightarrow> panel_action" where
  "serveApp h e r s w =
     (let (sess, s) = currentSession e r s in
      case sess of
        None \<Rightarrow> (s, http_Redirect r (pcBasePath h @ ''login'') 303 w)
      | Some _ \<Rightarrow> (s, writeAsset h ''app.html'' ''text/html; charset=utf-8'' w))"

definition serveLogin :: "panel_config \<Rightarrow> panel_action" where
  "serveLogin h e r s w =
     (let (sess, s) = currentSession e r s in
      case sess of
        Some _ \<Rightarrow> (s, http_Redirect r (pcBasePath h) 303 w)
      | None \<Rightarrow> (s, writeAsset h ''login.html'' ''text/html; charset=utf-8'' w))"

definition serveAsset :: "panel_config \<Rightarrow> string \<Rightarrow> panel_action" where
  "serveAsset h file_name e r s w =
     (s, if contains_any file_name [CHR ''/'', CHR 0x5C] then http_NotFound w
         else if has_suffix file_name ''.css'' then writeAsset h file_name ''text/css; charset=utf-8'' w
         else if has_suffix file_name ''.js'' then writeAsset h file_name ''text/javascript; charset=utf-8'' w
         else http_NotFound w)"

subsection \<open>Login and logout\<close>

record credentials =
  crUsername :: string
  crPassword :: string

definition login_fields :: "(string \<times> credentials setter) list" where
  "login_fields = [(''username'', field crUsername_update crUsername set_string),
     (''password'', field crPassword_update crPassword set_string)]"

definition redirect_body :: "string \<Rightarrow> json" where
  "redirect_body target = JObj [(''ok'', JBool True), (''redirect'', JStr target)]"

definition add_log :: "panel_log \<Rightarrow> panel \<Rightarrow> panel" where
  "add_log l s = s\<lparr>pnLog := pnLog s @ [l]\<rparr>"

definition handleLogin :: "panel_config \<Rightarrow> panel_action" where
  "handleLogin h e r s w =
     (let ip = clientIP r (pcTrustedProxy h); (ok, logins) = Allow (veGate e) ip (pnLogins s);
          s = s\<lparr>pnLogins := logins\<rparr>
      in if \<not> ok then (s, writeJSON 429 (errBody ''too many attempts, please wait'') w)
         else
           let (body, decoded) = json_Decode login_fields False (take maxBodyBytes (rBody r)) \<lparr>crUsername = [], crPassword = []\<rparr> in
           if \<not> decoded then (s, writeJSON 400 (errBody ''invalid request'') w)
           else
             let userOK = ConstantTimeCompare (crUsername body) (pcUsername h) = 1 in
             case VerifyPassword (pcHmac h) (pcPasswordHash h) (crPassword body) of
               Inl _ \<Rightarrow> (add_log HashMalformed s,
                 writeJSON 500 (errBody ''the server's admin password hash is not valid; see the service logs'') w)
             | Inr passOK \<Rightarrow>
                 if \<not> userOK \<or> \<not> passOK
                 then (add_log (FailedLogin ip) s, writeJSON 401 (errBody ''invalid credentials'') w)
                 else
                   (case session_Create (veNow e) (pcUsername h) (veRand1 e) (veRand2 e) (pnSessions s) of
                      (None, st) \<Rightarrow> (s\<lparr>pnSessions := st\<rparr>, writeJSON 500 (errBody ''internal error'') w)
                    | (Some (tok, csrf), st) \<Rightarrow>
                        (s\<lparr>pnSessions := st, pnLogins := Reset ip (pnLogins s)\<rparr>,
                         writeJSON 200 (redirect_body (pcBasePath h))
                           (setCookie h r csrfCookie csrf False (setCookie h r sessionCookie tok True w)))))"

definition handleLogout :: "panel_config \<Rightarrow> panel_action" where
  "handleLogout h e r s w =
     (let s = (case request_Cookie r sessionCookie of
                 None \<Rightarrow> s | Some v \<Rightarrow> s\<lparr>pnSessions := session_Delete v (pnSessions s)\<rparr>)
      in (s, writeJSON 200 (redirect_body (pcBasePath h @ ''login''))
               (clearCookie h r csrfCookie (clearCookie h r sessionCookie w))))"

subsection \<open>The API\<close>

definition int_json :: "int \<Rightarrow> json" where
  "int_json i = JNum (if i < 0 then CHR ''-'' # itoa (nat (- i)) else itoa (nat i))"

definition snapshot_json :: "snapshot \<Rightarrow> json" where
  "snapshot_json snap = JObj [(''proxyEnabled'', JBool (snProxyEnabled snap)), (''accessLog'', JBool (snAccessLog snap)),
     (''modules'', JObj (map (\<lambda>(k, v). (k, JBool v)) (sort_key fst (snModules snap))))]"

definition apiStatus :: "panel_config \<Rightarrow> panel_action" where
  "apiStatus h e r s w =
     (let (count, st) = session_Count (veNow e) (pnSessions s); s = s\<lparr>pnSessions := st\<rparr> in
      (s, writeJSON 200 (JObj
        [(''accessUsers'', int_json (int (length (access_List (pnAccess s))))), (''commit'', JStr (biCommit (pcBuild h))),
         (''go'', JStr (biGoVersion (pcBuild h))), (''sessions'', int_json (int count)),
         (''settings'', snapshot_json (Snapshot (pnSettings s))),
         (''uptimeSeconds'', int_json ((veNow e - pcStartedAt h) div 10 ^ 9)), (''version'', JStr (biVersion (pcBuild h)))]) w))"

definition apiGetSettings :: "panel_action" where
  "apiGetSettings e r s w = (s, writeJSON 200 (snapshot_json (Snapshot (pnSettings s))) w)"

text \<open>\<open>strconv.Quote\<close>, with \<open>printable\<close> for \<open>unicode.IsPrint\<close> beyond ASCII; the text of \<open>Validate\<close>'s error.\<close>

fun hex_digits :: "nat \<Rightarrow> nat \<Rightarrow> string" where
  "hex_digits 0 n = []"
| "hex_digits (Suc k) n = hex_digits k (n div 16) @ [digit_char (n mod 16)]"

definition quote_rune :: "(nat \<Rightarrow> bool) \<Rightarrow> char \<Rightarrow> nat \<Rightarrow> nat \<Rightarrow> string \<Rightarrow> string" where
  "quote_rune printable a r n raw0 =
     (if r = 0xFFFD \<and> n = 1 then backslash # ''x'' @ hex_digits 2 (byte a)
      else if r = 34 \<or> r = 92 then [backslash, a]
      else if (if r < 0x80 then 32 \<le> r \<and> r < 127 else printable r) then raw0
      else if r = 7 then backslash # ''a'' else if r = 8 then backslash # ''b'' else if r = 12 then backslash # ''f''
      else if r = 10 then backslash # ''n'' else if r = 13 then backslash # ''r'' else if r = 9 then backslash # ''t''
      else if r = 11 then backslash # ''v''
      else if r < 32 \<or> r = 127 then backslash # ''x'' @ hex_digits 2 r
      else if r < 0x10000 then backslash # ''u'' @ hex_digits 4 r
      else backslash # ''U'' @ hex_digits 8 r)"

function quote_runes :: "(nat \<Rightarrow> bool) \<Rightarrow> string \<Rightarrow> string" where
  "quote_runes printable [] = []"
| "quote_runes printable (a # s) =
     (let (r, n) = decode_rune a s
      in quote_rune printable a r n (take n (a # s)) @ quote_runes printable (drop n (a # s)))"
  by pat_completeness auto
termination
proof (relation "measure (length \<circ> snd)", goal_cases)
  case (2 printable a s x r n)
  then have "0 < n" using decode_rune_pos [of a s] by (metis snd_conv)
  then show ?case by simp
qed simp

declare quote_runes.simps(2) [simp del]

definition unknown_module :: "(nat \<Rightarrow> bool) \<Rightarrow> string \<Rightarrow> string" where
  "unknown_module printable name = ''unknown module '' @ [quote_char] @ quote_runes printable name @ [quote_char]"

definition settings_fields :: "(string \<times> snapshot setter) list" where
  "settings_fields = [(''proxyEnabled'', field snProxyEnabled_update snProxyEnabled set_bool),
     (''accessLog'', field snAccessLog_update snAccessLog set_bool), (''modules'', field snModules_update snModules set_bool_map)]"

definition apiPutSettings :: "panel_config \<Rightarrow> panel_action" where
  "apiPutSettings h e r s w =
     (let (snap, decoded) = json_Decode settings_fields True (take maxBodyBytes (rBody r))
            \<lparr>snProxyEnabled = False, snAccessLog = False, snModules = []\<rparr> in
      if \<not> decoded then (s, writeJSON 400 (errBody ''invalid request'') w)
      else case Validate snap of
          Some name \<Rightarrow> (s, writeJSON 400 (errBody (unknown_module (pcPrintable h) name)) w)
        | None \<Rightarrow>
            let (set, d) = settings_step (veWriteOk e) (veRenameOk e) (OApply snap) (pnSettings s, pnDisk s);
                s = add_log (SettingsUpdated (snProxyEnabled snap) (snAccessLog snap)) (s\<lparr>pnSettings := set, pnDisk := d\<rparr>)
            in (s, writeJSON 200 (snapshot_json (Snapshot (pnSettings s))) w))"

text \<open>The link the app is configured with; the keys of the payload are in order.\<close>

definition link_payload :: "panel_config \<Rightarrow> accessUser \<Rightarrow> (string \<times> string) list" where
  "link_payload h u = [(''label'', auLabel u), (''token'', auToken u), (''url'', pcPublicURL h)]"

definition connectionLink :: "panel_config \<Rightarrow> accessUser \<Rightarrow> string" where
  "connectionLink h u = ''bumshi://connect#'' @ url_encode (json_text (json_object (link_payload h u)))"

record user_view =
  uvID :: string
  uvLabel :: string
  uvCreated :: int
  uvExpires :: "int option"
  uvLink :: string
  uvExpired :: bool

definition newUserView :: "int \<Rightarrow> accessUser \<Rightarrow> string \<Rightarrow> user_view" where
  "newUserView now u link =
     \<lparr>uvID = auID u, uvLabel = auLabel u, uvCreated = auCreated u, uvExpires = auExpires u, uvLink = link,
      uvExpired = Expired now u\<rparr>"

definition view_json :: "panel_config \<Rightarrow> user_view \<Rightarrow> json" where
  "view_json h v = JObj ([(''id'', JStr (uvID v)), (''label'', JStr (uvLabel v)), (''created'', JStr (pcTime h (uvCreated v)))] @
     (case uvExpires v of None \<Rightarrow> [] | Some t \<Rightarrow> [(''expires'', JStr (pcTime h t))]) @
     [(''link'', JStr (uvLink v)), (''expired'', JBool (uvExpired v))])"

definition apiListUsers :: "panel_config \<Rightarrow> panel_action" where
  "apiListUsers h e r s w =
     (s, writeJSON 200 (JArr (map (\<lambda>u. view_json h (newUserView (veNow e) u (connectionLink h u))) (access_List (pnAccess s)))) w)"

record new_user =
  nuLabel :: string
  nuExpiresDays :: int

definition create_fields :: "(string \<times> new_user setter) list" where
  "create_fields = [(''label'', field nuLabel_update nuLabel set_string),
     (''expiresDays'', field nuExpiresDays_update nuExpiresDays set_int)]"

definition user_label :: "string \<Rightarrow> string" where
  "user_label raw0 = (let label = trim_space raw0; label = (if label = [] then ''user'' else label) in take 64 label)"

definition apiCreateUser :: "panel_config \<Rightarrow> panel_action" where
  "apiCreateUser h e r s w =
     (let (body, _) = json_Decode create_fields False (take maxBodyBytes (rBody r)) \<lparr>nuLabel = [], nuExpiresDays = 0\<rparr>;
          days = nuExpiresDays body
      in if days < 0 \<or> 3650 < days then (s, writeJSON 400 (errBody ''expiresDays must be between 0 and 3650'') w)
         else
           let expires = (if 0 < days then Some (veNow e + days * (24 * 3600 * 10 ^ 9)) else None);
               ((u, err), store, d) = access_Create (veWriteOk e) (veRenameOk e) (veNow e) (veRand1 e) (veRand2 e)
                 (user_label (nuLabel body)) expires (pnAccess s, pnDisk s);
               s = s\<lparr>pnAccess := store, pnDisk := d\<rparr>
           in if err \<noteq> None \<and> auToken u = [] then (s, writeJSON 500 (errBody ''internal error'') w)
              else ((if err \<noteq> None then add_log CreateNotPersisted s else s),
                    writeJSON 200 (view_json h (newUserView (veNow e) u (connectionLink h u))) w))"

record user_ref =
  urID :: string

definition delete_fields :: "(string \<times> user_ref setter) list" where
  "delete_fields = [(''id'', field urID_update urID set_string)]"

definition apiDeleteUser :: "panel_action" where
  "apiDeleteUser e r s w =
     (let (body, decoded) = json_Decode delete_fields False (take maxBodyBytes (rBody r)) \<lparr>urID = []\<rparr> in
      if \<not> decoded \<or> urID body = [] then (s, writeJSON 400 (errBody ''invalid request'') w)
      else
        let (err, store, d) = access_Delete (veWriteOk e) (veRenameOk e) (urID body) (pnAccess s, pnDisk s);
            s = s\<lparr>pnAccess := store, pnDisk := d\<rparr>
        in ((if err \<noteq> None then add_log DeleteNotPersisted s else s), writeJSON 200 (JObj [(''ok'', JBool True)]) w))"

subsection \<open>The routes\<close>

datatype panel_route = RApp | RLoginPage | RLogin | RLogout | RAsset | RStatus | RGetSettings | RPutSettings
  | RListUsers | RCreateUser | RDeleteUser

definition panel_patterns :: "string \<Rightarrow> (string \<times> panel_route) list" where
  "panel_patterns b =
     [(''GET '' @ b @ ''{$}'', RApp), (''GET '' @ b @ ''login'', RLoginPage), (''POST '' @ b @ ''login'', RLogin),
      (''POST '' @ b @ ''logout'', RLogout), (''GET '' @ b @ ''assets/{file}'', RAsset),
      (''GET '' @ b @ ''api/status'', RStatus), (''GET '' @ b @ ''api/settings'', RGetSettings),
      (''POST '' @ b @ ''api/settings'', RPutSettings), (''GET '' @ b @ ''api/access-users'', RListUsers),
      (''POST '' @ b @ ''api/access-users'', RCreateUser), (''POST '' @ b @ ''api/access-users/delete'', RDeleteUser)]"

text \<open>\<open>admin.New\<close>: the routes, or \<open>None\<close> when a pattern made from the base path is invalid and panics.\<close>

definition admin_New :: "panel_config \<Rightarrow> panel_route route list option" where
  "admin_New h = register_all (panel_patterns (pcBasePath h))"

fun panel_run :: "panel_config \<Rightarrow> panel_route \<Rightarrow> (string \<times> string) list \<Rightarrow> panel_action" where
  "panel_run h RApp bound = serveApp h"
| "panel_run h RLoginPage bound = serveLogin h"
| "panel_run h RLogin bound = handleLogin h"
| "panel_run h RLogout bound = authCSRF (handleLogout h)"
| "panel_run h RAsset bound = serveAsset h (path_value bound ''file'')"
| "panel_run h RStatus bound = auth (apiStatus h)"
| "panel_run h RGetSettings bound = auth apiGetSettings"
| "panel_run h RPutSettings bound = authCSRF (apiPutSettings h)"
| "panel_run h RListUsers bound = auth (apiListUsers h)"
| "panel_run h RCreateUser bound = authCSRF (apiCreateUser h)"
| "panel_run h RDeleteUser bound = authCSRF apiDeleteUser"

definition panel_ServeHTTP :: "panel_config \<Rightarrow> panel_route route list \<Rightarrow> panel_action" where
  "panel_ServeHTTP h routes e r s w =
     (case mux_find routes r of
        MuxHandler route bound \<Rightarrow> panel_run h route bound e r s w
      | m \<Rightarrow> (s, mux_answer m r w))"

end
