(* ===== verification/Admin_Panel.thy ===== *)
theory Admin_Panel
  imports Admin
begin

section \<open>What the panel guarantees\<close>

text \<open>
  Theorems on whole requests: what a stranger can see and change, that a change takes a session and
  its CSRF token, how often a password can be tried, and that a connection link says what it should.
\<close>

subsection \<open>Answers\<close>

named_theorems panel_frames "what the steps of a handler leave alone"

lemma writeJSON_status [simp]: "wSent w = None \<Longrightarrow> wStatus (writeJSON code v w) = Some code"
  by (simp add: writeJSON_def wStatus_def)

lemma wSent_SetCookie [simp]: "wSent (http_SetCookie ss c w) = wSent w"
  by (simp add: http_SetCookie_def Let_def)

lemma wSent_cookies [simp]: "wSent (setCookie h r n v http_only w) = wSent w" "wSent (clearCookie h r n w) = wSent w"
  by (simp_all add: setCookie_def clearCookie_def)

subsection \<open>What is guarded\<close>

text \<open>The live switches and the roster, in memory and on disk.\<close>

definition guarded :: "panel \<Rightarrow> settings \<times> accessStore \<times> disk" where
  "guarded s = (pnSettings s, pnAccess s, pnDisk s)"

lemma guarded_updates [panel_frames]:
  "guarded (s\<lparr>pnSessions := x\<rparr>) = guarded s" "guarded (s\<lparr>pnLogins := y\<rparr>) = guarded s" "guarded (add_log l s) = guarded s"
  by (simp_all add: guarded_def add_log_def)

lemma currentSession_frame [panel_frames]:
  "guarded (snd (currentSession e r s)) = guarded s" "pnLogins (snd (currentSession e r s)) = pnLogins s"
  by (simp_all add: currentSession_def guarded_def split: option.split prod.split)

lemma auth_cases:
  "fst (currentSession e r s) = None \<Longrightarrow> auth next e r s w = (snd (currentSession e r s), writeJSON 401 (errBody ''unauthorized'') w)"
  "fst (currentSession e r s) = Some sess \<Longrightarrow> auth next e r s w = next e r (snd (currentSession e r s)) w"
  by (simp_all add: auth_def split_def)

lemma authCSRF_cases:
  "fst (currentSession e r s) = None \<Longrightarrow> authCSRF next e r s w = (snd (currentSession e r s), writeJSON 401 (errBody ''unauthorized'') w)"
  "fst (currentSession e r s) = Some sess \<Longrightarrow> authCSRF next e r s w =
    (if Get (rHeader r) csrfHeader = seCSRF sess then next e r (snd (currentSession e r s)) w
     else (snd (currentSession e r s), writeJSON 403 (errBody ''invalid CSRF token'') w))"
  by (simp_all add: authCSRF_def split_def ConstantTimeCompare_eq)

lemmas session_cases = auth_cases authCSRF_cases

text \<open>The frames of the handlers behind the wrappers.\<close>

lemma guarded_reads [panel_frames]:
  "guarded (fst (serveApp h e r s w)) = guarded s" "guarded (fst (serveLogin h e r s w)) = guarded s"
  "guarded (fst (serveAsset h f e r s w)) = guarded s" "guarded (fst (apiStatus h e r s w)) = guarded s"
  "guarded (fst (apiGetSettings e r s w)) = guarded s" "guarded (fst (apiListUsers h e r s w)) = guarded s"
  by (simp_all add: serveApp_def serveLogin_def serveAsset_def apiStatus_def apiGetSettings_def apiListUsers_def split_def
      Let_def panel_frames split: option.split)

lemma guarded_logins [panel_frames]:
  "guarded (fst (handleLogin h e r s w)) = guarded s" "guarded (fst (handleLogout h e r s w)) = guarded s"
  by (auto simp: handleLogin_def handleLogout_def Let_def panel_frames guarded_def add_log_def split: prod.split option.split sum.split)

lemma guarded_auth:
  "guarded (fst (auth next e r s w)) = guarded s" if "\<And>s. guarded (fst (next e r s w)) = guarded s"
  using that by (cases "fst (currentSession e r s)") (simp_all add: session_cases panel_frames)

text \<open>Which requests may change what is guarded.\<close>

definition changing :: "panel_route \<Rightarrow> bool" where
  "changing rt \<longleftrightarrow> rt = RPutSettings \<or> rt = RCreateUser \<or> rt = RDeleteUser"

lemma panel_run_guarded:
  assumes "guarded (fst (panel_run h rt bound e r s w)) \<noteq> guarded s"
  obtains sess where "changing rt" "fst (currentSession e r s) = Some sess" "Get (rHeader r) csrfHeader = seCSRF sess"
proof -
  have csrf: "\<exists>sess. fst (currentSession e r s) = Some sess \<and> Get (rHeader r) csrfHeader = seCSRF sess"
    if "guarded (fst (authCSRF next e r s w)) \<noteq> guarded s" for "next"
    using that by (cases "fst (currentSession e r s)") (auto simp: session_cases panel_frames split: if_splits)
  have logout: "guarded (fst (authCSRF (handleLogout h) e r s w)) = guarded s"
    by (cases "fst (currentSession e r s)") (simp_all add: session_cases panel_frames)
  show ?thesis
    using assms that csrf logout by (cases rt) (auto simp: changing_def panel_frames guarded_auth)
qed

lemma changing_post:
  "admin_New h = Some routes \<Longrightarrow> mux_find routes r = MuxHandler rt bound \<Longrightarrow> changing rt \<Longrightarrow> rMethod r = ''POST''"
proof -
  assume *: "admin_New h = Some routes" "mux_find routes r = MuxHandler rt bound" "changing rt"
  from mux_find_from [OF *(2)] obtain verb segs where v: "(verb, segs, rt) \<in> set routes"
    "verb = rMethod r \<or> verb = ''GET'' \<and> rMethod r = ''HEAD'' \<or> verb = []" by blast
  from register_all_from [OF *(1) [unfolded admin_New_def] v(1)] obtain pat where
    pat: "(pat, rt) \<in> set (panel_patterns (pcBasePath h))" "parse_pattern pat = Some (verb, segs)" by blast
  then obtain path where "pat = ''POST'' @ CHR '' '' # path"
    using *(3) by (auto simp: panel_patterns_def changing_def)
  with pat(2) have "verb = ''POST''" using parse_pattern_verb [of "''POST''" path] by simp
  with v(2) show ?thesis by auto
qed

text \<open>
  C3.  Whatever request changes a live switch or the roster, in memory or on disk, is a \<open>POST\<close> that
  carries the cookie of a session that is live at that moment and repeats the session's own CSRF token
  in its header.
\<close>

theorem changes_need_session:
  assumes "admin_New h = Some routes" "guarded (fst (panel_ServeHTTP h routes e r s w)) \<noteq> guarded s"
  shows "\<exists>tok sess. request_Cookie r ''bumshi_admin_session'' = Some tok \<and>
    fst (session_Get (veGate e) tok (pnSessions s)) = Some sess \<and>
    Get (rHeader r) ''X-CSRF-Token'' = seCSRF sess \<and> rMethod r = ''POST''"
proof -
  obtain rt bound where found: "mux_find routes r = MuxHandler rt bound"
    using assms(2) by (cases "mux_find routes r") (simp_all add: panel_ServeHTTP_def)
  with assms(2) have "guarded (fst (panel_run h rt bound e r s w)) \<noteq> guarded s" by (simp add: panel_ServeHTTP_def)
  then obtain sess where sess: "changing rt" "fst (currentSession e r s) = Some sess" "Get (rHeader r) csrfHeader = seCSRF sess"
    by (rule panel_run_guarded)
  from sess(2) obtain tok where "request_Cookie r sessionCookie = Some tok" "fst (session_Get (veGate e) tok (pnSessions s)) = Some sess"
    by (auto simp: currentSession_def split: option.splits prod.splits)
  with sess(3) changing_post [OF assms(1) found sess(1)] show ?thesis by (auto simp: sessionCookie_def csrfHeader_def)
qed

subsection \<open>Strangers\<close>

definition is_login :: "panel_route route list \<Rightarrow> request \<Rightarrow> bool" where
  "is_login routes r = (case mux_find routes r of MuxHandler rt _ \<Rightarrow> rt = RLogin | _ \<Rightarrow> False)"

lemma stranger_run:
  assumes "fst (currentSession e r s) = None" "fst (currentSession e r s') = None" "rt \<noteq> RLogin"
  shows "snd (panel_run h rt bound e r s w) = snd (panel_run h rt bound e r s' w)"
    "fst (panel_run h rt bound e r s w) = s \<or> fst (panel_run h rt bound e r s w) = snd (currentSession e r s)"
  using assms by (cases rt; simp add: session_cases serveApp_def serveLogin_def serveAsset_def split_def)+

text \<open>
  C12.  Without a live session, and short of a login attempt, the panel gives nothing away: whatever
  it holds, the answer to a request is the same.  Nor does the request do anything to it, except that
  an expired session of its cookie is dropped.
\<close>

theorem stranger_learns_nothing:
  assumes "fst (currentSession e r s) = None" "fst (currentSession e r s') = None" "\<not> is_login routes r"
  shows "snd (panel_ServeHTTP h routes e r s w) = snd (panel_ServeHTTP h routes e r s' w) \<and>
    (fst (panel_ServeHTTP h routes e r s w) = s \<or> fst (panel_ServeHTTP h routes e r s w) = snd (currentSession e r s))"
  using assms(3) stranger_run [OF assms(1,2)]
  by (auto simp: panel_ServeHTTP_def is_login_def split: mux_result.splits)

subsection \<open>Guessing the password\<close>

lemma login_step:
  "pnLogins (fst (handleLogin h e r s fresh_writer)) =
     after_allow Reset (clientIP r (pcTrustedProxy h)) (wStatus (snd (handleLogin h e r s fresh_writer)) = Some 200)
       (Allow (veGate e) (clientIP r (pcTrustedProxy h)) (pnLogins s))"
  "wStatus (snd (handleLogin h e r s fresh_writer)) \<noteq> Some 429 \<longleftrightarrow>
     fst (Allow (veGate e) (clientIP r (pcTrustedProxy h)) (pnLogins s))"
  by (simp_all add: handleLogin_def Let_def add_log_def fresh_writer_def split: prod.split option.split sum.split)

lemma other_step: "rt \<noteq> RLogin \<Longrightarrow> pnLogins (fst (panel_run h rt bound e r s w)) = pnLogins s"
proof -
  have wrap: "pnLogins (fst (auth next e r s w)) = pnLogins s" "pnLogins (fst (authCSRF next e r s w)) = pnLogins s"
    if "\<And>s. pnLogins (fst (next e r s w)) = pnLogins s" for "next"
    using that by (cases "fst (currentSession e r s)"; simp add: session_cases panel_frames)+
  have inner: "pnLogins (fst (handleLogout h e r s w)) = pnLogins s" "pnLogins (fst (apiStatus h e r s w)) = pnLogins s"
    "pnLogins (fst (apiGetSettings e r s w)) = pnLogins s" "pnLogins (fst (apiPutSettings h e r s w)) = pnLogins s"
    "pnLogins (fst (apiListUsers h e r s w)) = pnLogins s" "pnLogins (fst (apiCreateUser h e r s w)) = pnLogins s"
    "pnLogins (fst (apiDeleteUser e r s w)) = pnLogins s" for s
    by (auto simp: handleLogout_def apiStatus_def apiGetSettings_def apiPutSettings_def apiListUsers_def apiCreateUser_def
        apiDeleteUser_def Let_def add_log_def split: prod.split option.split)
  assume "rt \<noteq> RLogin"
  then show ?thesis
    by (cases rt) (simp_all add: wrap inner serveApp_def serveLogin_def serveAsset_def split_def Let_def panel_frames split: option.split)
qed

text \<open>A run of requests: each with its response.\<close>

fun panel_trace :: "panel_config \<Rightarrow> panel_route route list \<Rightarrow> panel \<Rightarrow> (panel_env \<times> request) list
    \<Rightarrow> (panel_env \<times> request \<times> writer) list" where
  "panel_trace h routes s [] = []"
| "panel_trace h routes s ((e, r) # rs) =
     (let (s', w) = panel_ServeHTTP h routes e r s fresh_writer in (e, r, w) # panel_trace h routes s' rs)"

definition attempts :: "panel_config \<Rightarrow> panel_route route list \<Rightarrow> (panel_env \<times> request \<times> writer) list \<Rightarrow> attempt list" where
  "attempts h routes tr =
     map (\<lambda>(e, r, w). (veGate e, clientIP r (pcTrustedProxy h), wStatus w = Some 200)) (filter (\<lambda>(e, r, w). is_login routes r) tr)"

lemma panel_step_logins:
  assumes "panel_ServeHTTP h routes e r s fresh_writer = (s', w)"
  shows "pnLogins s' = (if is_login routes r
      then after_allow Reset (clientIP r (pcTrustedProxy h)) (wStatus w = Some 200) (Allow (veGate e) (clientIP r (pcTrustedProxy h)) (pnLogins s))
      else pnLogins s)"
    "is_login routes r \<Longrightarrow> wStatus w \<noteq> Some 429 \<longleftrightarrow> fst (Allow (veGate e) (clientIP r (pcTrustedProxy h)) (pnLogins s))"
proof -
  have *: "handleLogin h e r s fresh_writer = (s', w)" if "is_login routes r"
    using that assms by (auto simp: is_login_def panel_ServeHTTP_def split: mux_result.splits)
  show "is_login routes r \<Longrightarrow> wStatus w \<noteq> Some 429 \<longleftrightarrow> fst (Allow (veGate e) (clientIP r (pcTrustedProxy h)) (pnLogins s))"
    using login_step(2) [of h e r s] * by simp
  show "pnLogins s' = (if is_login routes r
      then after_allow Reset (clientIP r (pcTrustedProxy h)) (wStatus w = Some 200) (Allow (veGate e) (clientIP r (pcTrustedProxy h)) (pnLogins s))
      else pnLogins s)"
  proof (cases "is_login routes r")
    case True
    then show ?thesis using login_step(1) [of h e r s] * by simp
  next
    case False
    have "pnLogins (fst (panel_ServeHTTP h routes e r s fresh_writer)) = pnLogins s"
      using False other_step by (auto simp: is_login_def panel_ServeHTTP_def split: mux_result.split)
    with False assms show ?thesis by simp
  qed
qed

lemma trace_outcomes:
  "map (\<lambda>(e, r, w). (veGate e, clientIP r (pcTrustedProxy h), wStatus w \<noteq> Some 429))
     (filter (\<lambda>(e, r, w). is_login routes r) (panel_trace h routes s rs)) =
   outcomes Allow Reset (pnLogins s) (attempts h routes (panel_trace h routes s rs))"
proof (induction rs arbitrary: s)
  case (Cons er rs)
  obtain e r where er: "er = (e, r)" by (cases er)
  obtain s' w where step: "panel_ServeHTTP h routes e r s fresh_writer = (s', w)" by fastforce
  show ?case
    using Cons.IH [of s'] panel_step_logins [OF step] by (simp add: er step attempts_def)
qed (simp add: attempts_def)

lemma trace_times: "map (\<lambda>(e, r, w). veGate e) (panel_trace h routes s rs) = map (veGate \<circ> fst) rs"
  by (induction rs arbitrary: s) (auto split: prod.split)

lemma sorted_attempts: "sorted (map (veGate \<circ> fst) rs) \<Longrightarrow> sorted (times (attempts h routes (panel_trace h routes s rs)))"
proof -
  let ?tr = "panel_trace h routes s rs" let ?f = "\<lambda>(e :: panel_env, r :: request, w :: writer). veGate e"
  assume "sorted (map (veGate \<circ> fst) rs)"
  then have "sorted (map ?f ?tr)" by (simp only: trace_times)
  then have "sorted (map ?f (filter (\<lambda>(e, r, w). is_login routes r) ?tr))" by (rule sorted_filter)
  then show ?thesis by (simp add: attempts_def comp_def split_def)
qed

text \<open>The tries of a client: its login requests in a stretch of time that were not turned away with 429.\<close>

definition tries :: "panel_config \<Rightarrow> panel_route route list \<Rightarrow> string \<Rightarrow> int \<Rightarrow> int \<Rightarrow> (panel_env \<times> request \<times> writer) list \<Rightarrow> nat" where
  "tries h routes ip t T tr =
     length (filter (\<lambda>(e, r, w). is_login routes r \<and> clientIP r (pcTrustedProxy h) = ip \<and> wStatus w \<noteq> Some 429 \<and>
       t \<le> veGate e \<and> veGate e \<le> T) tr)"

definition never_in :: "panel_config \<Rightarrow> panel_route route list \<Rightarrow> string \<Rightarrow> (panel_env \<times> request \<times> writer) list \<Rightarrow> bool" where
  "never_in h routes ip tr \<longleftrightarrow>
     list_all (\<lambda>(e, r, w). \<not> (is_login routes r \<and> clientIP r (pcTrustedProxy h) = ip \<and> wStatus w = Some 200)) tr"

lemma tries_accepted:
  "tries h routes ip t T tr = accepted ip t T
     (map (\<lambda>(e, r, w). (veGate e, clientIP r (pcTrustedProxy h), wStatus w \<noteq> Some 429)) (filter (\<lambda>(e, r, w). is_login routes r) tr))"
  unfolding tries_def by (induction tr) (auto split: if_splits)

lemma never_in_failing: "never_in h routes ip tr \<Longrightarrow> failing ip (attempts h routes tr)"
  unfolding never_in_def attempts_def failing_def by (induction tr) auto

text \<open>
  C11.  Through any run of requests to a panel as it starts, of whatever kinds and from whomever, a
  client that does not log in gets at most twice the limit of tries at the password in any stretch of
  time no longer than the limiter's window.
\<close>

theorem tries_bounded:
  assumes "pnLogins s = NewRateLimiter limit window" "sorted (map (veGate \<circ> fst) rs)" "T \<le> t + window"
    "never_in h routes ip (panel_trace h routes s rs)"
  shows "tries h routes ip t T (panel_trace h routes s rs) \<le> 2 * nat (max 1 limit)"
proof -
  have "accepted ip t T (outcomes Allow Reset (pnLogins s) (attempts h routes (panel_trace h routes s rs)))
      \<le> 2 * nat (max 1 (lLimit (pnLogins s)))"
    by (rule rate.accepted_bound)
      (use assms sorted_attempts never_in_failing in \<open>auto simp: NewRateLimiter_def limiter_view_def\<close>)
  then show ?thesis by (simp add: tries_accepted trace_outcomes assms(1) NewRateLimiter_def)
qed

subsection \<open>Connection links\<close>

text \<open>
  C18.  The link given out for a user starts with the app's scheme, and what follows decodes to an
  object of exactly the label, the token and the public URL, whatever characters they hold, provided
  that all three are valid UTF-8.
\<close>

theorem connection_link_roundtrip:
  assumes "valid_utf8 (auLabel u)" "valid_utf8 (auToken u)" "valid_utf8 (pcPublicURL h)"
  shows "has_prefix (connectionLink h u) ''bumshi://connect#'' \<and>
    Option.bind (url_decode (drop 17 (connectionLink h u))) json_parse =
      Some (JObj [(''label'', JStr (auLabel u)), (''token'', JStr (auToken u)), (''url'', JStr (pcPublicURL h))])"
proof -
  have names: "valid_utf8 ''label''" "valid_utf8 ''token''" "valid_utf8 ''url''" by code_simp+
  have ok: "list_all (\<lambda>(k, v). valid_utf8 k \<and> valid_utf8 v) (link_payload h u)"
    using assms names by (simp add: link_payload_def)
  have "drop 17 (connectionLink h u) = url_encode (json_text (json_object (link_payload h u)))"
    by (simp add: connectionLink_def)
  then show ?thesis
    using json_parse_object [OF ok, of "[]"]
    by (simp add: connectionLink_def url64.dec_enc json_object_def link_payload_def)
qed

subsection \<open>Examples\<close>

definition sample_panel_config :: panel_config where
  "sample_panel_config = \<lparr>pcBasePath = ''/admin/'', pcUsername = ''admin'', pcPasswordHash = ''bad'', pcPublicURL = ''https://proxy.test'',
     pcStartedAt = 0, pcTrustedProxy = None, pcHmac = (\<lambda>_ _. []), pcTime = (\<lambda>_. ''2026-01-01T00:00:00Z''), pcPrintable = (\<lambda>_. True),
     pcAsset = (\<lambda>_. None), pcBuild = version_Get (\<lambda>_. None) (''go1.25'', ''linux'', ''amd64'')\<rparr>"

definition sample_panel :: panel where
  "sample_panel = \<lparr>pnSettings = settings_New True False,
     pnSessions = \<lparr>ssByToken = [(''t0'', \<lparr>seUser = ''admin'', seCSRF = ''c0'', seExpiry = 100\<rparr>)], ssTtl = AdminSessionTTL\<rparr>,
     pnLogins = NewRateLimiter 10 60, pnAccess = \<lparr>asUsers = [], asPath = []\<rparr>, pnDisk = [], pnLog = []\<rparr>"

definition sample_panel_env :: "int \<Rightarrow> panel_env" where
  "sample_panel_env now = \<lparr>veGate = now, veNow = now, veRand1 = None, veRand2 = None, veWriteOk = True, veRenameOk = True\<rparr>"

definition panel_post :: "string \<Rightarrow> header \<Rightarrow> bytes \<Rightarrow> request" where
  "panel_post path hdr body = \<lparr>rMethod = ''POST'', rURL = empty_url\<lparr>Path := path\<rparr>, rHost = ''localhost:8081'', rHeader = hdr,
     rRemoteAddr = ''203.0.113.9:5000'', rTLS = False, rContentLength = 0, rBody = body\<rparr>"

definition switch_off :: request where
  "switch_off = panel_post ''/admin/api/settings''
     [(''Cookie'', [''bumshi_admin_session=t0'']), (''X-Csrf-Token'', [''c0''])]
     (json_text (JObj [(''proxyEnabled'', JBool False)]))"

definition sample_routes :: "panel_route route list" where
  "sample_routes = the (admin_New sample_panel_config)"

lemma sample_routes: "admin_New sample_panel_config = Some sample_routes" by code_simp

theorem changes_need_session_witness:
  "\<exists>tok sess. request_Cookie switch_off ''bumshi_admin_session'' = Some tok \<and>
    fst (session_Get 5 tok (pnSessions sample_panel)) = Some sess \<and>
    Get (rHeader switch_off) ''X-CSRF-Token'' = seCSRF sess \<and> rMethod switch_off = ''POST''"
proof -
  have "guarded (fst (panel_ServeHTTP sample_panel_config sample_routes (sample_panel_env 5) switch_off sample_panel fresh_writer)) \<noteq> guarded sample_panel"
    by code_simp
  from changes_need_session [OF sample_routes this] show ?thesis by (simp add: sample_panel_env_def)
qed

theorem stranger_learns_nothing_witness:
  "snd (panel_ServeHTTP sample_panel_config sample_routes (sample_panel_env 500) switch_off sample_panel fresh_writer) =
   snd (panel_ServeHTTP sample_panel_config sample_routes (sample_panel_env 500) switch_off
     (sample_panel\<lparr>pnSettings := settings_New False True\<rparr>) fresh_writer)"
proof -
  have "fst (currentSession (sample_panel_env 500) switch_off sample_panel) = None"
    "fst (currentSession (sample_panel_env 500) switch_off (sample_panel\<lparr>pnSettings := settings_New False True\<rparr>)) = None"
    "\<not> is_login sample_routes switch_off" by code_simp+
  from stranger_learns_nothing [OF this] show ?thesis by blast
qed

definition sample_guess :: "int \<Rightarrow> panel_env \<times> request" where
  "sample_guess t = (sample_panel_env t, panel_post ''/admin/login'' [] (json_text (JObj [(''username'', JStr ''admin'')])))"

theorem tries_bounded_witness:
  "tries sample_panel_config sample_routes ''203.0.113.9'' 0 60
     (panel_trace sample_panel_config sample_routes sample_panel (map sample_guess [1, 2, 3])) \<le> 20"
proof -
  have "pnLogins sample_panel = NewRateLimiter 10 60" by (simp add: sample_panel_def)
  moreover have "sorted (map (veGate \<circ> fst) (map sample_guess [1, 2, 3]))" by (simp add: sample_guess_def sample_panel_env_def)
  moreover have "never_in sample_panel_config sample_routes ''203.0.113.9''
      (panel_trace sample_panel_config sample_routes sample_panel (map sample_guess [1, 2, 3]))" by code_simp
  ultimately show ?thesis using tries_bounded [where limit = 10 and window = 60 and t = 0 and T = 60] by fastforce
qed

definition sample_user :: accessUser where
  "sample_user = \<lparr>auID = ''01'', auLabel = ''phone <1>'', auToken = ''beef'', auCreated = 0, auExpires = None\<rparr>"

theorem connection_link_roundtrip_witness:
  "Option.bind (url_decode (drop 17 (connectionLink sample_panel_config sample_user))) json_parse =
     Some (JObj [(''label'', JStr ''phone <1>''), (''token'', JStr ''beef''), (''url'', JStr ''https://proxy.test'')])"
proof -
  have "valid_utf8 (auLabel sample_user)" "valid_utf8 (auToken sample_user)" "valid_utf8 (pcPublicURL sample_panel_config)"
    by code_simp+
  from connection_link_roundtrip [OF this] show ?thesis by (simp add: sample_user_def sample_panel_config_def)
qed

subsection \<open>Limits\<close>

text \<open>
  A request to create a user whose number of days is of the wrong type, or that does not parse at all,
  creates one whose access never ends.
\<close>

theorem malformed_create_never_expires:
  "json_Decode create_fields False (json_text (JObj [(''label'', JStr ''x''), (''expiresDays'', JStr ''30'')])) \<lparr>nuLabel = [], nuExpiresDays = 0\<rparr> =
     (\<lparr>nuLabel = ''x'', nuExpiresDays = 0\<rparr>, False)"
  "json_Decode create_fields False ''expiresDays=30'' \<lparr>nuLabel = [], nuExpiresDays = 0\<rparr> = (\<lparr>nuLabel = [], nuExpiresDays = 0\<rparr>, False)"
  by code_simp+

text \<open>The cut of a long label to 64 bytes can fall inside a character.\<close>

theorem label_cut_in_character: "\<not> valid_utf8 (user_label (replicate 63 CHR ''a'' @ utf8 0xE9))"
  by code_simp

text \<open>Base paths that the configuration accepts and that no route can be registered under.\<close>

theorem admin_path_panics:
  "admin_New (sample_panel_config\<lparr>pcBasePath := ''//admin//''\<rparr>) = None"
  "admin_New (sample_panel_config\<lparr>pcBasePath := ''/{a}/{a}/''\<rparr>) = None"
  by code_simp+

end
