(* ===== verification/Config.thy ===== *)
theory Config
  imports Go_URL "HOL-Library.State_Monad"
begin

section \<open>Configuration (internal/config/config.go) and log levels (internal/logging)\<close>

text \<open>
  \<open>Load\<close> reads the environment, given as a function \<open>env\<close> from names to values, collecting the
  values that do not parse in a state monad, and validates the result.  Durations are nanoseconds;
  \<open>time.ParseDuration\<close>, which scales decimal fractions in floating point, is the parameter \<open>dur\<close>.
\<close>

subsection \<open>Log levels\<close>

datatype log_level = LevelDebug | LevelInfo | LevelWarn | LevelError

fun level_value :: "log_level \<Rightarrow> int" where
  "level_value LevelDebug = - 4"
| "level_value LevelInfo = 0"
| "level_value LevelWarn = 4"
| "level_value LevelError = 8"

lemma level_value_inj: "level_value a = level_value b \<longleftrightarrow> a = b"
  by (cases a; cases b) simp_all

instantiation log_level :: linorder
begin

definition less_eq_log_level :: "log_level \<Rightarrow> log_level \<Rightarrow> bool" where
  "less_eq_log_level a b \<longleftrightarrow> level_value a \<le> level_value b"

definition less_log_level :: "log_level \<Rightarrow> log_level \<Rightarrow> bool" where
  "less_log_level a b \<longleftrightarrow> level_value a < level_value b"

instance
  by standard (auto simp: less_eq_log_level_def less_log_level_def level_value_inj [symmetric])

end

subsection \<open>The settings\<close>

definition envPrefix :: string where
  "envPrefix = ''BUMSHI_''"

definition second :: int where
  "second = 10 ^ 9"

record config =
  cfEnv :: string
  cfListenAddr :: string
  cfMetricsAddr :: string
  cfLogLevel :: log_level
  cfLogFormat :: string
  cfAccessLog :: bool
  cfReadTimeout :: int
  cfReadHeaderTimeout :: int
  cfWriteTimeout :: int
  cfIdleTimeout :: int
  cfShutdownTimeout :: int
  cfProxyEnabled :: bool
  cfProxyRewriteMaxBytes :: int
  cfProxyResponseHeaderTimeout :: int
  cfProxyForceIPv4 :: bool
  cfProxyRequireToken :: bool
  cfProxyAllowOpenRelay :: bool
  cfAdminEnabled :: bool
  cfAdminAddr :: string
  cfAdminPath :: string
  cfAdminUsername :: string
  cfAdminPasswordHash :: string
  cfPublicURL :: string
  cfAccessStorePath :: string
  cfLogUpstreamHost :: string

definition EnvDevelopment :: string where
  "EnvDevelopment = ''development''"

definition EnvProduction :: string where
  "EnvProduction = ''production''"

definition IsProduction :: "config \<Rightarrow> bool" where
  "IsProduction c \<longleftrightarrow> cfEnv c = EnvProduction"

text \<open>A parse error names the variable, its value and what was wanted.\<close>

record parse_error =
  peKey :: string
  peValue :: string
  peWant :: string

datatype config_error =
    InvalidValues "parse_error list"
  | BadLevel string
  | BadEnv string
  | EmptySetting string
  | SameAddr string string
  | BadLogFormat string
  | NegativeTimeout
  | NotPositive string
  | OpenRelay
  | PublicURLNotAbsolute string
  | PublicURLScheme string
  | PublicURLMissing
  | BadAdminPath

type_synonym env = "string \<Rightarrow> string option"

subsection \<open>Reading variables\<close>

definition getString :: "env \<Rightarrow> string \<Rightarrow> string \<Rightarrow> string" where
  "getString env key def =
     (case env (envPrefix @ key) of
        Some v \<Rightarrow> let tv = trim_space v in if tv \<noteq> [] then tv else def
      | None \<Rightarrow> def)"

definition getStringAllowEmpty :: "env \<Rightarrow> string \<Rightarrow> string \<Rightarrow> string" where
  "getStringAllowEmpty env key def = (case env (envPrefix @ key) of Some v \<Rightarrow> trim_space v | None \<Rightarrow> def)"

definition parse_error_add :: "string \<Rightarrow> string \<Rightarrow> string \<Rightarrow> (parse_error list, unit) state" where
  "parse_error_add key v want =
     State_Monad.update (\<lambda>errs. errs @ [\<lparr>peKey = envPrefix @ key, peValue = v, peWant = want\<rparr>])"

text \<open>\<open>getBool\<close>, \<open>getInt64\<close> and \<open>getDuration\<close> differ in the parser and the word for what they want.\<close>

definition get_parsed :: "(string \<Rightarrow> 'a option) \<Rightarrow> string \<Rightarrow> env \<Rightarrow> string \<Rightarrow> 'a \<Rightarrow> (parse_error list, 'a) state" where
  "get_parsed parse want env key def =
     (case env (envPrefix @ key) of
        None \<Rightarrow> State_Monad.return def
      | Some v \<Rightarrow>
          if trim_space v = [] then State_Monad.return def
          else case parse (trim_space v) of
              Some b \<Rightarrow> State_Monad.return b
            | None \<Rightarrow> do { parse_error_add key v want; State_Monad.return def })"

definition ParseBool :: "string \<Rightarrow> bool option" where
  "ParseBool s =
     (if List.member [''1'', ''t'', ''T'', ''true'', ''TRUE'', ''True''] s then Some True
      else if List.member [''0'', ''f'', ''F'', ''false'', ''FALSE'', ''False''] s then Some False
      else None)"

definition getBool :: "env \<Rightarrow> string \<Rightarrow> bool \<Rightarrow> (parse_error list, bool) state" where
  "getBool = get_parsed ParseBool ''boolean (true/false)''"

definition getInt64 :: "env \<Rightarrow> string \<Rightarrow> int \<Rightarrow> (parse_error list, int) state" where
  "getInt64 = get_parsed atoi ''integer''"

definition getDuration :: "(string \<Rightarrow> int option) \<Rightarrow> env \<Rightarrow> string \<Rightarrow> int \<Rightarrow> (parse_error list, int) state" where
  "getDuration dur = get_parsed dur ''duration (e.g. 30s, 2m)''"

definition parseLevel :: "string \<Rightarrow> config_error + log_level" where
  "parseLevel s =
     (let l = to_lower (trim_space s) in
      if l = ''debug'' then Inr LevelDebug
      else if l = ''info'' \<or> l = [] then Inr LevelInfo
      else if l = ''warn'' \<or> l = ''warning'' then Inr LevelWarn
      else if l = ''error'' then Inr LevelError
      else Inl (BadLevel s))"

definition normalizePath :: "string \<Rightarrow> string" where
  "normalizePath p0 =
     (let p1 = trim_space p0 in
      if p1 = [] then ''/admin/''
      else let p2 = (if has_prefix p1 ''/'' then p1 else ''/'' @ p1)
           in if has_suffix p2 ''/'' then p2 else p2 @ ''/'')"

subsection \<open>Validation\<close>

definition check :: "bool \<Rightarrow> config_error \<Rightarrow> config_error option \<Rightarrow> config_error option" where
  "check bad e rest = (if bad then Some e else rest)"

definition validate_proxy :: "config \<Rightarrow> config_error option" where
  "validate_proxy c =
     (if cfProxyEnabled c then
        check (cfProxyRewriteMaxBytes c \<le> 0) (NotPositive ''PROXY_REWRITE_MAX_BYTES'')
       (check (cfProxyResponseHeaderTimeout c \<le> 0) (NotPositive ''PROXY_RESPONSE_HEADER_TIMEOUT'')
       (check (\<not> cfProxyRequireToken c \<and> \<not> cfProxyAllowOpenRelay c) OpenRelay None))
      else None)"

definition validate_public_url :: "config \<Rightarrow> config_error option" where
  "validate_public_url c =
     (if cfPublicURL c \<noteq> [] then
        (case url_Parse (cfPublicURL c) of
           None \<Rightarrow> Some (PublicURLNotAbsolute (cfPublicURL c))
         | Some u \<Rightarrow>
             check (Scheme u = [] \<or> Host u = []) (PublicURLNotAbsolute (cfPublicURL c))
            (check (Scheme u \<noteq> ''http'' \<and> Scheme u \<noteq> ''https'') (PublicURLScheme (cfPublicURL c)) None))
      else None)"

definition validate_admin :: "config \<Rightarrow> config_error option" where
  "validate_admin c =
     (if cfAdminEnabled c then
        check (cfPublicURL c = []) PublicURLMissing
       (check (\<not> has_prefix (cfAdminPath c) ''/'' \<or> \<not> has_suffix (cfAdminPath c) ''/'') BadAdminPath
       (check (cfAdminUsername c = []) (EmptySetting ''ADMIN_USERNAME'')
       (check (cfAdminAddr c = []) (EmptySetting ''ADMIN_ADDR'')
       (check (cfAdminAddr c = cfListenAddr c) (SameAddr ''ADMIN_ADDR'' ''LISTEN_ADDR'')
       (check (cfAdminAddr c = cfMetricsAddr c) (SameAddr ''ADMIN_ADDR'' ''METRICS_ADDR'') None)))))
      else None)"

definition first_error :: "config_error option list \<Rightarrow> config_error option" where
  "first_error es = (case filter (\<lambda>e. e \<noteq> None) es of [] \<Rightarrow> None | e # _ \<Rightarrow> e)"

definition validate_listeners :: "config \<Rightarrow> config_error option" where
  "validate_listeners c =
     check (cfEnv c \<noteq> EnvDevelopment \<and> cfEnv c \<noteq> EnvProduction) (BadEnv (cfEnv c))
    (check (cfListenAddr c = []) (EmptySetting ''LISTEN_ADDR'')
    (check (cfMetricsAddr c = []) (EmptySetting ''METRICS_ADDR'')
    (check (cfMetricsAddr c = cfListenAddr c) (SameAddr ''METRICS_ADDR'' ''LISTEN_ADDR'')
    (check (cfLogFormat c \<noteq> ''json'' \<and> cfLogFormat c \<noteq> ''text'') (BadLogFormat (cfLogFormat c))
    (check (cfReadTimeout c < 0 \<or> cfReadHeaderTimeout c < 0 \<or> cfWriteTimeout c < 0 \<or> cfIdleTimeout c < 0) NegativeTimeout
    (check (cfShutdownTimeout c \<le> 0) (NotPositive ''SHUTDOWN_TIMEOUT'') None))))))"

definition validate :: "config \<Rightarrow> config_error option" where
  "validate c = first_error [validate_listeners c, validate_proxy c, validate_public_url c, validate_admin c]"

subsection \<open>Loading\<close>

definition read_config :: "(string \<Rightarrow> int option) \<Rightarrow> env \<Rightarrow> (parse_error list, config) state" where
  "read_config dur env =
     do { accessLog \<leftarrow> getBool env ''ACCESS_LOG'' False;
          readTimeout \<leftarrow> getDuration dur env ''READ_TIMEOUT'' (15 * second);
          readHeaderTimeout \<leftarrow> getDuration dur env ''READ_HEADER_TIMEOUT'' (10 * second);
          writeTimeout \<leftarrow> getDuration dur env ''WRITE_TIMEOUT'' (30 * second);
          idleTimeout \<leftarrow> getDuration dur env ''IDLE_TIMEOUT'' (120 * second);
          shutdownTimeout \<leftarrow> getDuration dur env ''SHUTDOWN_TIMEOUT'' (20 * second);
          proxyEnabled \<leftarrow> getBool env ''PROXY_ENABLED'' False;
          rewriteMax \<leftarrow> getInt64 env ''PROXY_REWRITE_MAX_BYTES'' (8 * 2 ^ 20);
          responseHeaderTimeout \<leftarrow> getDuration dur env ''PROXY_RESPONSE_HEADER_TIMEOUT'' (30 * second);
          forceIPv4 \<leftarrow> getBool env ''PROXY_FORCE_IPV4'' True;
          requireToken \<leftarrow> getBool env ''PROXY_REQUIRE_TOKEN'' False;
          allowOpenRelay \<leftarrow> getBool env ''PROXY_ALLOW_OPEN_RELAY'' False;
          adminEnabled \<leftarrow> getBool env ''ADMIN_ENABLED'' False;
          State_Monad.return
            \<lparr>cfEnv = getString env ''ENV'' EnvProduction,
             cfListenAddr = getString env ''LISTEN_ADDR'' ''127.0.0.1:8080'',
             cfMetricsAddr = getString env ''METRICS_ADDR'' ''127.0.0.1:9090'',
             cfLogLevel = LevelInfo, cfLogFormat = getString env ''LOG_FORMAT'' [],
             cfAccessLog = accessLog, cfReadTimeout = readTimeout, cfReadHeaderTimeout = readHeaderTimeout,
             cfWriteTimeout = writeTimeout, cfIdleTimeout = idleTimeout, cfShutdownTimeout = shutdownTimeout,
             cfProxyEnabled = proxyEnabled, cfProxyRewriteMaxBytes = rewriteMax,
             cfProxyResponseHeaderTimeout = responseHeaderTimeout, cfProxyForceIPv4 = forceIPv4,
             cfProxyRequireToken = requireToken, cfProxyAllowOpenRelay = allowOpenRelay,
             cfAdminEnabled = adminEnabled, cfAdminAddr = getString env ''ADMIN_ADDR'' ''127.0.0.1:8081'',
             cfAdminPath = getString env ''ADMIN_PATH'' ''/admin/'',
             cfAdminUsername = getString env ''ADMIN_USERNAME'' ''admin'',
             cfAdminPasswordHash = getString env ''ADMIN_PASSWORD_HASH'' [],
             cfPublicURL = getString env ''PUBLIC_URL'' [],
             cfAccessStorePath = getStringAllowEmpty env ''ACCESS_STORE_PATH'' ''/var/lib/bumshi/access.json'',
             cfLogUpstreamHost = getStringAllowEmpty env ''LOG_UPSTREAM_HOST'' []\<rparr> }"

definition Load :: "(string \<Rightarrow> int option) \<Rightarrow> env \<Rightarrow> config_error + config" where
  "Load dur env =
     (case run_state (read_config dur env) [] of
        (cfg, errs) \<Rightarrow>
          if errs \<noteq> [] then Inl (InvalidValues errs)
          else
            (case parseLevel (getString env ''LOG_LEVEL'' ''info'') of
               Inl e \<Rightarrow> Inl e
             | Inr level \<Rightarrow>
                 let cfg = cfg\<lparr>cfAdminPath := normalizePath (cfAdminPath cfg), cfLogLevel := level,
                       cfLogFormat := (if cfLogFormat cfg = [] then (if cfEnv cfg = EnvDevelopment then ''text'' else ''json'')
                                       else cfLogFormat cfg)\<rparr>
                 in case validate cfg of Some e \<Rightarrow> Inl e | None \<Rightarrow> Inr cfg))"

text \<open>\<open>logging.New\<close>: the handler's level, whether source positions are added, and the format.\<close>

definition logging_New :: "config \<Rightarrow> log_level \<times> bool \<times> bool" where
  "logging_New c = (cfLogLevel c, cfLogLevel c \<le> LevelDebug, cfLogFormat c = ''text'')"

subsection \<open>What a variable contributes\<close>

definition parsed_value :: "(string \<Rightarrow> 'a option) \<Rightarrow> env \<Rightarrow> string \<Rightarrow> 'a \<Rightarrow> 'a" where
  "parsed_value parse env key def =
     (case env (envPrefix @ key) of
        None \<Rightarrow> def
      | Some v \<Rightarrow> if trim_space v = [] then def else (case parse (trim_space v) of Some b \<Rightarrow> b | None \<Rightarrow> def))"

definition bad_value :: "(string \<Rightarrow> bool) \<Rightarrow> string \<Rightarrow> env \<Rightarrow> string \<Rightarrow> parse_error list" where
  "bad_value ok want env key =
     (case env (envPrefix @ key) of
        None \<Rightarrow> []
      | Some v \<Rightarrow>
          if trim_space v = [] \<or> ok (trim_space v) then []
          else [\<lparr>peKey = envPrefix @ key, peValue = v, peWant = want\<rparr>])"

lemma run_update [simp]: "run_state (State_Monad.update f) s = ((), f s)"
  by (simp add: State_Monad.update_def)

lemma run_get_parsed [simp]:
  "run_state (get_parsed parse want env key def) errs =
     (parsed_value parse env key def, errs @ bad_value (\<lambda>v. parse v \<noteq> None) want env key)"
  by (simp add: get_parsed_def parsed_value_def bad_value_def parse_error_add_def split: option.split)

text \<open>The typed variables in the order they are read.\<close>

datatype var_kind = VBool | VInt | VDuration

definition typed_vars :: "(string \<times> var_kind) list" where
  "typed_vars =
     [(''ACCESS_LOG'', VBool), (''READ_TIMEOUT'', VDuration), (''READ_HEADER_TIMEOUT'', VDuration),
      (''WRITE_TIMEOUT'', VDuration), (''IDLE_TIMEOUT'', VDuration), (''SHUTDOWN_TIMEOUT'', VDuration),
      (''PROXY_ENABLED'', VBool), (''PROXY_REWRITE_MAX_BYTES'', VInt),
      (''PROXY_RESPONSE_HEADER_TIMEOUT'', VDuration), (''PROXY_FORCE_IPV4'', VBool),
      (''PROXY_REQUIRE_TOKEN'', VBool), (''PROXY_ALLOW_OPEN_RELAY'', VBool), (''ADMIN_ENABLED'', VBool)]"

fun kind_ok :: "(string \<Rightarrow> int option) \<Rightarrow> var_kind \<Rightarrow> string \<Rightarrow> bool" where
  "kind_ok dur VBool v = (ParseBool v \<noteq> None)"
| "kind_ok dur VInt v = (atoi v \<noteq> None)"
| "kind_ok dur VDuration v = (dur v \<noteq> None)"

fun kind_want :: "var_kind \<Rightarrow> string" where
  "kind_want VBool = ''boolean (true/false)''"
| "kind_want VInt = ''integer''"
| "kind_want VDuration = ''duration (e.g. 30s, 2m)''"

definition bad_values :: "(string \<Rightarrow> int option) \<Rightarrow> env \<Rightarrow> parse_error list" where
  "bad_values dur env = concat (map (\<lambda>(key, k). bad_value (kind_ok dur k) (kind_want k) env key) typed_vars)"

lemma read_config_errors: "snd (run_state (read_config dur env) []) = bad_values dur env"
  unfolding read_config_def bad_values_def typed_vars_def getBool_def getInt64_def getDuration_def
  by (simp only: State_Monad.run_state_bind State_Monad.run_state_return run_get_parsed prod.case snd_conv
      list.map concat.simps append_assoc append.left_neutral append.right_neutral kind_ok.simps [abs_def] kind_want.simps)

lemma read_config_fields:
  "cfProxyEnabled (fst (run_state (read_config dur env) [])) = parsed_value ParseBool env ''PROXY_ENABLED'' False"
  "cfProxyRequireToken (fst (run_state (read_config dur env) [])) = parsed_value ParseBool env ''PROXY_REQUIRE_TOKEN'' False"
  "cfProxyAllowOpenRelay (fst (run_state (read_config dur env) [])) = parsed_value ParseBool env ''PROXY_ALLOW_OPEN_RELAY'' False"
  unfolding read_config_def getBool_def getInt64_def getDuration_def
  by (simp_all only: State_Monad.run_state_bind State_Monad.run_state_return run_get_parsed prod.case fst_conv config.simps)

text \<open>
  C37.  No silent fallback: the configuration is refused with the list of bad values exactly when
  some typed variable is set, not blank and does not parse, and the list names every one of them, in
  order, with its value.  This includes durations, for which one of the program's tests expects the
  default value instead.
\<close>

theorem Load_reports_all:
  "Load dur env = Inl (InvalidValues es) \<longleftrightarrow> es \<noteq> [] \<and> es = bad_values dur env"
proof -
  obtain cfg errs where run: "run_state (read_config dur env) [] = (cfg, errs)" by fastforce
  then have errs: "errs = bad_values dur env" using read_config_errors [of dur env] by simp
  have level: "parseLevel l \<noteq> Inl (InvalidValues es)" for l by (simp add: parseLevel_def Let_def)
  have valid: "validate c \<noteq> Some (InvalidValues es)" for c
    by (auto simp: validate_def first_error_def validate_listeners_def validate_proxy_def validate_public_url_def
        validate_admin_def check_def split: list.splits option.splits if_splits)
  show ?thesis
  proof (cases "errs = []")
    case True
    then show ?thesis using level valid
      by (auto simp: Load_def run Let_def errs [symmetric] split: sum.splits option.splits)
  next
    case False
    then show ?thesis by (auto simp: Load_def run errs)
  qed
qed

subsection \<open>What a loaded configuration guarantees\<close>

definition config_safe :: "config \<Rightarrow> bool" where
  "config_safe c \<longleftrightarrow>
     cfListenAddr c \<noteq> [] \<and> cfMetricsAddr c \<noteq> [] \<and> cfMetricsAddr c \<noteq> cfListenAddr c \<and>
     0 \<le> cfReadTimeout c \<and> 0 \<le> cfReadHeaderTimeout c \<and> 0 \<le> cfWriteTimeout c \<and> 0 \<le> cfIdleTimeout c \<and> 0 < cfShutdownTimeout c \<and>
     (if cfProxyEnabled c
      then 0 < cfProxyRewriteMaxBytes c \<and> 0 < cfProxyResponseHeaderTimeout c \<and> (cfProxyRequireToken c \<or> cfProxyAllowOpenRelay c)
      else True) \<and>
     (if cfAdminEnabled c
      then cfAdminUsername c \<noteq> [] \<and> cfAdminAddr c \<noteq> [] \<and> cfAdminAddr c \<noteq> cfListenAddr c \<and> cfAdminAddr c \<noteq> cfMetricsAddr c \<and>
        has_prefix (cfAdminPath c) ''/'' \<and> has_suffix (cfAdminPath c) ''/'' \<and>
        (case url_Parse (cfPublicURL c) of None \<Rightarrow> False
         | Some u \<Rightarrow> (Scheme u = ''http'' \<or> Scheme u = ''https'') \<and> Host u \<noteq> [])
      else True)"

lemma check_None [simp]: "check bad e rest = None \<longleftrightarrow> \<not> bad \<and> rest = None"
  by (simp add: check_def)

lemma first_error_None: "first_error es = None \<longleftrightarrow> list_all (\<lambda>e. e = None) es"
  by (induction es) (auto simp: first_error_def split: list.splits)

lemma validate_safe: "validate c = None \<Longrightarrow> config_safe c"
  by (auto simp: validate_def first_error_None validate_listeners_def validate_proxy_def validate_public_url_def
      validate_admin_def config_safe_def split: if_splits option.splits)

text \<open>
  C30.  A configuration that loads is safe: the three listeners are apart, the panel has an address
  of its own and links that work, the timeouts make sense, and an enabled proxy without tokens
  is accepted only when the operator has set \<open>BUMSHI_PROXY_ALLOW_OPEN_RELAY\<close> to a true value.  (What
  the panel's saved switches make of it at the start is not part of the configuration.)
\<close>

theorem Load_safe:
  assumes "Load dur env = Inr c"
  shows "config_safe c \<and>
    (if cfProxyEnabled c \<and> \<not> cfProxyRequireToken c
     then \<exists>v. env ''BUMSHI_PROXY_ALLOW_OPEN_RELAY'' = Some v \<and> ParseBool (trim_space v) = Some True else True)"
proof -
  obtain cfg where run: "run_state (read_config dur env) [] = (cfg, [])" and valid: "validate c = None"
    and c: "cfProxyEnabled c = cfProxyEnabled cfg" "cfProxyRequireToken c = cfProxyRequireToken cfg"
      "cfProxyAllowOpenRelay c = cfProxyAllowOpenRelay cfg"
    using assms by (auto simp: Load_def Let_def split: prod.splits if_splits sum.splits option.splits)
  have relay: "cfProxyAllowOpenRelay c = parsed_value ParseBool env ''PROXY_ALLOW_OPEN_RELAY'' False"
    using read_config_fields(3) [of dur env] c(3) by (simp add: run)
  have safe: "config_safe c" by (rule validate_safe [OF valid])
  have "cfProxyAllowOpenRelay c" if "cfProxyEnabled c \<and> \<not> cfProxyRequireToken c"
    using safe that by (simp add: config_safe_def)
  moreover have "envPrefix @ ''PROXY_ALLOW_OPEN_RELAY'' = ''BUMSHI_PROXY_ALLOW_OPEN_RELAY''" by (simp add: envPrefix_def)
  ultimately show ?thesis using safe relay
    by (auto simp: parsed_value_def split: option.splits if_splits)
qed

definition sample_env :: env where
  "sample_env = map_of [(''BUMSHI_PROXY_ENABLED'', ''1''), (''BUMSHI_PROXY_ALLOW_OPEN_RELAY'', ''true'')]"

theorem Load_safe_witness:
  "(case Load (\<lambda>_. None) sample_env of Inl _ \<Rightarrow> False
    | Inr c \<Rightarrow> cfProxyEnabled c \<and> \<not> cfProxyRequireToken c \<and> config_safe c)"
proof -
  have loads: "case Load (\<lambda>_. None) sample_env of Inl _ \<Rightarrow> False | Inr c \<Rightarrow> cfProxyEnabled c \<and> \<not> cfProxyRequireToken c"
    unfolding sample_env_def by code_simp
  then obtain c where c: "Load (\<lambda>_. None) sample_env = Inr c" by (auto split: sum.splits)
  from Load_safe [OF c] loads show ?thesis by (simp add: c)
qed

end
