(* ===== verification/Metrics.thy ===== *)
theory Metrics
  imports Http "HOL-Library.Char_ord" "HOL-Library.List_Lexorder" Complex_Main
begin

section \<open>Prometheus metrics (internal/metrics)\<close>

text \<open>
  Counters, gauges and histograms with labels, and their text format.  A sample is of an ordered
  type \<open>'f\<close> with addition (a Go \<open>float64\<close> that is not NaN; rounding is whatever \<open>+\<close> does) and
  \<open>fmt\<close> prints it.  Bucket counts are \<open>uint64\<close>.  Children are an association list from label keys.
\<close>

record 'f child =
  chLabels :: "string list"
  chValue :: 'f

record 'f vec =
  vName :: string
  vHelp :: string
  vLabels :: "string list"
  vValues :: "(string \<times> 'f child) list"

record 'f histogramChild =
  hcLabels :: "string list"
  hcCounts :: "64 word list"
  hcSum :: 'f
  hcCount :: "64 word"

record 'f histogramVec =
  hvName :: string
  hvHelp :: string
  hvLabels :: "string list"
  hvBuckets :: "'f list"
  hvValues :: "(string \<times> 'f histogramChild) list"

datatype 'f vector = CounterVec "'f vec" | GaugeVec "'f vec" | HistogramVec "'f histogramVec"

definition DefBuckets :: "real list" where
  "DefBuckets = [5 / 1000, 1 / 100, 25 / 1000, 5 / 100, 1 / 10, 1 / 4, 1 / 2, 1, 5 / 2, 5, 10]"

definition unit_separator :: string where
  "unit_separator = [CHR 0x1F]"

definition labelKey :: "string list \<Rightarrow> string" where
  "labelKey values = join unit_separator values"

subsection \<open>Recording\<close>

definition NewVec :: "string \<Rightarrow> string \<Rightarrow> string list \<Rightarrow> 'f vec" where
  "NewVec name help labels = \<lparr>vName = name, vHelp = help, vLabels = labels, vValues = []\<rparr>"

definition counter_Add :: "'f::{zero, plus, linorder} \<Rightarrow> string list \<Rightarrow> 'f vec \<Rightarrow> 'f vec" where
  "counter_Add delta labelValues c =
     (if length labelValues \<noteq> length (vLabels c) \<or> delta < 0 then c
      else
        let key = labelKey labelValues;
            child = (case map_of (vValues c) key of None \<Rightarrow> \<lparr>chLabels = labelValues, chValue = 0\<rparr> | Some ch \<Rightarrow> ch)
        in c\<lparr>vValues := AList.update key (child\<lparr>chValue := chValue child + delta\<rparr>) (vValues c)\<rparr>)"

definition counter_Inc :: "string list \<Rightarrow> 'f::{zero, one, plus, linorder} vec \<Rightarrow> 'f vec" where
  "counter_Inc labelValues c = counter_Add 1 labelValues c"

definition gauge_mutate :: "string list \<Rightarrow> ('f::zero child \<Rightarrow> 'f child) \<Rightarrow> 'f vec \<Rightarrow> 'f vec" where
  "gauge_mutate labelValues fn g =
     (if length labelValues \<noteq> length (vLabels g) then g
      else
        let key = labelKey labelValues;
            child = (case map_of (vValues g) key of None \<Rightarrow> \<lparr>chLabels = labelValues, chValue = 0\<rparr> | Some ch \<Rightarrow> ch)
        in g\<lparr>vValues := AList.update key (fn child) (vValues g)\<rparr>)"

definition gauge_Set :: "'f::zero \<Rightarrow> string list \<Rightarrow> 'f vec \<Rightarrow> 'f vec" where
  "gauge_Set v labelValues g = gauge_mutate labelValues (\<lambda>c. c\<lparr>chValue := v\<rparr>) g"

definition gauge_Add :: "'f::{zero, plus} \<Rightarrow> string list \<Rightarrow> 'f vec \<Rightarrow> 'f vec" where
  "gauge_Add delta labelValues g = gauge_mutate labelValues (\<lambda>c. c\<lparr>chValue := chValue c + delta\<rparr>) g"

definition gauge_Inc :: "string list \<Rightarrow> 'f::{zero, one, plus} vec \<Rightarrow> 'f vec" where
  "gauge_Inc labelValues g = gauge_Add 1 labelValues g"

definition gauge_Dec :: "string list \<Rightarrow> 'f::{zero, one, plus, uminus} vec \<Rightarrow> 'f vec" where
  "gauge_Dec labelValues g = gauge_Add (- 1) labelValues g"

definition NewHistogramVec :: "string \<Rightarrow> string \<Rightarrow> 'f::linorder list \<Rightarrow> string list \<Rightarrow> 'f histogramVec" where
  "NewHistogramVec name help buckets labels =
     \<lparr>hvName = name, hvHelp = help, hvLabels = labels, hvBuckets = sort buckets, hvValues = []\<rparr>"

definition observe_child :: "'f::{plus, linorder} \<Rightarrow> 'f list \<Rightarrow> 'f histogramChild \<Rightarrow> 'f histogramChild" where
  "observe_child v buckets c =
     c\<lparr>hcCounts := map (\<lambda>(ub, n). if v \<le> ub then n + 1 else n) (zip buckets (hcCounts c)),
       hcSum := hcSum c + v, hcCount := hcCount c + 1\<rparr>"

definition Observe :: "'f::{zero, plus, linorder} \<Rightarrow> string list \<Rightarrow> 'f histogramVec \<Rightarrow> 'f histogramVec" where
  "Observe v labelValues h =
     (if length labelValues \<noteq> length (hvLabels h) then h
      else
        let key = labelKey labelValues;
            child = (case map_of (hvValues h) key of
                None \<Rightarrow> \<lparr>hcLabels = labelValues, hcCounts = replicate (length (hvBuckets h)) 0, hcSum = 0, hcCount = 0\<rparr>
              | Some ch \<Rightarrow> ch)
        in h\<lparr>hvValues := AList.update key (observe_child v (hvBuckets h) child) (hvValues h)\<rparr>)"

subsection \<open>The text format\<close>

definition backslash :: char where
  "backslash = CHR 0x5C"

definition escape_with :: "(char \<Rightarrow> string option) \<Rightarrow> string \<Rightarrow> string" where
  "escape_with f s = concat (map (\<lambda>c. case f c of None \<Rightarrow> [c] | Some r \<Rightarrow> r) s)"

definition escapeLabelValue :: "string \<Rightarrow> string" where
  "escapeLabelValue s = escape_with (\<lambda>c.
     if byte c = 0x5C then Some [backslash, backslash] else if byte c = 0x22 then Some [backslash, CHR 0x22]
     else if byte c = 0x0A then Some [backslash, CHR ''n''] else None) s"

definition escapeHelp :: "string \<Rightarrow> string" where
  "escapeHelp s = escape_with (\<lambda>c.
     if byte c = 0x5C then Some [backslash, backslash] else if byte c = 0x0A then Some [backslash, CHR ''n''] else None) s"

definition in_quotes :: "string \<Rightarrow> string" where
  "in_quotes s = [CHR 0x22] @ s @ [CHR 0x22]"

definition writeHeader :: "string \<Rightarrow> string \<Rightarrow> string \<Rightarrow> string" where
  "writeHeader name help typ =
     ''# HELP '' @ name @ '' '' @ escapeHelp help @ newline @ ''# TYPE '' @ name @ '' '' @ typ @ newline"

definition writeLabels :: "string list \<Rightarrow> string list \<Rightarrow> string" where
  "writeLabels names values =
     (if names = [] then []
      else ''{'' @ join '','' (map (\<lambda>(n, v). n @ ''='' @ in_quotes (escapeLabelValue v)) (zip names values)) @ ''}'')"

definition writeBucketLabels :: "string list \<Rightarrow> string list \<Rightarrow> string \<Rightarrow> string" where
  "writeBucketLabels names values le =
     ''{'' @ concat (map (\<lambda>(n, v). n @ ''='' @ in_quotes (escapeLabelValue v) @ '','') (zip names values)) @
     ''le='' @ in_quotes le @ ''}''"

definition vec_writeTo :: "('f \<Rightarrow> string) \<Rightarrow> string \<Rightarrow> 'f vec \<Rightarrow> string" where
  "vec_writeTo fmt typ c =
     writeHeader (vName c) (vHelp c) typ @
     concat (map (\<lambda>ch. vName c @ writeLabels (vLabels c) (chLabels ch) @ '' '' @ fmt (chValue ch) @ newline)
       (sort_key (labelKey \<circ> chLabels) (map snd (vValues c))))"

definition histogram_lines :: "('f \<Rightarrow> string) \<Rightarrow> 'f histogramVec \<Rightarrow> 'f histogramChild \<Rightarrow> string" where
  "histogram_lines fmt h ch =
     concat (map (\<lambda>(ub, n). hvName h @ ''_bucket'' @ writeBucketLabels (hvLabels h) (hcLabels ch) (fmt ub) @ '' '' @
         itoa (unat n) @ newline) (zip (hvBuckets h) (hcCounts ch))) @
     hvName h @ ''_bucket'' @ writeBucketLabels (hvLabels h) (hcLabels ch) ''+Inf'' @ '' '' @ itoa (unat (hcCount ch)) @ newline @
     hvName h @ ''_sum'' @ writeLabels (hvLabels h) (hcLabels ch) @ '' '' @ fmt (hcSum ch) @ newline @
     hvName h @ ''_count'' @ writeLabels (hvLabels h) (hcLabels ch) @ '' '' @ itoa (unat (hcCount ch)) @ newline"

definition histogram_writeTo :: "('f \<Rightarrow> string) \<Rightarrow> 'f histogramVec \<Rightarrow> string" where
  "histogram_writeTo fmt h =
     writeHeader (hvName h) (hvHelp h) ''histogram'' @
     concat (map (histogram_lines fmt h) (sort_key (labelKey \<circ> hcLabels) (map snd (hvValues h))))"

fun vector_writeTo :: "('f \<Rightarrow> string) \<Rightarrow> 'f vector \<Rightarrow> string" where
  "vector_writeTo fmt (CounterVec c) = vec_writeTo fmt ''counter'' c"
| "vector_writeTo fmt (GaugeVec g) = vec_writeTo fmt ''gauge'' g"
| "vector_writeTo fmt (HistogramVec h) = histogram_writeTo fmt h"

text \<open>The registry is the vectors in the order of registration, as they are when it is read.\<close>

definition registry_Handler :: "('f \<Rightarrow> string) \<Rightarrow> 'f vector list \<Rightarrow> writer \<Rightarrow> writer" where
  "registry_Handler fmt vecs w =
     Write (concat (map (vector_writeTo fmt) vecs))
       (hset ''Content-Type'' ''text/plain; version=0.0.4; charset=utf-8'' w)"

record 'f httpCollectors =
  colRequests :: "'f vec"
  colInFlight :: "'f vec"
  colDuration :: "'f histogramVec"

definition NewHTTPCollectors :: "'f::linorder list \<Rightarrow> 'f httpCollectors" where
  "NewHTTPCollectors buckets =
     \<lparr>colRequests = NewVec ''bumshi_http_requests_total'' ''Total number of HTTP requests processed.'' [''method'', ''code''],
      colInFlight = NewVec ''bumshi_http_requests_in_flight'' ''Number of HTTP requests currently being served.'' [],
      colDuration = NewHistogramVec ''bumshi_http_request_duration_seconds'' ''HTTP request latency in seconds.'' buckets [''method'']\<rparr>"

subsection \<open>Histograms\<close>

text \<open>The child of a key after a run of measurements with its label values.\<close>

lemma observe_child_step:
  assumes "length (hcCounts c) = length buckets"
  shows "length (hcCounts (observe_child v buckets c)) = length buckets"
    "i < length buckets \<Longrightarrow> hcCounts (observe_child v buckets c) ! i = hcCounts c ! i + (if v \<le> buckets ! i then 1 else 0)"
  using assms by (simp_all add: observe_child_def)

lemma observe_child_run:
  assumes "length (hcCounts c) = length buckets"
  shows "hcCount (fold (\<lambda>v. observe_child v buckets) vs c) = hcCount c + of_nat (length vs) \<and>
    hcLabels (fold (\<lambda>v. observe_child v buckets) vs c) = hcLabels c \<and>
    length (hcCounts (fold (\<lambda>v. observe_child v buckets) vs c)) = length buckets \<and>
    (\<forall>i<length buckets. hcCounts (fold (\<lambda>v. observe_child v buckets) vs c) ! i =
       hcCounts c ! i + of_nat (length (filter (\<lambda>v. v \<le> buckets ! i) vs)))"
  using assms
proof (induction vs arbitrary: c)
  case (Cons v vs)
  have "hcCount (observe_child v buckets c) = hcCount c + 1" "hcLabels (observe_child v buckets c) = hcLabels c"
    by (simp_all add: observe_child_def)
  with Cons.IH [OF observe_child_step(1) [OF Cons.prems]] observe_child_step(2) [OF Cons.prems] show ?case by simp
qed simp

lemma Observe_run:
  assumes "length ls = length (hvLabels h)" "map_of (hvValues h) (labelKey ls) = None" "vs \<noteq> []"
  shows "map_of (hvValues (fold (\<lambda>v. Observe v ls) vs h)) (labelKey ls) =
    Some (fold (\<lambda>v. observe_child v (hvBuckets h)) vs
      \<lparr>hcLabels = ls, hcCounts = replicate (length (hvBuckets h)) 0, hcSum = 0, hcCount = 0\<rparr>)"
proof -
  have frame: "hvLabels (Observe v ls g) = hvLabels g \<and> hvBuckets (Observe v ls g) = hvBuckets g" for v and g :: "'a histogramVec"
    by (simp add: Observe_def Let_def)
  have some: "map_of (hvValues (fold (\<lambda>v. Observe v ls) vs g)) (labelKey ls) =
      Some (fold (\<lambda>v. observe_child v (hvBuckets g)) vs ch)"
    if "length ls = length (hvLabels g)" "map_of (hvValues g) (labelKey ls) = Some ch" for g :: "'a histogramVec" and ch vs
    using that
  proof (induction vs arbitrary: g ch)
    case (Cons v vs)
    have "map_of (hvValues (Observe v ls g)) (labelKey ls) = Some (observe_child v (hvBuckets g) ch)"
      using Cons.prems by (simp add: Observe_def Let_def update_conv')
    with Cons.IH [of "Observe v ls g"] Cons.prems(1) frame [of v g] show ?case by simp
  qed simp
  obtain v ws where vs: "vs = v # ws" using assms(3) by (cases vs) auto
  have "map_of (hvValues (Observe v ls h)) (labelKey ls) = Some (observe_child v (hvBuckets h)
      \<lparr>hcLabels = ls, hcCounts = replicate (length (hvBuckets h)) 0, hcSum = 0, hcCount = 0\<rparr>)"
    using assms(1,2) by (simp add: Observe_def Let_def update_conv')
  with some [of "Observe v ls h"] assms(1) frame [of v h] show ?thesis by (simp add: vs)
qed

text \<open>
  A histogram counts cumulatively: after any measurements with a new set of label values, the
  count of each bucket is the number of measurements up to its bound, the total their number (both
  as 64-bit counters), and the bounds are in ascending order, so the buckets grow towards the total.
\<close>

theorem histogram_cumulative:
  assumes "length ls = length labels" "vs \<noteq> []"
  shows "case map_of (hvValues (fold (\<lambda>v. Observe v ls) vs (NewHistogramVec name info buckets labels))) (labelKey ls) of
      None \<Rightarrow> False
    | Some ch \<Rightarrow> hcLabels ch = ls \<and> hcCount ch = of_nat (length vs) \<and> sorted (sort buckets) \<and>
        hcCounts ch = map (\<lambda>ub. of_nat (length (filter (\<lambda>v. v \<le> ub) vs))) (sort buckets)"
proof -
  let ?h = "NewHistogramVec name info buckets labels"
  let ?c = "\<lparr>hcLabels = ls, hcCounts = replicate (length (sort buckets)) 0, hcSum = 0, hcCount = 0\<rparr> :: 'a histogramChild"
  have "map_of (hvValues (fold (\<lambda>v. Observe v ls) vs ?h)) (labelKey ls) =
      Some (fold (\<lambda>v. observe_child v (sort buckets)) vs ?c)"
    using Observe_run [of ls ?h vs] assms by (simp add: NewHistogramVec_def)
  moreover have "hcCounts (fold (\<lambda>v. observe_child v (sort buckets)) vs ?c) =
      map (\<lambda>ub. of_nat (length (filter (\<lambda>v. v \<le> ub) vs))) (sort buckets)"
    using observe_child_run [of ?c "sort buckets" vs] by (intro nth_equalityI) simp_all
  ultimately show ?thesis
    using observe_child_run [of ?c "sort buckets" vs] by simp
qed

theorem histogram_cumulative_witness:
  "(case map_of (hvValues (fold (\<lambda>v. Observe v [''GET'']) [1, 7, 3] (NewHistogramVec ''h'' ''help'' [5, 2 :: int] [''method'']))) ''GET'' of
      None \<Rightarrow> False | Some ch \<Rightarrow> hcCount ch = 3 \<and> hcCounts ch = [1, 2])"
proof -
  have key: "labelKey [''GET''] = ''GET''" by (simp add: labelKey_def)
  have "sort [5, 2 :: int] = [2, 5]" by simp
  with histogram_cumulative [where ls = "[''GET'']" and labels = "[''method'']" and vs = "[1, 7, 3 :: int]"
      and name = "''h''" and info = "''help''" and buckets = "[5, 2]"] key
  show ?thesis by (auto split: option.splits)
qed

subsection \<open>Label values\<close>

text \<open>A reader of a quoted label value: what it stands for and the text after the closing quote.\<close>

fun read_label :: "string \<Rightarrow> (string \<times> string) option" where
  "read_label [] = None"
| "read_label (c # s) =
     (if byte c = 0x22 then Some ([], s)
      else if byte c = 0x0A then None
      else if byte c = 0x5C then
        (case s of
           [] \<Rightarrow> None
         | d # r \<Rightarrow>
             let v = (if d = CHR ''n'' then CHR 0x0A else d)
             in map_option (\<lambda>(x, y). (v # x, y)) (read_label r))
      else map_option (\<lambda>(x, y). (c # x, y)) (read_label s))"

text \<open>
  A label value read back from the text is the value recorded, whatever bytes it has: it
  cannot end its quotes early, start a new line or run into the rest.
\<close>

theorem label_value_roundtrip:
  "read_label (escapeLabelValue v @ [CHR 0x22] @ rest) = Some (v, rest)"
proof (induction v)
  case (Cons c v)
  have esc: "escapeLabelValue (c # v) = (if byte c = 0x5C then [backslash, backslash] else if byte c = 0x22 then [backslash, CHR 0x22]
     else if byte c = 0x0A then [backslash, CHR ''n''] else [c]) @ escapeLabelValue v"
    by (simp add: escapeLabelValue_def escape_with_def)
  have eqs: "byte c = 0x5C \<Longrightarrow> c = backslash" "byte c = 0x22 \<Longrightarrow> c = CHR 0x22" "byte c = 0x0A \<Longrightarrow> c = CHR 0x0A"
    by (simp_all add: backslash_def byte_eq_iff [symmetric])
  from Cons show ?case by (auto simp: esc backslash_def dest!: eqs)
qed (simp add: escapeLabelValue_def escape_with_def)

end
