(* ===== verification/Httpx.thy ===== *)
theory Httpx
  imports Metrics Go_Hex
begin

section \<open>HTTP middleware (internal/httpx)\<close>

text \<open>
  A handler takes a request, which carries its identifier as a context value, and a connection: the
  response being written, the log, the collectors and the state \<open>'s\<close> of the service behind.  It
  returns the connection and whether it panicked.  Middleware maps handlers to handlers.
\<close>

record ctx_request = request +
  rRequestID :: string

record access_line =
  alRequestID :: string
  alMethod :: string
  alPath :: string
  alStatus :: nat
  alBytes :: nat

datatype log_entry = AccessLine access_line | PanicLine string

record ('f, 's) conn =
  nWriter :: writer
  nLog :: "log_entry list"
  nCollectors :: "'f httpCollectors"
  nState :: 's

type_synonym ('f, 's) http_handler = "ctx_request \<Rightarrow> ('f, 's) conn \<Rightarrow> ('f, 's) conn \<times> bool"

definition Chain :: "('f, 's) http_handler \<Rightarrow> (('f, 's) http_handler \<Rightarrow> ('f, 's) http_handler) list \<Rightarrow> ('f, 's) http_handler" where
  "Chain h mws = foldr (\<lambda>mw h. mw h) mws h"

subsection \<open>Request identifiers\<close>

definition requestIDHeader :: string where
  "requestIDHeader = ''X-Request-ID''"

definition validRequestID :: "string \<Rightarrow> bool" where
  "validRequestID s \<longleftrightarrow> s \<noteq> [] \<and> length s \<le> 128 \<and> list_all (\<lambda>c. is_alnum c \<or> c = CHR ''-'' \<or> c = CHR ''_'') s"

text \<open>When the random source fails the identifier is the time in nanoseconds in base 16.\<close>

definition newRequestID :: "bytes option \<Rightarrow> 64 word \<Rightarrow> string" where
  "newRequestID rand now = (case rand of None \<Rightarrow> format_uint 16 (unat now) | Some b \<Rightarrow> hex_EncodeToString b)"

definition set_header :: "string \<Rightarrow> string \<Rightarrow> ('f, 's) conn \<Rightarrow> ('f, 's) conn" where
  "set_header k v n = n\<lparr>nWriter := hset k v (nWriter n)\<rparr>"

definition RequestID :: "bytes option \<Rightarrow> 64 word \<Rightarrow> ('f, 's) http_handler \<Rightarrow> ('f, 's) http_handler" where
  "RequestID rand now next r n =
     (let given = Get (rHeader r) requestIDHeader;
          rid = (if validRequestID given then given else newRequestID rand now)
      in next (r\<lparr>rRequestID := rid\<rparr>) (set_header requestIDHeader rid n))"

subsection \<open>Recovery and headers\<close>

definition internal_error :: bytes where
  "internal_error = [CHR ''{'', CHR 0x22] @ ''error'' @ [CHR 0x22, CHR '':'', CHR 0x22] @ ''internal server error'' @ [CHR 0x22, CHR ''}'']"

definition Recoverer :: "('f, 's) http_handler \<Rightarrow> ('f, 's) http_handler" where
  "Recoverer next r n =
     (let (m, panicked) = next r n in
      if \<not> panicked then (m, False)
      else (m\<lparr>nLog := nLog m @ [PanicLine (rRequestID r)],
              nWriter := Write internal_error (WriteHeader 500
                (hset ''Content-Type'' ''application/json; charset=utf-8'' (nWriter m)))\<rparr>, False))"

definition SecurityHeaders :: "('f, 's) http_handler \<Rightarrow> ('f, 's) http_handler" where
  "SecurityHeaders next r n =
     next r (set_header ''Cross-Origin-Opener-Policy'' ''same-origin'' (set_header ''Referrer-Policy'' ''no-referrer''
       (set_header ''X-Frame-Options'' ''DENY'' (set_header ''X-Content-Type-Options'' ''nosniff'' n))))"

subsection \<open>The response recorder\<close>

record recorder =
  rrWriter :: writer
  rrStatus :: nat
  rrBytes :: nat
  rrWrote :: bool

definition new_recorder :: "writer \<Rightarrow> recorder" where
  "new_recorder w = \<lparr>rrWriter = w, rrStatus = 200, rrBytes = 0, rrWrote = False\<rparr>"

definition rr_WriteHeader :: "nat \<Rightarrow> recorder \<Rightarrow> recorder" where
  "rr_WriteHeader code rr =
     (if rrWrote rr then rr
      else rr\<lparr>rrStatus := code, rrWrote := True, rrWriter := WriteHeader code (rrWriter rr)\<rparr>)"

definition rr_Write :: "bytes \<Rightarrow> recorder \<Rightarrow> recorder" where
  "rr_Write b rr =
     (let rr = (if rrWrote rr then rr else rr_WriteHeader 200 rr)
      in rr\<lparr>rrWriter := Write b (rrWriter rr), rrBytes := rrBytes rr + length b\<rparr>)"

definition rr_header :: "(header \<Rightarrow> header) \<Rightarrow> recorder \<Rightarrow> recorder" where
  "rr_header f rr = rr\<lparr>rrWriter := (rrWriter rr)\<lparr>wHeader := f (wHeader (rrWriter rr))\<rparr>\<rparr>"

text \<open>
  What a recorder has seen, read off the writer it wraps before and after: the middleware below is
  stated with these, and \<open>recorder_observes\<close> shows that they are what the recorder holds.
\<close>

definition recorded_status :: "writer \<Rightarrow> nat" where
  "recorded_status w = (case wSent w of None \<Rightarrow> 200 | Some (code, _) \<Rightarrow> code)"

definition recorded_bytes :: "writer \<Rightarrow> writer \<Rightarrow> nat" where
  "recorded_bytes before after = length (wBody after) - length (wBody before)"

text \<open>The calls a handler can make on its response writer.\<close>

datatype writer_op = CallWriteHeader nat | CallWrite bytes | CallHeader "header \<Rightarrow> header"

fun on_recorder :: "writer_op \<Rightarrow> recorder \<Rightarrow> recorder" where
  "on_recorder (CallWriteHeader code) rr = rr_WriteHeader code rr"
| "on_recorder (CallWrite b) rr = rr_Write b rr"
| "on_recorder (CallHeader f) rr = rr_header f rr"

fun on_plain :: "writer_op \<Rightarrow> writer \<Rightarrow> writer" where
  "on_plain (CallWriteHeader code) w = WriteHeader code w"
| "on_plain (CallWrite b) w = Write b w"
| "on_plain (CallHeader f) w = w\<lparr>wHeader := f (wHeader w)\<rparr>"

lemma recorder_run:
  "rrWrote rr = (wSent (rrWriter rr) \<noteq> None) \<Longrightarrow> rrStatus rr = recorded_status (rrWriter rr) \<Longrightarrow>
   rrWriter (fold on_recorder ops rr) = fold on_plain ops (rrWriter rr) \<and>
   rrStatus (fold on_recorder ops rr) = recorded_status (fold on_plain ops (rrWriter rr)) \<and>
   rrBytes (fold on_recorder ops rr) + length (wBody (rrWriter rr)) = rrBytes rr + length (wBody (fold on_plain ops (rrWriter rr)))"
proof (induction ops arbitrary: rr)
  case (Cons op ops)
  have w: "rrWriter (on_recorder op rr) = on_plain op (rrWriter rr)"
    using Cons.prems(1)
    by (cases op) (auto simp: rr_WriteHeader_def rr_Write_def rr_header_def Let_def WriteHeader_def Write_def)
  have wrote: "rrWrote (on_recorder op rr) = (wSent (on_plain op (rrWriter rr)) \<noteq> None)"
    using Cons.prems(1)
    by (cases op) (auto simp: rr_WriteHeader_def rr_Write_def rr_header_def Let_def)
  have status: "rrStatus (on_recorder op rr) = recorded_status (on_plain op (rrWriter rr))"
    using Cons.prems
    by (cases op) (auto simp: rr_WriteHeader_def rr_Write_def rr_header_def Let_def recorded_status_def)
  have n: "rrBytes (on_recorder op rr) + length (wBody (rrWriter rr)) = rrBytes rr + length (wBody (on_plain op (rrWriter rr)))"
    by (cases op) (auto simp: rr_WriteHeader_def rr_Write_def rr_header_def Let_def)
  show ?case using Cons.IH [of "on_recorder op rr"] w wrote status n by simp
qed simp

text \<open>
  The recorder is transparent and right: through any calls of a handler the wrapped writer ends
  exactly as it would without it, and the status and byte count it holds are those of the response.
\<close>

theorem recorder_observes:
  assumes "wSent w = None"
  shows "let rr = fold on_recorder ops (new_recorder w); w' = fold on_plain ops w in
    rrWriter rr = w' \<and> rrStatus rr = recorded_status w' \<and> rrBytes rr = recorded_bytes w w'"
  using recorder_run [of "new_recorder w" ops] assms
  by (simp add: new_recorder_def recorded_status_def recorded_bytes_def Let_def add_implies_diff)

theorem recorder_observes_witness:
  "rrStatus (fold on_recorder [CallWrite ''hi'', CallWriteHeader 500] (new_recorder fresh_writer)) = 200"
proof -
  have "wSent fresh_writer = None" by (simp add: fresh_writer_def)
  from recorder_observes [OF this, of "[CallWrite ''hi'', CallWriteHeader 500]"] show ?thesis
    by (simp add: recorded_status_def fresh_writer_def Let_def)
qed

subsection \<open>Metrics and the access log\<close>

definition MetricsMW :: "'f::linordered_idom \<Rightarrow> ('f, 's) http_handler \<Rightarrow> ('f, 's) http_handler" where
  "MetricsMW elapsed next r n =
     (let n1 = n\<lparr>nCollectors := (nCollectors n)\<lparr>colInFlight := gauge_Inc [] (colInFlight (nCollectors n))\<rparr>\<rparr>;
          (m, panicked) = next r n1; c = nCollectors m;
          c' = c\<lparr>colInFlight := gauge_Dec [] (colInFlight c),
                colRequests := counter_Inc [rMethod r, itoa (recorded_status (nWriter m))] (colRequests c),
                colDuration := Observe elapsed [rMethod r] (colDuration c)\<rparr>
      in (m\<lparr>nCollectors := c'\<rparr>, panicked))"

definition redactedPaths :: "string list" where
  "redactedPaths = [''/__bumshi__/auth'']"

definition proxyPathPrefix :: string where
  "proxyPathPrefix = ''/p/''"

definition redactPath :: "string \<Rightarrow> string" where
  "redactPath path =
     (if List.member redactedPaths path then path @ '' (redacted)''
      else if has_prefix path proxyPathPrefix then proxyPathPrefix @ ''(redacted)''
      else path)"

definition AccessLog :: "('s \<Rightarrow> bool) option \<Rightarrow> ('f, 's) http_handler \<Rightarrow> ('f, 's) http_handler" where
  "AccessLog enabled next r n =
     (if (case enabled of None \<Rightarrow> True | Some f \<Rightarrow> \<not> f (nState n)) then next r n
      else
        let (m, panicked) = next r n in
        if panicked then (m, True)
        else (m\<lparr>nLog := nLog m @ [AccessLine
               \<lparr>alRequestID = rRequestID r, alMethod = rMethod r, alPath = redactPath (Path (rURL r)),
                alStatus = recorded_status (nWriter m), alBytes = recorded_bytes (nWriter n) (nWriter m)\<rparr>]\<rparr>, False))"

subsection \<open>Identifiers are safe to log\<close>

lemma hex_valid_chars: "is_digit c \<or> is_lower c \<Longrightarrow> is_alnum c"
  by (auto simp: is_alnum_def is_alpha_def)

lemma format_uint16_length: "n < 16 ^ k \<Longrightarrow> 0 < k \<Longrightarrow> length (format_uint 16 n) \<le> k"
proof (induction k arbitrary: n)
  case (Suc k)
  show ?case
  proof (cases "n < 16")
    case True
    then show ?thesis by (simp add: format_uint.simps [of 16 n])
  next
    case False
    then have k: "0 < k" using Suc.prems by (cases k) auto
    have "n div 16 < 16 ^ k" using Suc.prems(1) by (simp add: less_mult_imp_div_less mult.commute)
    from Suc.IH [OF this k] False show ?thesis by (simp add: format_uint.simps [of 16 n])
  qed
qed simp

lemma format_uint16_valid: "c \<in> set (format_uint 16 n) \<Longrightarrow> is_alnum c"
  using format_uint_chars [of 16 c n] digit_char_hex hex_valid_chars by auto

lemma newRequestID_valid:
  assumes "case rand of None \<Rightarrow> True | Some b \<Rightarrow> length b = 16"
  shows "validRequestID (newRequestID rand now)"
proof (cases rand)
  case None
  have "unat now < 16 ^ 16" using unsigned_less [of now] by simp
  then have "length (format_uint 16 (unat now)) \<le> 128" using format_uint16_length [of "unat now" 16] by simp
  with None show ?thesis by (auto simp: validRequestID_def newRequestID_def list_all_iff format_uint16_valid)
next
  case (Some b)
  then have len: "length (hex_EncodeToString b) = 32" using assms by simp
  then have "hex_EncodeToString b \<noteq> []" by (metis list.size(3) zero_neq_numeral)
  with Some len show ?thesis using hex_chars [of b] hex_valid_chars
    by (auto simp: validRequestID_def newRequestID_def list_all_iff simp del: length_hex)
qed

text \<open>
  The identifier that the handlers, the response and the log see is the client's when that is
  well-formed and a new one otherwise; either way it is short and made of letters, digits, \<open>-\<close> and
  \<open>_\<close>, so it cannot forge a line of the log.
\<close>

theorem request_id_valid:
  assumes "case rand of None \<Rightarrow> True | Some b \<Rightarrow> length b = 16"
  shows "\<exists>rid. validRequestID rid \<and>
    (if validRequestID (Get (rHeader r) ''X-Request-ID'') then rid = Get (rHeader r) ''X-Request-ID'' else rid = newRequestID rand now) \<and>
    RequestID rand now next r n = next (r\<lparr>rRequestID := rid\<rparr>) (set_header ''X-Request-ID'' rid n)"
  using newRequestID_valid [OF assms, of now] by (simp add: RequestID_def requestIDHeader_def Let_def)

definition sample_ctx :: "string \<Rightarrow> ctx_request" where
  "sample_ctx path = \<lparr>rMethod = ''GET'', rURL = empty_url\<lparr>Path := path\<rparr>, rHost = ''proxy.test'', rHeader = [],
     rRemoteAddr = ''203.0.113.9:5000'', rTLS = False, rContentLength = 0, rBody = [], rRequestID = []\<rparr>"

definition sample_conn :: "(int, unit) conn" where
  "sample_conn = \<lparr>nWriter = fresh_writer, nLog = [], nCollectors = NewHTTPCollectors [1, 5], nState = ()\<rparr>"

theorem request_id_valid_witness:
  "validRequestID (newRequestID None 255)"
proof -
  have "Get (rHeader (sample_ctx [])) ''X-Request-ID'' = []" by (simp add: sample_ctx_def Get_def Values_def hdr_values_def)
  with request_id_valid [of None "sample_ctx []" 255 "\<lambda>r n. (n, False)" sample_conn] show ?thesis
    by (auto simp: validRequestID_def)
qed

subsection \<open>The stack of the control plane\<close>

text \<open>The value of a series of a counter or gauge, 0 when it has none.\<close>

definition series :: "'f::zero vec \<Rightarrow> string list \<Rightarrow> 'f" where
  "series v ls = (case map_of (vValues v) (labelKey ls) of None \<Rightarrow> 0 | Some ch \<Rightarrow> chValue ch)"

lemma series_counter:
  "length ls = length (vLabels c) \<Longrightarrow> 0 \<le> delta \<Longrightarrow>
   series (counter_Add delta ls c) ks = (if labelKey ks = labelKey ls then series c ks + delta else series c ks)"
  by (auto simp: series_def counter_Add_def Let_def update_conv' split: option.split)

lemma series_gauge:
  "length ls = length (vLabels g) \<Longrightarrow>
   series (gauge_Add delta ls g) ks = (if labelKey ks = labelKey ls then series g ks + delta else series g ks)"
  by (auto simp: series_def gauge_Add_def gauge_mutate_def Let_def update_conv' split: option.split)

lemma gauge_labels [simp]: "vLabels (gauge_Add d ls g) = vLabels g"
  by (simp add: gauge_Add_def gauge_mutate_def Let_def)

definition collectors_ok :: "'f httpCollectors \<Rightarrow> bool" where
  "collectors_ok c \<longleftrightarrow> length (vLabels (colRequests c)) = 2 \<and> vLabels (colInFlight c) = []"

text \<open>\<open>SecurityHeaders\<close> and \<open>RequestID\<close> only stage headers; \<open>Recoverer\<close> only adds to response and log.\<close>

lemma set_header_collectors [simp]: "nCollectors (set_header k v n) = nCollectors n" "nLog (set_header k v n) = nLog n"
  "nState (set_header k v n) = nState n"
  by (simp_all add: set_header_def)

definition keeps_collectors :: "('f, 's) http_handler \<Rightarrow> bool" where
  "keeps_collectors h \<longleftrightarrow> (\<forall>r n. nCollectors (fst (h r n)) = nCollectors n)"

lemma keeps_middleware:
  "keeps_collectors h \<Longrightarrow> keeps_collectors (AccessLog enabled h)"
  "keeps_collectors h \<Longrightarrow> keeps_collectors (SecurityHeaders h)"
  "keeps_collectors h \<Longrightarrow> keeps_collectors (Recoverer h)"
  by (auto simp: keeps_collectors_def AccessLog_def SecurityHeaders_def Recoverer_def Let_def split: prod.splits option.splits)
    (metis fst_conv)+

definition control_plane :: "bytes option \<Rightarrow> 64 word \<Rightarrow> 'f::linordered_idom \<Rightarrow> ('s \<Rightarrow> bool) option \<Rightarrow> ('f, 's) http_handler \<Rightarrow> ('f, 's) http_handler" where
  "control_plane rand now elapsed enabled h =
     Chain h [RequestID rand now, MetricsMW elapsed, Recoverer, SecurityHeaders, AccessLog enabled]"

text \<open>
  C36.  Through the control plane's middleware, whatever the handler inside does, panicking included:
  the server survives, the in-flight gauge returns to its value, and exactly one series of the
  request counter, that of the method and of the status sent, goes up by one.
\<close>

theorem control_plane_counts:
  assumes "keeps_collectors h" "collectors_ok (nCollectors n)"
  shows "case control_plane rand now elapsed enabled h r n of (m, panicked) \<Rightarrow>
    \<not> panicked \<and> series (colInFlight (nCollectors m)) [] = series (colInFlight (nCollectors n)) [] \<and>
    series (colRequests (nCollectors m)) ks = series (colRequests (nCollectors n)) ks +
      (if labelKey ks = labelKey [rMethod r, itoa (recorded_status (nWriter m))] then 1 else 0)"
proof -
  let ?inner = "Recoverer (SecurityHeaders (AccessLog enabled h))"
  have keep: "keeps_collectors ?inner" by (intro keeps_middleware assms(1))
  have safe: "\<not> snd (?inner r n)" for r n by (simp add: Recoverer_def Let_def split: prod.splits)
  obtain rid n1 where cp: "control_plane rand now elapsed enabled h r n = MetricsMW elapsed ?inner (r\<lparr>rRequestID := rid\<rparr>) n1"
    and n1: "nCollectors n1 = nCollectors n"
    by (simp add: control_plane_def Chain_def RequestID_def Let_def)
  let ?n2 = "n1\<lparr>nCollectors := (nCollectors n1)\<lparr>colInFlight := gauge_Inc [] (colInFlight (nCollectors n1))\<rparr>\<rparr>"
  obtain m p where inner: "?inner (r\<lparr>rRequestID := rid\<rparr>) ?n2 = (m, p)" by fastforce
  have p: "\<not> p" using safe [of "r\<lparr>rRequestID := rid\<rparr>" ?n2] by (simp add: inner)
  have c: "nCollectors m = nCollectors ?n2"
    using keep inner unfolding keeps_collectors_def by (metis fst_conv)
  show ?thesis
    unfolding cp MetricsMW_def Let_def inner prod.case
    using p c n1 assms(2)
    by (simp add: collectors_ok_def gauge_Inc_def gauge_Dec_def counter_Inc_def series_gauge series_counter)
qed

theorem control_plane_counts_witness:
  "\<not> snd (control_plane None 7 (3 :: int) None (\<lambda>r n. (n, True)) (sample_ctx ''/x'') sample_conn)"
proof -
  have k: "keeps_collectors (\<lambda>r (n :: (int, unit) conn). (n, True))" by (simp add: keeps_collectors_def)
  have c: "collectors_ok (nCollectors sample_conn)"
    by (simp add: collectors_ok_def sample_conn_def NewHTTPCollectors_def NewVec_def)
  from control_plane_counts [OF k c, where rand = None and now = 7 and elapsed = 3 and enabled = None and r = "sample_ctx ''/x''"] show ?thesis
    by (simp add: case_prod_beta)
qed

text \<open>
  What a user browses does not reach the log.  With logging off the log is untouched; with it
  on, two requests that differ only in the target of a proxy link and are answered alike leave the
  same line.
\<close>

theorem access_log_hides_target:
  assumes "has_prefix (Path (rURL r)) ''/p/''" "has_prefix (Path (rURL s)) ''/p/''"
    "rRequestID r = rRequestID s" "rMethod r = rMethod s"
  shows "AccessLog None next r n = next r n \<and> AccessLog (Some (\<lambda>_. False)) next r n = next r n \<and>
    nLog (fst (AccessLog (Some (\<lambda>_. True)) (\<lambda>_. next r) r n)) = nLog (fst (AccessLog (Some (\<lambda>_. True)) (\<lambda>_. next r) s n))"
proof -
  have "redactPath p = ''/p/(redacted)''" if "has_prefix p ''/p/''" for p
  proof -
    have "p \<notin> set redactedPaths" using that by (auto simp: redactedPaths_def prefix_def)
    then show ?thesis using that by (simp add: redactPath_def proxyPathPrefix_def)
  qed
  then show ?thesis using assms by (simp add: AccessLog_def Let_def split: prod.split)
qed

theorem access_log_hides_target_witness:
  "nLog (fst (AccessLog (Some (\<lambda>_. True)) (\<lambda>_ n. (n, False)) (sample_ctx ''/p/aaaa'') sample_conn)) =
   nLog (fst (AccessLog (Some (\<lambda>_. True)) (\<lambda>_ n. (n, False)) (sample_ctx ''/p/bbbb'') sample_conn))"
  using access_log_hides_target [of "sample_ctx ''/p/aaaa''" "sample_ctx ''/p/bbbb''" "\<lambda>_ n. (n, False)" sample_conn]
  by (simp add: sample_ctx_def)

text \<open>A doubled slash in front gets past the redaction, although the router takes it for the same path.\<close>

theorem doubled_slash_logged: "redactPath ''//p/aHR0cHM6Ly94'' = ''//p/aHR0cHM6Ly94''"
  by code_simp

end
