(* ===== verification/Server.thy ===== *)
theory Server
  imports Admin Httpx Config Fetch Webengine Proxy_Handler
begin

section \<open>The composed service (internal/server)\<close>

text \<open>
  \<open>server.New\<close> builds the handlers from the configuration and shares one set of live switches and one
  roster between the proxy, which reads them, and the panel, which changes them.  \<open>service\<close> is that
  shared state with the readiness flag and a record of what left through the proxy; it is the state
  that passes through the middleware.  \<open>library\<close> holds the library functions the handlers are built
  from and \<open>surroundings\<close> what one request finds around it.
\<close>

record library =
  lbClient :: "client \<Rightarrow> request \<Rightarrow> fetch_error + response"
  lbLower :: "nat \<Rightarrow> nat"
  lbRuntime :: "string \<Rightarrow> bytes option"
  lbServeContent :: "request \<Rightarrow> string \<Rightarrow> bytes \<Rightarrow> writer \<Rightarrow> writer"
  lbHmac :: "bytes \<Rightarrow> bytes \<Rightarrow> bytes"
  lbTime :: "int \<Rightarrow> string"
  lbPrintable :: "nat \<Rightarrow> bool"
  lbPages :: "string \<Rightarrow> bytes option"
  lbBuild :: build_info

record surroundings =
  suNow :: int
  suWorld :: world
  suPanel :: panel_env
  suRandom :: "bytes option"
  suClock :: "64 word"

record service =
  sePanel :: panel
  seChecker :: checker
  seOutcomes :: "string list"
  seSent :: "request list"
  seDials :: "(string \<times> string \<times> string option) list"

subsection \<open>Paths and names\<close>

text \<open>\<open>filepath.Clean\<close>, \<open>Dir\<close> and \<open>Join\<close> of Unix.\<close>

fun relative_step :: "string \<Rightarrow> string list \<Rightarrow> string list" where
  "relative_step seg out =
     (if seg = [] \<or> seg = ''.'' then out
      else if seg = ''..'' \<and> out \<noteq> [] \<and> hd out \<noteq> ''..'' then tl out else seg # out)"

definition filepath_Clean :: "string \<Rightarrow> string" where
  "filepath_Clean p =
     (if has_prefix p ''/'' then path_Clean p
      else let q = join ''/'' (rev (fold relative_step (split_byte CHR ''/'' p) [])) in if q = [] then ''.'' else q)"

definition filepath_Dir :: "string \<Rightarrow> string" where
  "filepath_Dir p = filepath_Clean (rev (dropWhile (\<lambda>c. c \<noteq> CHR ''/'') (rev p)))"

definition filepath_Join :: "string \<Rightarrow> string \<Rightarrow> string" where
  "filepath_Join a b =
     (if a \<noteq> [] then filepath_Clean (a @ ''/'' @ b) else if b \<noteq> [] then filepath_Clean b else [])"

definition settingsPath :: "string \<Rightarrow> string" where
  "settingsPath accessStorePath =
     (if accessStorePath = [] then [] else filepath_Join (filepath_Dir accessStorePath) ''settings.json'')"

definition selfHosts :: "string \<Rightarrow> string list" where
  "selfHosts publicURL =
     (let raw0 = trim_space publicURL in
      if raw0 = [] then []
      else let raw = (if contains_str raw0 ''://'' then raw0 else ''https://'' @ raw0) in
        case url_Parse raw of None \<Rightarrow> [] | Some u \<Rightarrow> if Hostname u = [] then [] else [Hostname u])"

text \<open>\<open>net.ParseIP\<close> refuses a zone and unmaps.\<close>

definition isLoopbackPeer :: "string \<Rightarrow> bool" where
  "isLoopbackPeer peer =
     (case ParseAddr peer of
        None \<Rightarrow> False
      | Some a \<Rightarrow> (case a of V6 _ zone \<Rightarrow> zone = [] | _ \<Rightarrow> True) \<and> IsLoopback (Unmap a))"

subsection \<open>Building the handlers\<close>

type_synonym gate_state = "int \<times> panel"

definition proxy_options :: "library \<Rightarrow> config \<Rightarrow> gate_state options" where
  "proxy_options lb cfg =
     \<lparr>oClient = lbClient lb (NewClient (nat (cfProxyResponseHeaderTimeout cfg)) (cfProxyForceIPv4 cfg)),
      oCollectors = True, oRewriteMaxBytes = cfProxyRewriteMaxBytes cfg, oInjectHTML = Some (Inject (lbLower lb)),
      oEnabled = Some (\<lambda>(_, p). stProxyEnabled (pnSettings p)), oForceIPv4 = cfProxyForceIPv4 cfg,
      oRequireToken = cfProxyRequireToken cfg, oAuthorized = Some (\<lambda>(now, p). Authorized now (pnAccess p)),
      oSecureCookies = IsProduction cfg, oSelfHosts = selfHosts (cfPublicURL cfg),
      oLogUpstreamHost = cfLogUpstreamHost cfg, oBlockTelemetry = None\<rparr>"

definition buildProxy :: "library \<Rightarrow> config \<Rightarrow> gate_state handler option" where
  "buildProxy lb cfg =
     (if \<not> cfProxyEnabled cfg \<and> \<not> cfAdminEnabled cfg then None else Some (proxy_New (proxy_options lb cfg)))"

datatype start_log = RosterUnreadable io_error | NoPasswordHash | BadPasswordHash auth_error

definition panel_options :: "library \<Rightarrow> config \<Rightarrow> int \<Rightarrow> panel_config" where
  "panel_options lb cfg now =
     \<lparr>pcBasePath = cfAdminPath cfg, pcUsername = cfAdminUsername cfg, pcPasswordHash = cfAdminPasswordHash cfg,
      pcPublicURL = cfPublicURL cfg, pcStartedAt = now, pcTrustedProxy = Some isLoopbackPeer, pcHmac = lbHmac lb,
      pcTime = lbTime lb, pcPrintable = lbPrintable lb, pcAsset = lbPages lb, pcBuild = lbBuild lb\<rparr>"

definition buildAdmin :: "library \<Rightarrow> config \<Rightarrow> int \<Rightarrow> start_log list \<times> panel_config option" where
  "buildAdmin lb cfg now =
     (if \<not> cfAdminEnabled cfg then ([], None)
      else if cfAdminPasswordHash cfg = [] then ([NoPasswordHash], None)
      else case VerifyPassword (lbHmac lb) (cfAdminPasswordHash cfg) [] of
          Inl err \<Rightarrow> ([BadPasswordHash err], None)
        | Inr _ \<Rightarrow> ([], Some (panel_options lb cfg now)))"

subsection \<open>Routes\<close>

datatype main_route = MLive | MReady | MVersion | MProxy | MEngine | MAuth

definition main_patterns :: "bool \<Rightarrow> bool \<Rightarrow> bool \<Rightarrow> (string \<times> main_route) list" where
  "main_patterns proxy engine endpoint =
     [(''GET /healthz'', MLive), (''GET /readyz'', MReady), (''GET /version'', MVersion)] @
     (if proxy then [(link_Prefix, MProxy)] else []) @ (if engine then [(engine_Prefix, MEngine)] else []) @
     (if endpoint then [(''GET '' @ AuthPath, MAuth)] else [])"

datatype admin_route = APanel | ARoot

definition admin_patterns :: "string \<Rightarrow> (string \<times> admin_route) list" where
  "admin_patterns adminPath = [(adminPath, APanel), (''GET /{$}'', ARoot)]"

record listener =
  lsAddr :: string
  lsReadTimeout :: int
  lsReadHeaderTimeout :: int
  lsWriteTimeout :: int
  lsIdleTimeout :: int

definition timed_listener :: "config \<Rightarrow> string \<Rightarrow> listener" where
  "timed_listener cfg addr =
     \<lparr>lsAddr = addr, lsReadTimeout = cfReadTimeout cfg, lsReadHeaderTimeout = cfReadHeaderTimeout cfg,
      lsWriteTimeout = cfWriteTimeout cfg, lsIdleTimeout = cfIdleTimeout cfg\<rparr>"

record admin_server =
  asConfig :: panel_config
  asPanelRoutes :: "panel_route route list"
  asRoutes :: "admin_route route list"
  asListener :: listener

record server =
  srConfig :: config
  srLibrary :: library
  srProxy :: "gate_state handler option"
  srRoutes :: "main_route route list"
  srMain :: listener
  srMetrics :: listener
  srAdmin :: "admin_server option"
  srLog :: "start_log list"

text \<open>\<open>None\<close> is the panic of a route that cannot be registered.\<close>

definition admin_listener :: "config \<Rightarrow> panel_config option \<Rightarrow> admin_server option option" where
  "admin_listener cfg panel =
     (case panel of
        None \<Rightarrow> Some None
      | Some pc \<Rightarrow>
          (case admin_New pc of
             None \<Rightarrow> None
           | Some inner \<Rightarrow>
               (case register_all (admin_patterns (cfAdminPath cfg)) of
                  None \<Rightarrow> None
                | Some outer \<Rightarrow>
                    Some (Some \<lparr>asConfig = pc, asPanelRoutes = inner, asRoutes = outer,
                      asListener = timed_listener cfg (cfAdminAddr cfg)\<rparr>))))"

definition server_New :: "library \<Rightarrow> config \<Rightarrow> bool \<times> bool \<Rightarrow> int \<Rightarrow> disk \<Rightarrow> (server \<times> service) option" where
  "server_New lb cfg = (\<lambda>(wok, rok) now d.
     let (live, d) = Persist wok rok (settingsPath (cfAccessStorePath cfg)) (settings_New (cfProxyEnabled cfg) (cfAccessLog cfg), d);
         (log1, access) = (case NewAccessStore d (cfAccessStorePath cfg) of
             Inl err \<Rightarrow> ([RosterUnreadable err], \<lparr>asUsers = [], asPath = []\<rparr>) | Inr s \<Rightarrow> ([], s));
         proxy = buildProxy lb cfg; mounted = (proxy \<noteq> None); (log2, panel) = buildAdmin lb cfg now
     in case register_all (main_patterns mounted mounted mounted) of
          None \<Rightarrow> None
        | Some routes \<Rightarrow>
            (case admin_listener cfg panel of
               None \<Rightarrow> None
             | Some adminSrv \<Rightarrow>
                 Some (\<lparr>srConfig = cfg, srLibrary = lb, srProxy = proxy, srRoutes = routes,
                         srMain = timed_listener cfg (cfListenAddr cfg),
                         srMetrics = \<lparr>lsAddr = cfMetricsAddr cfg, lsReadTimeout = 0, lsReadHeaderTimeout = cfReadHeaderTimeout cfg,
                           lsWriteTimeout = 0, lsIdleTimeout = 0\<rparr>,
                         srAdmin = adminSrv, srLog = log1 @ log2\<rparr>,
                       \<lparr>sePanel = \<lparr>pnSettings = live, pnSessions = NewSessionStore AdminSessionTTL,
                           pnLogins = NewRateLimiter 10 (60 * 10 ^ 9), pnAccess = access, pnDisk = d, pnLog = []\<rparr>,
                         seChecker = health_New, seOutcomes = [], seSent = [], seDials = []\<rparr>)))"

subsection \<open>The listeners\<close>

definition on_response :: "(writer \<Rightarrow> writer) \<Rightarrow> ('f, 's) conn \<Rightarrow> ('f, 's) conn \<times> bool" where
  "on_response f n = (n\<lparr>nWriter := f (nWriter n)\<rparr>, False)"

text \<open>The proxy handler on a connection: what it sends, dials and counts is added to the service's record.\<close>

definition run_proxy :: "gate_state handler \<Rightarrow> surroundings \<Rightarrow> request \<Rightarrow> ('f, service) conn \<Rightarrow> ('f, service) conn \<times> bool" where
  "run_proxy h e r n =
     (let s = nState n; x = proxy_ServeHTTP h (suNow e, sePanel s) (suWorld e) r (exchange_of (nWriter n)) in
      (n\<lparr>nWriter := xWriter x,
         nState := s\<lparr>seOutcomes := seOutcomes s @ xCounts x, seSent := seSent s @ xSent x, seDials := seDials s @ xDials x\<rparr>\<rparr>,
       xPanic x))"

definition main_dispatch :: "server \<Rightarrow> surroundings \<Rightarrow> ('f, service) http_handler" where
  "main_dispatch sv e r n =
     (let q = request.truncate r; lb = srLibrary sv; ck = seChecker (nState n) in
      case mux_find (srRoutes sv) q of
        MuxHandler route _ \<Rightarrow>
          (case route of
             MLive \<Rightarrow> on_response (health_Live ck) n
           | MReady \<Rightarrow> on_response (health_Ready ck) n
           | MVersion \<Rightarrow> on_response (handleVersion (lbBuild lb)) n
           | MProxy \<Rightarrow> (case srProxy sv of None \<Rightarrow> (n, True) | Some h \<Rightarrow> run_proxy h e q n)
           | MEngine \<Rightarrow> on_response (engine_Handler (lbRuntime lb) (lbServeContent lb) q) n
           | MAuth \<Rightarrow> on_response (AuthHandler (IsProduction (srConfig sv)) q) n)
      | m \<Rightarrow> on_response (mux_answer m q) n)"

definition serve_main :: "server \<Rightarrow> surroundings \<Rightarrow> 'f::linordered_idom \<Rightarrow> ('f, service) http_handler" where
  "serve_main sv e elapsed =
     control_plane (suRandom e) (suClock e) elapsed (Some (\<lambda>s. stAccessLog (pnSettings (sePanel s)))) (main_dispatch sv e)"

definition admin_dispatch :: "admin_server \<Rightarrow> surroundings \<Rightarrow> ('f, service) http_handler" where
  "admin_dispatch a e r n =
     (let q = request.truncate r; s = nState n in
      case mux_find (asRoutes a) q of
        MuxHandler APanel _ \<Rightarrow>
          (let (p, w) = panel_ServeHTTP (asConfig a) (asPanelRoutes a) (suPanel e) q (sePanel s) (nWriter n)
           in (n\<lparr>nWriter := w, nState := s\<lparr>sePanel := p\<rparr>\<rparr>, False))
      | MuxHandler ARoot _ \<Rightarrow> on_response (http_Redirect q (pcBasePath (asConfig a)) 303) n
      | m \<Rightarrow> on_response (mux_answer m q) n)"

definition serve_admin :: "admin_server \<Rightarrow> surroundings \<Rightarrow> ('f, service) http_handler" where
  "serve_admin a e = Chain (admin_dispatch a e) [RequestID (suRandom e) (suClock e), Recoverer, SecurityHeaders]"

definition metrics_dispatch :: "('f \<Rightarrow> string) \<Rightarrow> 'f vector list \<Rightarrow> request \<Rightarrow> writer \<Rightarrow> writer" where
  "metrics_dispatch fmt vecs r w =
     (case register_all [(''GET /metrics'', ())] of
        None \<Rightarrow> w
      | Some routes \<Rightarrow>
          (case mux_find routes r of MuxHandler _ _ \<Rightarrow> registry_Handler fmt vecs w | m \<Rightarrow> mux_answer m r w))"

text \<open>A library for examples.\<close>

definition sample_library :: library where
  "sample_library = \<lparr>lbClient = (\<lambda>_ _. Inr \<lparr>sStatus = 204, sHeader = [], sUncompressed = False, sBody = \<lparr>sData = [], sFailed = False\<rparr>\<rparr>),
     lbLower = (\<lambda>c. c), lbRuntime = (\<lambda>_. None), lbServeContent = (\<lambda>_ _ _ w. w), lbHmac = toy_hmac,
     lbTime = (\<lambda>_. ''2026-01-01T00:00:00Z''), lbPrintable = (\<lambda>_. True), lbPages = (\<lambda>_. None),
     lbBuild = version_Get (\<lambda>_. None) (''go1.25'', ''linux'', ''amd64'')\<rparr>"

end
