(* ===== verification/Server_Flow.thy ===== *)
theory Server_Flow
  imports Server Admin_Panel
begin

section \<open>What the composed service guarantees\<close>

text \<open>
  Theorems on requests to the whole service, through the middleware and the multiplexers: the two
  listeners do not reach into each other, nothing leaves unless the live switch and the roster allow
  it, and without the password nobody changes either.
\<close>

subsection \<open>Through the middleware\<close>

lemma conn_state_updates [simp]:
  "nState (set_header k v n) = nState n" "nState (fst (on_response f n)) = nState n"
  by (simp_all add: on_response_def)

lemma Recoverer_state: "nState (fst (Recoverer next r n)) = nState (fst (next r n))"
  by (simp add: Recoverer_def Let_def split: prod.splits)

lemma SecurityHeaders_next:
  obtains m where "SecurityHeaders next r n = next r m" "nState m = nState n" "wSent (nWriter m) = wSent (nWriter n)"
proof -
  show thesis by (rule that [OF SecurityHeaders_def]) (simp_all add: set_header_def)
qed

lemma RequestID_next:
  obtains rid m where "RequestID rand now next r n = next (r\<lparr>rRequestID := rid\<rparr>) m" "nState m = nState n"
    "wSent (nWriter m) = wSent (nWriter n)"
proof -
  show thesis by (rule that [OF RequestID_def [unfolded Let_def]]) (simp_all add: set_header_def)
qed

lemma AccessLog_state: "nState (fst (AccessLog enabled next r n)) = nState (fst (next r n))"
  by (simp add: AccessLog_def Let_def split: prod.splits option.splits)

lemma MetricsMW_next:
  obtains m where "nState (fst (MetricsMW elapsed next r n)) = nState (fst (next r m))" "nState m = nState n"
  by (rule that [of "n\<lparr>nCollectors := (nCollectors n)\<lparr>colInFlight := gauge_Inc [] (colInFlight (nCollectors n))\<rparr>\<rparr>"])
    (simp_all add: MetricsMW_def Let_def split: prod.splits)

lemma truncate_id [simp]: "request.truncate (r\<lparr>rRequestID := rid\<rparr>) = request.truncate r"
  by (simp add: request.truncate_def)

lemma serve_main_state:
  fixes elapsed :: "'f::linordered_idom"
  obtains rid and m :: "('f, service) conn" where "nState (fst (serve_main sv e elapsed r n)) = nState (fst (main_dispatch sv e (r\<lparr>rRequestID := rid\<rparr>) m))"
    "nState m = nState n"
proof -
  define log where "log = AccessLog (Some (\<lambda>s. stAccessLog (pnSettings (sePanel s)))) (main_dispatch sv e :: ('f, service) http_handler)"
  have serve: "serve_main sv e elapsed r n =
      RequestID (suRandom e) (suClock e) (MetricsMW elapsed (Recoverer (SecurityHeaders log))) r n"
    by (simp add: serve_main_def control_plane_def Chain_def log_def)
  obtain rid m1 where 1: "serve_main sv e elapsed r n = MetricsMW elapsed (Recoverer (SecurityHeaders log)) (r\<lparr>rRequestID := rid\<rparr>) m1"
    "nState m1 = nState n"
    unfolding serve by (rule RequestID_next)
  obtain m2 where 2: "nState (fst (serve_main sv e elapsed r n)) = nState (fst (SecurityHeaders log (r\<lparr>rRequestID := rid\<rparr>) m2))"
    "nState m2 = nState n"
    unfolding 1(1) by (rule MetricsMW_next [of elapsed "Recoverer (SecurityHeaders log)" "r\<lparr>rRequestID := rid\<rparr>" m1])
      (simp add: Recoverer_state 1(2))
  obtain m3 where 3: "SecurityHeaders log (r\<lparr>rRequestID := rid\<rparr>) m2 = log (r\<lparr>rRequestID := rid\<rparr>) m3" "nState m3 = nState m2"
    by (rule SecurityHeaders_next)
  have "nState (fst (log r m)) = nState (fst (main_dispatch sv e r m))" for r m by (simp add: log_def AccessLog_state)
  then show thesis by (intro that [of rid m3]) (simp_all add: 2 3)
qed

lemma serve_admin_next:
  obtains rid m where "serve_admin a e r n = Recoverer (admin_dispatch a e) (r\<lparr>rRequestID := rid\<rparr>) m"
    "nState m = nState n" "wSent (nWriter m) = wSent (nWriter n)"
proof -
  have serve: "serve_admin a e r n = RequestID (suRandom e) (suClock e) (Recoverer (SecurityHeaders (admin_dispatch a e))) r n"
    by (simp add: serve_admin_def Chain_def)
  obtain rid m1 where 1: "serve_admin a e r n = Recoverer (SecurityHeaders (admin_dispatch a e)) (r\<lparr>rRequestID := rid\<rparr>) m1"
    "nState m1 = nState n" "wSent (nWriter m1) = wSent (nWriter n)"
    unfolding serve by (rule RequestID_next)
  obtain m2 where 2: "SecurityHeaders (admin_dispatch a e) (r\<lparr>rRequestID := rid\<rparr>) m1 = admin_dispatch a e (r\<lparr>rRequestID := rid\<rparr>) m2"
    "nState m2 = nState m1" "wSent (nWriter m2) = wSent (nWriter m1)"
    by (rule SecurityHeaders_next)
  show thesis by (rule that [of rid m2]) (simp_all add: 1 2 Recoverer_def)
qed

subsection \<open>The listeners are isolated\<close>

lemma run_proxy_state:
  "sePanel (nState (fst (run_proxy h e r n))) = sePanel (nState n)" "seChecker (nState (fst (run_proxy h e r n))) = seChecker (nState n)"
  by (simp_all add: run_proxy_def Let_def)

lemma main_dispatch_cases:
  obtains "nState (fst (main_dispatch sv e r n)) = nState n"
  | h where "srProxy sv = Some h" "main_dispatch sv e r n = run_proxy h e (request.truncate r) n"
proof (cases "mux_find (srRoutes sv) (request.truncate r)")
  case (MuxHandler route bound)
  show ?thesis
  proof (cases "route = MProxy")
    case True
    with MuxHandler have d: "main_dispatch sv e r n =
        (case srProxy sv of None \<Rightarrow> (n, True) | Some h \<Rightarrow> run_proxy h e (request.truncate r) n)"
      by (simp only: main_dispatch_def Let_def mux_result.case main_route.case)
    show ?thesis
    proof (cases "srProxy sv")
      case None
      with d have "nState (fst (main_dispatch sv e r n)) = nState n" by (simp only: option.case fst_conv)
      then show ?thesis by (rule that(1))
    next
      case (Some h)
      with d have "main_dispatch sv e r n = run_proxy h e (request.truncate r) n" by (simp only: option.case)
      with Some show ?thesis by (rule that(2))
    qed
  next
    case False
    with MuxHandler have "nState (fst (main_dispatch sv e r n)) = nState n" by (cases route) (simp_all add: main_dispatch_def Let_def)
    then show ?thesis by (rule that(1))
  qed
qed (use that(1) in \<open>simp_all add: main_dispatch_def Let_def\<close>)

lemma run_proxy_gate:
  assumes "stProxyEnabled (pnSettings (sePanel (nState n))) \<longrightarrow> cfProxyRequireToken cfg \<and>
    \<not> Authorized (suNow e) (pnAccess (sePanel (nState n))) (accessToken r)"
  shows "seSent (nState (fst (run_proxy (proxy_New (proxy_options lb cfg)) e r n))) = seSent (nState n) \<and>
    seDials (nState (fst (run_proxy (proxy_New (proxy_options lb cfg)) e r n))) = seDials (nState n)"
  using assms by (auto simp: run_proxy_def Let_def proxy_ServeHTTP_def proxy_New_def proxy_options_def refuse_def)

text \<open>What a request on the control plane may have sent or dialled.\<close>

definition relayed :: "service \<Rightarrow> service \<Rightarrow> bool" where
  "relayed s t \<longleftrightarrow> seSent t \<noteq> seSent s \<or> seDials t \<noteq> seDials s"

lemma server_New_parts:
  assumes "server_New lb cfg acc now d = Some (sv, s0)"
  shows "srProxy sv = buildProxy lb cfg" "srLibrary sv = lb" "srConfig sv = cfg"
    "srAdmin sv = Some a \<Longrightarrow> asConfig a = panel_options lb cfg now"
    "pnSessions (sePanel s0) = NewSessionStore AdminSessionTTL" "seSent s0 = []" "seDials s0 = []"
  using assms
  by (auto simp: server_New_def Let_def admin_listener_def buildAdmin_def split: prod.splits option.splits sum.splits if_splits)

lemma main_gate:
  fixes elapsed :: "'f::linordered_idom"
  assumes built: "srProxy sv = buildProxy lb cfg"
    and shut: "stProxyEnabled (pnSettings (sePanel (nState n))) \<longrightarrow> cfProxyRequireToken cfg \<and>
      \<not> Authorized (suNow e) (pnAccess (sePanel (nState n))) (accessToken (request.truncate r))"
  shows "\<not> relayed (nState n) (nState (fst (serve_main sv e elapsed r n)))"
proof -
  obtain rid and m :: "('f, service) conn" where m: "nState (fst (serve_main sv e elapsed r n)) = nState (fst (main_dispatch sv e (r\<lparr>rRequestID := rid\<rparr>) m))"
    "nState m = nState n" by (rule serve_main_state)
  show ?thesis
  proof (cases rule: main_dispatch_cases [of sv e "r\<lparr>rRequestID := rid\<rparr>" m])
    case 1
    then show ?thesis by (simp add: m relayed_def)
  next
    case (2 h)
    have "h = proxy_New (proxy_options lb cfg)"
      using 2(1) built by (simp add: buildProxy_def split: if_splits)
    with 2(2) run_proxy_gate [of m cfg e "request.truncate r" lb] shut show ?thesis by (simp add: m relayed_def)
  qed
qed

text \<open>
  C2.  A request on the public listener causes traffic to a target only when the panel's live switch is
  on and, with tokens required, the request carries a token that the shared roster authorises at that
  moment.
\<close>

theorem relay_gate:
  assumes "server_New lb cfg acc now d = Some (sv, s0)" and "relayed (nState n) (nState (fst (serve_main sv e elapsed r n)))"
  shows "stProxyEnabled (pnSettings (sePanel (nState n))) \<and>
    (cfProxyRequireToken cfg \<longrightarrow> Authorized (suNow e) (pnAccess (sePanel (nState n))) (accessToken (request.truncate r)))"
  using main_gate [OF server_New_parts(1) [OF assms(1)], of n e r elapsed] assms(2) by blast

lemma main_isolated:
  fixes elapsed :: "'f::linordered_idom"
  shows "sePanel (nState (fst (serve_main sv e elapsed r n))) = sePanel (nState n) \<and>
   seChecker (nState (fst (serve_main sv e elapsed r n))) = seChecker (nState n)"
proof -
  obtain rid and m :: "('f, service) conn" where m: "nState (fst (serve_main sv e elapsed r n)) = nState (fst (main_dispatch sv e (r\<lparr>rRequestID := rid\<rparr>) m))"
    "nState m = nState n" by (rule serve_main_state)
  have "sePanel (nState (fst (main_dispatch sv e r m))) = sePanel (nState m) \<and>
    seChecker (nState (fst (main_dispatch sv e r m))) = seChecker (nState m)" for r
    by (rule main_dispatch_cases [of sv e r m]) (simp_all add: run_proxy_state)
  then show ?thesis by (simp add: m)
qed

lemma admin_isolated: "\<not> relayed (nState n) (nState (fst (serve_admin a e r n)))"
proof -
  obtain rid m where a: "serve_admin a e r n = Recoverer (admin_dispatch a e) (r\<lparr>rRequestID := rid\<rparr>) m" "nState m = nState n"
    by (rule serve_admin_next)
  have "seSent (nState (fst (admin_dispatch a e r m))) = seSent (nState m) \<and>
      seDials (nState (fst (admin_dispatch a e r m))) = seDials (nState m)" for r
    by (simp add: admin_dispatch_def Let_def split: mux_result.split admin_route.split prod.split)
  then show ?thesis by (simp add: a Recoverer_state relayed_def)
qed

text \<open>
  C16.  Nothing that reaches the public listener touches what the panel holds, nor the readiness flag, and
  nothing that reaches the panel's listener sends or dials anything.
\<close>

theorem listeners_isolated:
  "sePanel (nState (fst (serve_main sv e elapsed r n))) = sePanel (nState n) \<and>
   seChecker (nState (fst (serve_main sv e elapsed r n))) = seChecker (nState n) \<and>
   \<not> relayed (nState m) (nState (fst (serve_admin a e' r' m)))"
  using main_isolated admin_isolated by blast

subsection \<open>Without the password\<close>

text \<open>The request that \<open>handleLogin\<close> lets in.\<close>

definition right_password :: "panel_config \<Rightarrow> request \<Rightarrow> bool" where
  "right_password h r \<longleftrightarrow>
     (let (body, decoded) = json_Decode login_fields False (take maxBodyBytes (rBody r)) \<lparr>crUsername = [], crPassword = []\<rparr>
      in decoded \<and> crUsername body = pcUsername h \<and> VerifyPassword (pcHmac h) (pcPasswordHash h) (crPassword body) = Inr True)"

abbreviation no_session :: "panel \<Rightarrow> bool" where
  "no_session s \<equiv> ssByToken (pnSessions s) = []"

lemma no_session_current: "no_session s \<Longrightarrow> currentSession e r s = (None, s)"
  by (cases s) (simp add: currentSession_def session_Get_def split: option.split)

lemma refused_login:
  "no_session s \<Longrightarrow> \<not> right_password h r \<Longrightarrow> no_session (fst (handleLogin h e r s w))"
  by (auto simp: handleLogin_def right_password_def Let_def add_log_def ConstantTimeCompare_eq split: prod.splits sum.splits if_splits)

lemma quiet_panel:
  assumes "no_session s" "\<not> right_password h r"
  shows "guarded (fst (panel_ServeHTTP h routes e r s w)) = guarded s \<and> no_session (fst (panel_ServeHTTP h routes e r s w))"
proof (cases "mux_find routes r")
  case (MuxHandler rt bound)
  then have run: "panel_ServeHTTP h routes e r s w = panel_run h rt bound e r s w" by (simp add: panel_ServeHTTP_def)
  show ?thesis
  proof (cases "rt = RLogin")
    case True
    with assms run refused_login [OF assms] show ?thesis by (simp add: panel_frames)
  next
    case False
    have "fst (panel_run h rt bound e r s w) = s"
      using stranger_run(2) [of e r s s rt h bound w] False no_session_current [OF assms(1)] by simp
    with assms(1) run show ?thesis by simp
  qed
qed (simp_all add: panel_ServeHTTP_def assms)

text \<open>A run of requests to both listeners, in any order; the collectors and the log are left aside.\<close>

datatype event = OnMain surroundings ctx_request | OnAdmin surroundings ctx_request

definition new_conn :: "service \<Rightarrow> (int, service) conn" where
  "new_conn s = \<lparr>nWriter = fresh_writer, nLog = [], nCollectors = NewHTTPCollectors [], nState = s\<rparr>"

fun deliver :: "server \<Rightarrow> event \<Rightarrow> service \<Rightarrow> service" where
  "deliver sv (OnMain e r) s = nState (fst (serve_main sv e (0 :: int) r (new_conn s)))"
| "deliver sv (OnAdmin e r) s =
     (case srAdmin sv of None \<Rightarrow> s | Some a \<Rightarrow> nState (fst (serve_admin a e r (new_conn s))))"

fun wrong_password :: "panel_config \<Rightarrow> event \<Rightarrow> bool" where
  "wrong_password h (OnMain e r) = True"
| "wrong_password h (OnAdmin e r) = (\<not> right_password h (request.truncate r))"

lemma new_conn_state [simp]: "nState (new_conn s) = s"
  by (simp add: new_conn_def)

lemma quiet_admin:
  assumes "no_session (sePanel (nState n))" "\<not> right_password (asConfig a) (request.truncate r)"
  shows "guarded (sePanel (nState (fst (serve_admin a e r n)))) = guarded (sePanel (nState n))"
    "no_session (sePanel (nState (fst (serve_admin a e r n))))"
proof -
  obtain rid m where a: "serve_admin a e r n = Recoverer (admin_dispatch a e) (r\<lparr>rRequestID := rid\<rparr>) m" "nState m = nState n"
    by (rule serve_admin_next)
  have "guarded (sePanel (nState (fst (admin_dispatch a e (r\<lparr>rRequestID := rid\<rparr>) m)))) = guarded (sePanel (nState m)) \<and>
    no_session (sePanel (nState (fst (admin_dispatch a e (r\<lparr>rRequestID := rid\<rparr>) m))))"
    using quiet_panel [of "sePanel (nState m)" "asConfig a" "request.truncate r"] assms a(2)
    by (auto simp: admin_dispatch_def Let_def split: mux_result.split admin_route.split prod.split) (metis fst_conv)+
  then show "guarded (sePanel (nState (fst (serve_admin a e r n)))) = guarded (sePanel (nState n))"
    "no_session (sePanel (nState (fst (serve_admin a e r n))))"
    by (simp_all add: a Recoverer_state)
qed

text \<open>
  C1.  From its start, through any requests to both listeners in any order, as long as no request to
  the panel carries the right user name and password, the live switches and the roster stay as they
  are, in memory and on disk, and a proxy that starts switched off never sends or dials anything.
\<close>

theorem nothing_without_password:
  assumes "server_New lb cfg acc now d = Some (sv, s0)" and "list_all (wrong_password (panel_options lb cfg now)) evs"
  shows "guarded (sePanel (fold (deliver sv) evs s0)) = guarded (sePanel s0) \<and>
    (if stProxyEnabled (pnSettings (sePanel s0)) then True
     else seSent (fold (deliver sv) evs s0) = [] \<and> seDials (fold (deliver sv) evs s0) = [])"
proof -
  have step: "guarded (sePanel (deliver sv ev s)) = guarded (sePanel s) \<and> no_session (sePanel (deliver sv ev s)) \<and>
      (stProxyEnabled (pnSettings (sePanel s)) \<or> \<not> relayed s (deliver sv ev s))"
    if "wrong_password (panel_options lb cfg now) ev" "no_session (sePanel s)" for ev s
  proof (cases ev)
    case (OnMain e r)
    then show ?thesis
      using main_isolated [of sv e 0 r "new_conn s"] main_gate [OF server_New_parts(1) [OF assms(1)], of "new_conn s" e r 0] that(2) by auto
  next
    case (OnAdmin e r)
    show ?thesis
    proof (cases "srAdmin sv")
      case None
      with OnAdmin that(2) show ?thesis by (simp add: relayed_def)
    next
      case (Some a)
      with server_New_parts(4) [OF assms(1)] have "asConfig a = panel_options lb cfg now" by blast
      with OnAdmin Some that quiet_admin [of "new_conn s" a r e] admin_isolated [of "new_conn s" a e r]
      show ?thesis by simp
    qed
  qed
  have "guarded (sePanel (fold (deliver sv) evs s)) = guarded (sePanel s) \<and>
      (stProxyEnabled (pnSettings (sePanel s)) \<or> \<not> relayed s (fold (deliver sv) evs s))"
    if "no_session (sePanel s)" for s
    using assms(2) that
  proof (induction evs arbitrary: s)
    case (Cons ev evs)
    have ev: "wrong_password (panel_options lb cfg now) ev" "list_all (wrong_password (panel_options lb cfg now)) evs"
      using Cons.prems(1) by simp_all
    have "pnSettings (sePanel (deliver sv ev s)) = pnSettings (sePanel s)" using step [OF ev(1) Cons.prems(2)] by (simp add: guarded_def)
    with step [OF ev(1) Cons.prems(2)] Cons.IH [OF ev(2), of "deliver sv ev s"] show ?case by (auto simp: relayed_def)
  qed (simp add: relayed_def)
  from this [of s0] server_New_parts(5-7) [OF assms(1)] show ?thesis by (auto simp: NewSessionStore_def relayed_def)
qed

subsection \<open>Examples\<close>

definition sample_surroundings :: surroundings where
  "sample_surroundings = \<lparr>suNow = 5,
     suWorld = \<lparr>eRandom = None, eExpires = (\<lambda>_. None), eDial = (\<lambda>_ _. Inl FetchFailed), eUpgrade = (\<lambda>_. None), eHijack = False, eClientOpen = False\<rparr>,
     suPanel = sample_panel_env 5, suRandom = Some (replicate 16 CHR ''r''), suClock = 0\<rparr>"

definition sample_visit :: event where
  "sample_visit = OnMain sample_surroundings (sample_ctx (EncodeString ''https://example.org/''))"

definition panel_only :: env where
  "panel_only = map_of [(''BUMSHI_ADMIN_ENABLED'', ''true''), (''BUMSHI_PUBLIC_URL'', ''https://proxy.test'')]"

definition started :: "env \<Rightarrow> disk \<Rightarrow> (server \<times> service) option" where
  "started env d = (case Load (\<lambda>_. None) env of Inl _ \<Rightarrow> None | Inr cfg \<Rightarrow> server_New sample_library cfg (True, True) 0 d)"

definition toggled_on :: disk where
  "toggled_on = [(''/var/lib/bumshi/settings.json'', Saved \<lparr>snProxyEnabled = True, snAccessLog = False, snModules = []\<rparr>)]"

text \<open>
  A configuration that loads without the acknowledgement of an open relay, because it starts switched
  off: with a switch left on in the panel, the service relays for anyone.
\<close>

theorem open_relay_after_toggle:
  "case started panel_only toggled_on of None \<Rightarrow> False
   | Some (sv, s) \<Rightarrow> \<not> cfProxyRequireToken (srConfig sv) \<and> \<not> cfProxyAllowOpenRelay (srConfig sv) \<and>
       map rHost (seSent (deliver sv sample_visit s)) = [''example.org'']"
  unfolding panel_only_def by code_simp

definition sample_login :: event where
  "sample_login = OnAdmin sample_surroundings
     \<lparr>rMethod = ''POST'', rURL = empty_url\<lparr>Path := ''/admin/login''\<rparr>, rHost = ''localhost:8081'', rHeader = [],
      rRemoteAddr = ''203.0.113.9:5000'', rTLS = False, rContentLength = 0,
      rBody = json_text (JObj [(''username'', JStr ''admin'')]), rRequestID = []\<rparr>"

lemma sample_guesses:
  "case Load (\<lambda>_. None) panel_only of Inl _ \<Rightarrow> False
   | Inr cfg \<Rightarrow> list_all (wrong_password (panel_options sample_library cfg 0)) [sample_visit, sample_login, sample_visit]"
  unfolding panel_only_def by code_simp

lemma sample_off: "case started panel_only [] of None \<Rightarrow> False | Some (sv, s) \<Rightarrow> \<not> stProxyEnabled (pnSettings (sePanel s))"
  unfolding panel_only_def by code_simp

lemma started_New:
  "started env d = Some (sv, s) \<Longrightarrow>
   \<exists>cfg. Load (\<lambda>_. None) env = Inr cfg \<and> server_New sample_library cfg (True, True) 0 d = Some (sv, s)"
  by (auto simp: started_def split: sum.splits)

theorem nothing_without_password_witness:
  "case started panel_only [] of None \<Rightarrow> False | Some (sv, s) \<Rightarrow>
     seSent (fold (deliver sv) [sample_visit, sample_login, sample_visit] s) = []"
proof -
  obtain sv s where start: "started panel_only [] = Some (sv, s)" and off: "\<not> stProxyEnabled (pnSettings (sePanel s))"
    using sample_off by (auto split: option.splits)
  then obtain cfg where *: "Load (\<lambda>_. None) panel_only = Inr cfg" "server_New sample_library cfg (True, True) 0 [] = Some (sv, s)"
    using started_New by blast
  have "list_all (wrong_password (panel_options sample_library cfg 0)) [sample_visit, sample_login, sample_visit]"
    using sample_guesses by (simp only: *(1) sum.case)
  from nothing_without_password [OF *(2) this] off show ?thesis by (simp only: start option.case prod.case if_False)
qed

theorem relay_gate_witness:
  "case started panel_only toggled_on of None \<Rightarrow> False | Some (sv, s) \<Rightarrow> stProxyEnabled (pnSettings (sePanel s))"
proof -
  obtain sv s where start: "started panel_only toggled_on = Some (sv, s)"
    and sent: "map rHost (seSent (deliver sv sample_visit s)) = [''example.org'']"
    using open_relay_after_toggle by (auto split: option.splits)
  then obtain cfg where *: "server_New sample_library cfg (True, True) 0 toggled_on = Some (sv, s)"
    using started_New by blast
  have "relayed (nState (new_conn s)) (nState (fst (serve_main sv sample_surroundings 0
      (sample_ctx (EncodeString ''https://example.org/'')) (new_conn s))))"
    using sent server_New_parts(6) [OF *] by (auto simp: relayed_def sample_visit_def)
  from relay_gate [OF * this] show ?thesis by (simp only: start option.case prod.case new_conn_state)
qed

end
