(* ===== verification/Panel_Inv.thy ===== *)
theory Panel_Inv
  imports Admin_Panel
begin

section \<open>The invariant of the panel's state\<close>

text \<open>
  What holds of the panel's state after any requests: its collections are maps, with each user under
  its own identifier, a switch for exactly the known modules, and sessions of the panel's user only.
\<close>

definition panel_wf :: "panel_config \<Rightarrow> panel \<Rightarrow> bool" where
  "panel_wf h s \<longleftrightarrow> settings_inv (pnSettings s) \<and> session_invar (pnSessions s) \<and>
     list_all (\<lambda>(tok, sess). seUser sess = pcUsername h) (ssByToken (pnSessions s)) \<and>
     distinct (map fst (lHits (pnLogins s))) \<and> access_inv (pnAccess s)"

named_theorems wf_intros "operations that keep the panel's state well-formed"

lemma panel_wf_updates [wf_intros]:
  "panel_wf h s \<Longrightarrow> panel_wf h (add_log l s)"
  "panel_wf h s \<Longrightarrow> settings_inv x \<Longrightarrow> panel_wf h (s\<lparr>pnSettings := x, pnDisk := d\<rparr>)"
  "panel_wf h s \<Longrightarrow> access_inv a \<Longrightarrow> panel_wf h (s\<lparr>pnAccess := a, pnDisk := d'\<rparr>)"
  "panel_wf h s \<Longrightarrow> distinct (map fst (lHits l')) \<Longrightarrow> panel_wf h (s\<lparr>pnLogins := l'\<rparr>)"
  by (simp_all add: panel_wf_def add_log_def)

subsection \<open>The parts\<close>

lemma list_all_delete: "list_all P xs \<Longrightarrow> list_all P (AList.delete k xs)"
  by (auto simp: list_all_iff AList.delete_eq)

lemma list_all_update: "list_all P xs \<Longrightarrow> P (k, v) \<Longrightarrow> list_all P (AList.update k v xs)"
  using set_update_subset [of k v xs] by (auto simp: list_all_iff)

lemma list_all_filter_keep: "list_all P xs \<Longrightarrow> list_all P (filter Q xs)"
  by (auto simp: list_all_iff)

text \<open>A step on the sessions that creates none but the panel user's.\<close>

fun of_user :: "string \<Rightarrow> session_op \<Rightarrow> bool" where
  "of_user user (SCreate u r1 r2) = (u = user)"
| "of_user user _ = True"

lemma session_step_users:
  "list_all (\<lambda>(tok, sess). seUser sess = user) (ssByToken s) \<Longrightarrow> of_user user op \<Longrightarrow>
   list_all (\<lambda>(tok, sess). seUser sess = user) (ssByToken (session_step (now, op) s))"
  by (cases op) (auto simp: session_Create_def session_Get_def session_Delete_def session_Count_def Let_def
      list_all_delete list_all_update list_all_filter_keep split: option.split)

lemma panel_wf_sessions:
  "panel_wf h s \<Longrightarrow> of_user (pcUsername h) op \<Longrightarrow> panel_wf h (s\<lparr>pnSessions := session_step (now, op) (pnSessions s)\<rparr>)"
  using session_step_users [of "pcUsername h" "pnSessions s" op now]
  by (simp add: panel_wf_def session_step_invar del: session_step.simps)

lemmas panel_wf_session_ops [wf_intros] =
  panel_wf_sessions [of h s "SCreate (pcUsername h) r1 r2" for h s r1 r2, simplified]
  panel_wf_sessions [of h s "SGet tok" for h s tok, simplified]
  panel_wf_sessions [of h s "SDelete tok" for h s tok, simplified]
  panel_wf_sessions [of h s SCount for h s, simplified]

lemma limiter_keys [wf_intros]:
  "distinct (map fst (lHits l)) \<Longrightarrow> distinct (map fst (lHits (snd (Allow now k l))))"
  "distinct (map fst (lHits l)) \<Longrightarrow> distinct (map fst (lHits (Reset k l)))"
  by (auto simp: Allow_def Reset_def Let_def distinct_update distinct_delete split: option.split)

lemma access_inv_ops [wf_intros]:
  "access_inv s \<Longrightarrow> access_inv (fst (snd (access_Delete wok rok uid (s, d))))"
  "access_inv s \<Longrightarrow> r1 \<noteq> Some [] \<Longrightarrow> access_inv (fst (snd (access_Create wok rok now r1 r2 label expires (s, d))))"
proof -
  assume s: "access_inv s"
  then show "access_inv (fst (snd (access_Delete wok rok uid (s, d))))"
    by (simp add: access_Delete_def Let_def split_def access_inv_delete)
  assume "r1 \<noteq> Some []"
  then have "randomHex r1 = Some uid \<Longrightarrow> uid \<noteq> []" for uid
    using length_hex [of "the r1"] by (cases r1) (auto simp: randomHex_def simp del: length_hex)
  with s show "access_inv (fst (snd (access_Create wok rok now r1 r2 label expires (s, d))))"
    by (auto simp: access_Create_def Let_def split_def intro: access_inv_add split: option.split)
qed

subsection \<open>The handlers\<close>

definition random_ok :: "panel_env \<Rightarrow> bool" where
  "random_ok e \<longleftrightarrow> (case veRand1 e of None \<Rightarrow> True | Some b \<Rightarrow> b \<noteq> [])"

lemma wf_currentSession [wf_intros]: "panel_wf h s \<Longrightarrow> panel_wf h (snd (currentSession e r s))"
  by (auto simp: currentSession_def split_def Let_def split: option.split intro: wf_intros)

lemma wf_auth:
  assumes "panel_wf h s" and "\<And>s. panel_wf h s \<Longrightarrow> panel_wf h (fst (next e r s w))"
  shows "panel_wf h (fst (auth next e r s w))" "panel_wf h (fst (authCSRF next e r s w))"
  using assms by (cases "fst (currentSession e r s)"; auto simp: session_cases intro: wf_intros)+

lemma wf_pages: "panel_wf h s \<Longrightarrow> panel_wf h (fst (serveApp c e r s w))" "panel_wf h s \<Longrightarrow> panel_wf h (fst (serveLogin c e r s w))"
  "panel_wf h s \<Longrightarrow> panel_wf h (fst (serveAsset c f e r s w))"
  by (auto simp: serveApp_def serveLogin_def serveAsset_def split_def Let_def intro: wf_intros split: option.split)

lemma wf_login: "panel_wf h s \<Longrightarrow> panel_wf h (fst (handleLogin h e r s w))" "panel_wf h s \<Longrightarrow> panel_wf h (fst (handleLogout h e r s w))"
proof -
  assume s: "panel_wf h s"
  then have hits: "distinct (map fst (lHits (pnLogins s)))" by (simp add: panel_wf_def)
  show "panel_wf h (fst (handleLogout h e r s w))"
    using s by (auto simp: handleLogout_def Let_def intro: wf_intros split: option.split)
  let ?s = "s\<lparr>pnLogins := snd (Allow (veGate e) (clientIP r (pcTrustedProxy h)) (pnLogins s))\<rparr>"
  have s1: "panel_wf h ?s" using s hits by (intro wf_intros)
  have s2: "panel_wf h (?s\<lparr>pnSessions := snd (session_Create now (pcUsername h) r1 r2 (pnSessions ?s))\<rparr>)" for now r1 r2
    using s1 by (rule panel_wf_session_ops)
  have s3: "panel_wf h (?s\<lparr>pnSessions := snd (session_Create now (pcUsername h) r1 r2 (pnSessions ?s)),
      pnLogins := Reset ip (pnLogins ?s)\<rparr>)" for now r1 r2 ip
    using s2 [of now r1 r2] s1 limiter_keys(2) by (simp add: panel_wf_def)
  show "panel_wf h (fst (handleLogin h e r s w))"
    using s1 s2 [where now = "veNow e" and ?r1.0 = "veRand1 e" and ?r2.0 = "veRand2 e"]
      s3 [where now = "veNow e" and ?r1.0 = "veRand1 e" and ?r2.0 = "veRand2 e" and ip = "clientIP r (pcTrustedProxy h)"]
    by (auto simp: handleLogin_def Let_def intro: wf_intros split: prod.splits option.splits sum.splits)
qed

lemma wf_api:
  assumes s: "panel_wf h s"
  shows "panel_wf h (fst (apiStatus c e r s w))" "panel_wf h (fst (apiGetSettings e r s w))"
    "panel_wf h (fst (apiPutSettings c e r s w))" "panel_wf h (fst (apiListUsers c e r s w))"
    "panel_wf h (fst (apiDeleteUser e r s w))" "random_ok e \<Longrightarrow> panel_wf h (fst (apiCreateUser c e r s w))"
proof -
  have inv: "settings_inv (pnSettings s)" "access_inv (pnAccess s)" using s by (simp_all add: panel_wf_def)
  show "panel_wf h (fst (apiStatus c e r s w))" "panel_wf h (fst (apiGetSettings e r s w))" "panel_wf h (fst (apiListUsers c e r s w))"
    using s by (simp_all add: apiStatus_def apiGetSettings_def apiListUsers_def split_def Let_def wf_intros)
  show "panel_wf h (fst (apiPutSettings c e r s w))"
    using s settings_inv_change [OF inv(1)]
    by (auto simp: apiPutSettings_def settings_step_def Let_def simp del: settings_change.simps intro!: wf_intros split: prod.split option.split)
  show "panel_wf h (fst (apiDeleteUser e r s w))"
    using s inv(2)
    by (auto simp: apiDeleteUser_def Let_def split_def intro!: wf_intros)
  assume "random_ok e"
  then have "veRand1 e \<noteq> Some []" by (auto simp: random_ok_def)
  then show "panel_wf h (fst (apiCreateUser c e r s w))"
    using s inv(2) by (auto simp: apiCreateUser_def Let_def split_def intro!: wf_intros)
qed

lemma panel_wf_step:
  assumes s: "panel_wf h s" and "random_ok e"
  shows "panel_wf h (fst (panel_ServeHTTP h routes e r s w))"
proof (cases "mux_find routes r")
  case (MuxHandler rt bound)
  have "panel_wf h (fst (panel_run h rt bound e r s w))"
    using s wf_api(6) [OF _ assms(2)] by (cases rt) (auto intro: wf_auth wf_pages wf_login wf_api)
  with MuxHandler show ?thesis by (simp add: panel_ServeHTTP_def)
qed (simp_all add: panel_ServeHTTP_def s)

end
