(* ===== verification/Service_Inv.thy ===== *)
theory Service_Inv
  imports Server_Flow Panel_Inv
begin

section \<open>The invariant of the service's state\<close>

text \<open>
  The panel's invariant at the start of the service, whatever the files hold, and after any run of
  requests to both listeners.
\<close>

lemma access_inv_load: "access_inv s \<Longrightarrow> access_load d s = (err, s') \<Longrightarrow> access_inv s'"
proof -
  assume s: "access_inv s" and l: "access_load d s = (err, s')"
  have "access_inv (fold (\<lambda>u s. if auID u \<noteq> [] then add_user u s else s) us s)" for us
    using s by (induction us arbitrary: s) (auto intro: access_inv_add)
  with s l show ?thesis by (auto simp: access_load_def split: option.splits file_text.splits)
qed

lemma access_inv_New: "NewAccessStore d path = Inr s \<Longrightarrow> access_inv s"
  by (auto simp: NewAccessStore_def Let_def access_inv_def split: if_splits prod.splits option.splits dest!: access_inv_load [rotated])

lemma settings_inv_path: "settings_inv (s\<lparr>stPath := p\<rparr>) = settings_inv s"
  by (simp add: settings_inv_def)

lemma settings_inv_Persist: "settings_inv s \<Longrightarrow> settings_inv (fst (Persist wok rok path (s, d)))"
  by (auto simp: Persist_def settings_step_def Let_def settings_inv_path simp del: settings_change.simps
      intro!: settings_inv_change split: option.split file_text.split)

lemma panel_wf_start:
  assumes "server_New lb cfg acc now d = Some (sv, s0)"
  shows "panel_wf (panel_options lb cfg now) (sePanel s0)"
proof -
  let ?live = "Persist (fst acc) (snd acc) (settingsPath (cfAccessStorePath cfg)) (settings_New (cfProxyEnabled cfg) (cfAccessLog cfg), d)"
  have "settings_inv (fst ?live)" by (intro settings_inv_Persist settings_inv_New)
  moreover have "access_inv \<lparr>asUsers = [], asPath = p\<rparr>" for p by (simp add: access_inv_def)
  ultimately show ?thesis using assms
    by (auto simp: server_New_def Let_def split_def panel_wf_def NewSessionStore_def NewRateLimiter_def session_invar_def
        access_inv_New split: option.splits sum.splits)
qed

fun random_event :: "event \<Rightarrow> bool" where
  "random_event (OnMain e r) = True"
| "random_event (OnAdmin e r) = random_ok (suPanel e)"

lemma admin_wf:
  assumes "panel_wf (asConfig a) (sePanel (nState n))" "random_ok (suPanel e)"
  shows "panel_wf (asConfig a) (sePanel (nState (fst (serve_admin a e r n))))"
proof -
  obtain rid m where a: "serve_admin a e r n = Recoverer (admin_dispatch a e) (r\<lparr>rRequestID := rid\<rparr>) m" "nState m = nState n"
    by (rule serve_admin_next)
  have "panel_wf (asConfig a) (sePanel (nState (fst (admin_dispatch a e (r\<lparr>rRequestID := rid\<rparr>) m))))"
    using panel_wf_step [of "asConfig a" "sePanel (nState m)" "suPanel e"] assms a(2)
    by (auto simp: admin_dispatch_def Let_def split: mux_result.split admin_route.split prod.split) (metis fst_conv)+
  then show ?thesis by (simp add: a Recoverer_state)
qed

lemma panel_wf_run:
  assumes "server_New lb cfg acc now d = Some (sv, s0)" and "list_all random_event evs"
  shows "panel_wf (panel_options lb cfg now) (sePanel (fold (deliver sv) evs s0))"
proof -
  have step: "panel_wf (panel_options lb cfg now) (sePanel (deliver sv ev s))"
    if "panel_wf (panel_options lb cfg now) (sePanel s)" "random_event ev" for ev s
  proof (cases ev)
    case (OnMain e r)
    with that show ?thesis using main_isolated [of sv e 0 r "new_conn s"] by simp
  next
    case (OnAdmin e r)
    show ?thesis
    proof (cases "srAdmin sv")
      case (Some a)
      then have "asConfig a = panel_options lb cfg now" using server_New_parts(4) [OF assms(1)] by blast
      with OnAdmin Some that admin_wf [of a "new_conn s" e r] show ?thesis by simp
    qed (use OnAdmin that in simp)
  qed
  have "panel_wf (panel_options lb cfg now) (sePanel (fold (deliver sv) evs s))"
    if "panel_wf (panel_options lb cfg now) (sePanel s)" for s
    using assms(2) that by (induction evs arbitrary: s) (auto intro: step)
  then show ?thesis using panel_wf_start [OF assms(1)] by blast
qed

text \<open>
  C15.  At every moment of the service's life the live settings have a switch for exactly the known modules,
  each user of the roster is there once under its own identifier, session tokens and limiter keys are
  unique, and every session is of the panel's one user, provided random bytes are never an empty
  string.
\<close>

theorem service_wf:
  assumes "server_New lb cfg acc now d = Some (sv, s0)" and "list_all random_event evs"
  shows "panel_wf (panel_options lb cfg now) (sePanel (fold (deliver sv) evs s0))"
  by (rule panel_wf_run [OF assms])

theorem service_wf_witness:
  "case started panel_only [] of None \<Rightarrow> False | Some (sv, s) \<Rightarrow>
     settings_inv (pnSettings (sePanel (fold (deliver sv) [sample_visit, sample_login] s)))"
proof -
  obtain sv s where start: "started panel_only [] = Some (sv, s)"
    using sample_off by (auto split: option.splits)
  then obtain cfg where *: "server_New sample_library cfg (True, True) 0 [] = Some (sv, s)"
    using started_New by blast
  have "list_all random_event [sample_visit, sample_login]"
    by (simp add: sample_visit_def sample_login_def sample_surroundings_def sample_panel_env_def random_ok_def)
  from service_wf [OF * this] show ?thesis by (simp only: panel_wf_def start option.case prod.case)
qed

end
