(* ===== verification/Panel_Life.thy ===== *)
theory Panel_Life
  imports Panel_Inv
begin

section \<open>What a request does to the switches and the roster\<close>

text \<open>
  Seen from the switches and the roster, in memory and on disk, a request to the panel is nothing, one
  \<open>Apply\<close> of a snapshot or one operation on the roster: the abstract steps on which the components'
  theorems speak.
\<close>

definition settings_of :: "panel \<Rightarrow> settings \<times> disk" where
  "settings_of s = (pnSettings s, pnDisk s)"

definition roster_of :: "panel \<Rightarrow> accessStore \<times> disk" where
  "roster_of s = (pnAccess s, pnDisk s)"

datatype panel_step = Nothing | Settings_Step snapshot | Roster_Step access_op

fun panel_abs :: "panel_env \<Rightarrow> panel_step \<Rightarrow> settings \<times> accessStore \<times> disk \<Rightarrow> settings \<times> accessStore \<times> disk" where
  "panel_abs e Nothing g = g"
| "panel_abs e (Settings_Step snap) (st, ac, d) =
     (let (st, d) = settings_step (veWriteOk e) (veRenameOk e) (OApply snap) (st, d) in (st, ac, d))"
| "panel_abs e (Roster_Step op) (st, ac, d) =
     (let (ac, d) = access_step ((veWriteOk e, veRenameOk e, veNow e), op) (ac, d) in (st, ac, d))"

text \<open>The random bytes of an operation are those of the request.\<close>

fun step_random :: "panel_env \<Rightarrow> panel_step \<Rightarrow> bool" where
  "step_random e (Roster_Step (ACreate label expires r1 r2)) = (r1 = veRand1 e \<and> r2 = veRand2 e)"
| "step_random e _ = True"

lemma guarded_parts:
  "guarded s = (fst (settings_of s), roster_of s)" "snd (settings_of s) = snd (roster_of s)"
  by (simp_all add: guarded_def settings_of_def roster_of_def)

lemma Nothing_abs: "panel_abs e Nothing g = g"
  by simp

lemma put_settings_step:
  obtains st where "st = Nothing \<or> (\<exists>snap. st = Settings_Step snap)"
    "guarded (fst (apiPutSettings h e r s w)) = panel_abs e st (guarded s)"
proof -
  obtain snap decoded where d: "json_Decode settings_fields True (take maxBodyBytes (rBody r))
      \<lparr>snProxyEnabled = False, snAccessLog = False, snModules = []\<rparr> = (snap, decoded)" by fastforce
  show thesis
  proof (cases "decoded \<and> Validate snap = None")
    case True
    show thesis
      by (rule that [of "Settings_Step snap"])
        (use True d in \<open>auto simp: apiPutSettings_def guarded_def add_log_def Let_def split: prod.split\<close>)
  next
    case False
    show thesis
      by (rule that [of Nothing]) (use False d in \<open>auto simp: apiPutSettings_def guarded_def split: option.split\<close>)
  qed
qed

lemma delete_user_step:
  obtains st where "st = Nothing \<or> (\<exists>uid. st = Roster_Step (ADelete uid))"
    "guarded (fst (apiDeleteUser e r s w)) = panel_abs e st (guarded s)"
proof -
  obtain body decoded where d: "json_Decode delete_fields False (take maxBodyBytes (rBody r)) \<lparr>urID = []\<rparr> = (body, decoded)" by fastforce
  show thesis
  proof (cases "decoded \<and> urID body \<noteq> []")
    case True
    show thesis
      by (rule that [of "Roster_Step (ADelete (urID body))"])
        (use True d in \<open>auto simp: apiDeleteUser_def guarded_def add_log_def Let_def split_def\<close>)
  next
    case False
    show thesis by (rule that [of Nothing]) (use False d in \<open>auto simp: apiDeleteUser_def guarded_def\<close>)
  qed
qed

lemma create_user_step:
  obtains st where "st = Nothing \<or> (\<exists>l x. st = Roster_Step (ACreate l x (veRand1 e) (veRand2 e)))"
    "guarded (fst (apiCreateUser h e r s w)) = panel_abs e st (guarded s)"
proof -
  obtain body decoded where d: "json_Decode create_fields False (take maxBodyBytes (rBody r)) \<lparr>nuLabel = [], nuExpiresDays = 0\<rparr> = (body, decoded)"
    by fastforce
  let ?days = "nuExpiresDays body"
  show thesis
  proof (cases "?days < 0 \<or> 3650 < ?days")
    case True
    show thesis by (rule that [of Nothing]) (use True d in \<open>auto simp: apiCreateUser_def guarded_def Let_def\<close>)
  next
    case False
    let ?x = "if 0 < ?days then Some (veNow e + ?days * (24 * 3600 * 10 ^ 9)) else None"
    show thesis
      by (rule that [of "Roster_Step (ACreate (user_label (nuLabel body)) ?x (veRand1 e) (veRand2 e))"])
        (use False d in \<open>auto simp: apiCreateUser_def guarded_def add_log_def Let_def split_def\<close>)
  qed
qed

text \<open>
  The panel refines the abstract steps: every request to it is one of them.
\<close>

lemma csrf_step:
  assumes "\<And>s. \<exists>st. step_random e st \<and> guarded (fst (next e r s w)) = panel_abs e st (guarded s)"
  shows "\<exists>st. step_random e st \<and> guarded (fst (authCSRF next e r s w)) = panel_abs e st (guarded s)"
proof -
  have none: "\<exists>st. step_random e st \<and> guarded s' = panel_abs e st (guarded s)" if "guarded s' = guarded s" for s'
    using that by (intro exI [of _ Nothing]) (simp add: guarded_parts)
  show ?thesis
  proof (cases "fst (currentSession e r s)")
    case None
    then show ?thesis using none by (simp add: session_cases panel_frames)
  next
    case (Some sess)
    with assms [of "snd (currentSession e r s)"] none show ?thesis by (simp add: session_cases panel_frames)
  qed
qed

lemma panel_steps:
  "\<exists>st. step_random e st \<and> guarded (fst (panel_ServeHTTP h routes e r s w)) = panel_abs e st (guarded s)"
proof (cases "mux_find routes r")
  case (MuxHandler rt bound)
  have none: "\<exists>st. step_random e st \<and> guarded s' = panel_abs e st (guarded s)" if "guarded s' = guarded s" for s'
    using that by (intro exI [of _ Nothing]) (simp add: guarded_parts)
  have put: "\<exists>st. step_random e st \<and> guarded (fst (apiPutSettings h e r s w)) = panel_abs e st (guarded s)" for s
    using put_settings_step [of h e r s w] by (metis step_random.simps(2,3))
  have del: "\<exists>st. step_random e st \<and> guarded (fst (apiDeleteUser e r s w)) = panel_abs e st (guarded s)" for s
    using delete_user_step [of e r s w] by (metis step_random.simps(2,4))
  have create: "\<exists>st. step_random e st \<and> guarded (fst (apiCreateUser h e r s w)) = panel_abs e st (guarded s)" for s
    using create_user_step [of e h r s w] by (metis step_random.simps(1,2))
  have logout: "\<exists>st. step_random e st \<and> guarded (fst (authCSRF (handleLogout h) e r s w)) = panel_abs e st (guarded s)"
    by (rule csrf_step) (intro exI [of _ Nothing] conjI, simp, simp only: panel_frames Nothing_abs)
  have "\<exists>st. step_random e st \<and> guarded (fst (panel_run h rt bound e r s w)) = panel_abs e st (guarded s)"
  proof (cases "changing rt \<or> rt = RLogout")
    case True
    then consider "rt = RPutSettings" | "rt = RDeleteUser" | "rt = RCreateUser" | "rt = RLogout" by (auto simp: changing_def)
    then show ?thesis
    proof cases
      case 1
      show ?thesis unfolding 1 panel_run.simps by (rule csrf_step, rule put)
    next
      case 2
      show ?thesis unfolding 2 panel_run.simps by (rule csrf_step, rule del)
    next
      case 3
      show ?thesis unfolding 3 panel_run.simps by (rule csrf_step, rule create)
    next
      case 4
      show ?thesis unfolding 4 panel_run.simps by (rule logout)
    qed
  next
    case False
    then have "guarded (fst (panel_run h rt bound e r s w)) = guarded s"
      by (cases rt) (simp_all add: changing_def panel_frames guarded_auth)
    then show ?thesis by (rule none)
  qed
  then show ?thesis by (simp add: panel_ServeHTTP_def MuxHandler)
qed (use exI [of _ Nothing] in \<open>auto simp: panel_ServeHTTP_def guarded_parts\<close>)

text \<open>Only a request with a live session and its CSRF token is more than nothing.\<close>

definition logged_in :: "panel_env \<Rightarrow> request \<Rightarrow> panel \<Rightarrow> bool" where
  "logged_in e r s \<longleftrightarrow>
     (case fst (currentSession e r s) of None \<Rightarrow> False | Some sess \<Rightarrow> Get (rHeader r) csrfHeader = seCSRF sess)"

lemma panel_refines:
  obtains st where "step_random e st" "guarded (fst (panel_ServeHTTP h routes e r s w)) = panel_abs e st (guarded s)"
    "st = Nothing \<or> logged_in e r s"
proof (cases "guarded (fst (panel_ServeHTTP h routes e r s w)) = guarded s")
  case True
  then show ?thesis using that [of Nothing] by (simp add: Nothing_abs)
next
  case False
  then obtain rt bound where "mux_find routes r = MuxHandler rt bound"
    "guarded (fst (panel_run h rt bound e r s w)) \<noteq> guarded s"
    by (cases "mux_find routes r") (simp_all add: panel_ServeHTTP_def)
  then have "logged_in e r s" by (auto simp: logged_in_def elim!: panel_run_guarded)
  with panel_steps [of e h routes r s w] that show ?thesis by blast
qed

end
