(* ===== verification/Service_Life.thy ===== *)
theory Service_Life
  imports Service_Inv Panel_Life
begin

section \<open>The service over time\<close>

text \<open>
  Runs of requests to both listeners as runs of the abstract steps of \<open>Panel_Life\<close>, and what follows
  across the components: a deleted user is locked out of the proxy at once, and a restart finds the
  switches and the roster as they were left.
\<close>

fun event_env :: "event \<Rightarrow> panel_env" where
  "event_env (OnMain e r) = suPanel e"
| "event_env (OnAdmin e r) = suPanel e"

fun may_change :: "event \<Rightarrow> panel \<Rightarrow> bool" where
  "may_change (OnMain e r) s = False"
| "may_change (OnAdmin e r) s = logged_in (suPanel e) (request.truncate r) s"

lemma admin_refines:
  obtains st where "step_random (suPanel e) st"
    "guarded (sePanel (nState (fst (serve_admin a e r n)))) = panel_abs (suPanel e) st (guarded (sePanel (nState n)))"
    "st = Nothing \<or> logged_in (suPanel e) (request.truncate r) (sePanel (nState n))"
proof -
  obtain rid m where a: "serve_admin a e r n = Recoverer (admin_dispatch a e) (r\<lparr>rRequestID := rid\<rparr>) m" "nState m = nState n"
    by (rule serve_admin_next)
  show thesis
  proof (cases "\<exists>bound. mux_find (asRoutes a) (request.truncate r) = MuxHandler APanel bound")
    case True
    then have g: "guarded (sePanel (nState (fst (admin_dispatch a e (r\<lparr>rRequestID := rid\<rparr>) m)))) =
        guarded (fst (panel_ServeHTTP (asConfig a) (asPanelRoutes a) (suPanel e) (request.truncate r) (sePanel (nState m)) (nWriter m)))"
      by (auto simp: admin_dispatch_def Let_def split: prod.split)
    show thesis
      by (rule panel_refines [of "suPanel e" "asConfig a" "asPanelRoutes a" "request.truncate r" "sePanel (nState m)" "nWriter m"])
        (rule that, simp_all add: g a Recoverer_state)
  next
    case False
    then have "nState (fst (admin_dispatch a e (r\<lparr>rRequestID := rid\<rparr>) m)) = nState m"
      by (auto simp: admin_dispatch_def Let_def split: mux_result.split admin_route.split)
    then show thesis by (intro that [of Nothing]) (simp_all add: Nothing_abs a Recoverer_state)
  qed
qed

lemma deliver_refines:
  obtains st where "step_random (event_env ev) st" "guarded (sePanel (deliver sv ev s)) = panel_abs (event_env ev) st (guarded (sePanel s))"
    "st = Nothing \<or> may_change ev (sePanel s)"
proof (cases ev)
  case (OnMain e r)
  show thesis
    by (rule that [of Nothing]) (use OnMain main_isolated [of sv e 0 r "new_conn s"] in \<open>simp_all add: Nothing_abs\<close>)
next
  case (OnAdmin e r)
  show thesis
  proof (cases "srAdmin sv")
    case None
    show thesis by (rule that [of Nothing]) (use OnAdmin None in \<open>simp_all add: Nothing_abs\<close>)
  next
    case (Some a)
    show thesis
      by (rule admin_refines [of e a r "new_conn s"]) (rule that, simp_all add: OnAdmin Some)
  qed
qed

text \<open>
  C4.  The service refines the abstract steps.  Whatever request reaches either listener, what it does to the
  switches and the roster, in memory and on disk, is one of the abstract steps, with the faults and
  random bytes it met, and it is more than nothing only on the panel's listener, with a live session and
  that session's CSRF token.
\<close>

theorem service_refines:
  "\<exists>st. step_random (event_env ev) st \<and>
     guarded (sePanel (deliver sv ev s)) = panel_abs (event_env ev) st (guarded (sePanel s)) \<and>
     (st = Nothing \<or> may_change ev (sePanel s))"
  by (rule deliver_refines [of ev sv s]) auto

subsection \<open>Revocation\<close>

fun event_draws :: "string \<Rightarrow> event \<Rightarrow> bool" where
  "event_draws tok (OnMain e r) = False"
| "event_draws tok (OnAdmin e r) = (randomHex (veRand2 (suPanel e)) = Some tok)"

abbreviation roster :: "service \<Rightarrow> accessStore" where
  "roster s \<equiv> pnAccess (sePanel s)"

text \<open>What a request does to the roster in memory.\<close>

lemma deliver_roster:
  obtains (same) "roster (deliver sv ev s) = roster s"
  | (op) op d x where "roster (deliver sv ev s) = fst (access_step (x, op) (roster s, d))"
      "\<And>tok. \<not> event_draws tok ev \<Longrightarrow> \<not> draws tok op"
proof (cases ev)
  case (OnMain e r)
  then show thesis using same main_isolated [of sv e 0 r "new_conn s"] by simp
next
  case (OnAdmin e r)
  obtain st where st: "step_random (event_env ev) st" "guarded (sePanel (deliver sv ev s)) = panel_abs (event_env ev) st (guarded (sePanel s))"
    by (rule deliver_refines)
  show thesis
  proof (cases st)
    case (Roster_Step op)
    have d: "\<not> draws tok op" if "\<not> event_draws tok ev" for tok
      using that st(1) by (cases op) (auto simp: Roster_Step OnAdmin)
    have "(pnAccess (sePanel (deliver sv ev s)), pnDisk (sePanel (deliver sv ev s))) =
        access_step ((veWriteOk (event_env ev), veRenameOk (event_env ev), veNow (event_env ev)), op) (roster s, pnDisk (sePanel s))"
      using st(2) by (simp add: Roster_Step guarded_def split: prod.splits)
    then show thesis using op d by (metis fst_conv)
  qed (use same st(2) in \<open>simp_all add: guarded_def split: prod.splits\<close>)
qed

lemma gone_run:
  "gone (roster s) tok \<Longrightarrow> list_all (\<lambda>ev. \<not> event_draws tok ev) evs \<Longrightarrow> gone (roster (fold (deliver sv) evs s)) tok"
proof (induction evs arbitrary: s)
  case (Cons ev evs)
  have ev: "gone (roster s) tok" "\<not> event_draws tok ev" using Cons.prems by simp_all
  have "gone (roster (deliver sv ev s)) tok"
  proof (cases rule: deliver_roster [of sv ev s])
    case same
    with ev(1) show ?thesis by simp
  next
    case (op op d x)
    with gate.absent_step [of "(roster s, d)" tok op x] ev show ?thesis by simp
  qed
  with Cons show ?case by simp
qed simp

lemma deleted_gone:
  assumes inv: "access_inv (roster s)" and u: "holds (roster s) u" and "map_of (asUsers (roster (deliver sv ev s))) (auID u) = None"
  shows "gone (roster (deliver sv ev s)) (auToken u)"
proof -
  have mem: "map_of (asUsers (roster s)) (auID u) = Some u"
    using inv u by (force simp: access_inv_def holds_def list_all_iff)
  show ?thesis
  proof (cases rule: deliver_roster [of sv ev s])
    case same
    with assms(3) mem show ?thesis by simp
  next
    case (op op d x)
    show ?thesis
    proof (cases rule: access_step_cases [of x op "(roster s, d)"])
      case (add v)
      with op assms(3) mem show ?thesis by (auto simp: add_user_def update_conv' split: if_splits)
    next
      case (remove uid)
      show ?thesis
      proof (cases "uid = auID u")
        case True
        with remove op gone_delete [OF inv u] show ?thesis by simp
      next
        case False
        with remove op assms(3) mem show ?thesis by (simp add: delete_conv')
      qed
    next
      case same
      with op assms(3) mem show ?thesis by simp
    qed
  qed
qed

text \<open>
  C5.  Where the proxy requires tokens, revocation takes effect at once and for good.  When a request to
  the panel has taken a user, whose token is nobody else's, out of the roster, then after any further
  requests no request on the public listener that carries the user's token makes the proxy send or dial
  anything, provided the token is not drawn again at random.
\<close>

theorem revocation_immediate:
  assumes "srProxy sv = buildProxy lb cfg" "cfProxyRequireToken cfg" "access_inv (roster s)" "holds (roster s) u"
    "map_of (asUsers (roster (deliver sv ev s))) (auID u) = None"
    "list_all (\<lambda>ev. \<not> event_draws (auToken u) ev) evs'" "t = fold (deliver sv) evs' (deliver sv ev s)"
    "accessToken (request.truncate r) = auToken u"
  shows "\<not> relayed t (deliver sv (OnMain e r) t)"
proof -
  have "gone (roster t) (auToken u)"
    using gone_run [OF deleted_gone [OF assms(3-5)] assms(6)] by (simp add: assms(7))
  then have "\<not> Authorized (suNow e) (roster t) (accessToken (request.truncate r))"
    using Authorized_gone assms(8) by simp
  with main_gate [OF assms(1), of "new_conn t" e r 0] assms(2) show ?thesis by simp
qed

subsection \<open>Restarts\<close>

text \<open>A start on the files finds the settings and the roster that are in memory.\<close>

definition settings_kept :: "bool \<Rightarrow> bool \<Rightarrow> string \<Rightarrow> settings \<times> disk \<Rightarrow> bool" where
  "settings_kept p a path = (\<lambda>(st, d). settings_inv st \<and> stPath st = path \<and>
     (\<forall>w r. meaning (fst (Persist w r path (settings_New p a, d))) = meaning st))"

definition roster_kept :: "string \<Rightarrow> accessStore \<times> disk \<Rightarrow> bool" where
  "roster_kept path = (\<lambda>(ac, d). access_inv ac \<and> asPath ac = path \<and>
     (case NewAccessStore d path of Inl _ \<Rightarrow> False | Inr s \<Rightarrow> map_option json_user \<circ> map_of (asUsers s) = map_option json_user \<circ> map_of (asUsers ac)))"

lemma Persist_saved:
  assumes "settings_inv s" "path \<noteq> []" "map_of d path = Some (Saved (Snapshot s))"
  shows "meaning (fst (Persist w r path (settings_New p a, d))) = meaning s"
proof -
  have "settings_inv ((settings_New p a)\<lparr>stPath := path\<rparr>)" using settings_inv_New by (simp add: settings_inv_def)
  from meaning_Apply_Snapshot [OF assms(1) this] assms(2,3) show ?thesis
    by (simp add: Persist_def settings_step_def Let_def)
qed

lemma settings_kept_start:
  assumes "path \<noteq> []"
  shows "settings_kept p a path (Persist wok rok path (settings_New p a, d))"
proof -
  let ?z = "(settings_New p a)\<lparr>stPath := path\<rparr>"
  have z: "settings_inv ?z" using settings_inv_New by (simp add: settings_inv_def)
  show ?thesis
  proof (cases "\<exists>snap. map_of d path = Some (Saved snap)")
    case True
    then obtain snap where snap: "map_of d path = Some (Saved snap)" by blast
    let ?s = "settings_change (OApply snap) ?z"
    have inv: "settings_inv ?s" by (rule settings_inv_change [OF z])
    have path: "stPath ?s = path" using change_path [of "OApply snap" ?z] by simp
    have out: "Persist wok rok path (settings_New p a, d) = (?s, settings_save wok rok ?s d)"
      using snap assms by (simp add: Persist_def settings_step_def Let_def)
    show ?thesis
    proof (cases "wok \<and> rok")
      case True
      then have "map_of (settings_save wok rok ?s d) path = Some (Saved (Snapshot ?s))"
        using assms path by (simp add: settings_save_def Let_def update_conv' del: settings_change.simps)
      from Persist_saved [OF inv assms this] inv path show ?thesis by (simp add: settings_kept_def out)
    next
      case False
      then have "map_of (settings_save wok rok ?s d) path = Some (Saved snap)"
        using assms path snap by (auto simp: settings_save_def Let_def update_conv' simp del: settings_change.simps)
      then have "fst (Persist w r path (settings_New p a, settings_save wok rok ?s d)) = ?s" for w r
        using assms by (simp add: Persist_def settings_step_def Let_def)
      with inv path show ?thesis by (simp add: settings_kept_def out del: settings_change.simps)
    qed
  next
    case False
    then have "Persist w r path (settings_New p a, d) = (?z, d)" for w r
      using assms by (auto simp: Persist_def Let_def split: option.split file_text.split)
    with z show ?thesis by (simp add: settings_kept_def)
  qed
qed

lemma settings_kept_step:
  assumes "settings_kept p a path st" "path \<noteq> []"
  shows "settings_kept p a path (settings_step True True op st)"
proof -
  obtain s d where st: "st = (s, d)" by (cases st)
  let ?s = "settings_change op s"
  have s: "settings_inv s" "stPath s = path" using assms(1) by (simp_all add: st settings_kept_def)
  have inv: "settings_inv ?s" "stPath ?s = path" using settings_inv_change [OF s(1)] s(2) by simp_all
  have "map_of (settings_save True True ?s d) path = Some (Saved (Snapshot ?s))"
    using assms(2) inv(2) by (simp add: settings_save_def Let_def update_conv')
  from Persist_saved [OF inv(1) assms(2) this] inv show ?thesis
    by (simp add: st settings_kept_def settings_step_def Let_def)
qed

lemma save_reload:
  assumes "access_inv s" "asPath s = path" "path \<noteq> []"
  shows "roster_kept path (s, snd (access_save True True s d))"
proof -
  obtain s' where "NewAccessStore (snd (access_save True True s d)) path = Inr s'"
    "map_of (asUsers s') = map_option json_user \<circ> map_of (asUsers s)"
    by (rule reload [OF assms])
  with assms show ?thesis by (simp add: roster_kept_def fun_eq_iff option.map_comp comp_def)
qed

lemma roster_kept_step:
  assumes kept: "roster_kept path ro" and "path \<noteq> []" and "case op of ACreate l x r1 r2 \<Rightarrow> r1 \<noteq> Some [] | _ \<Rightarrow> True"
  shows "roster_kept path (access_step ((True, True, now), op) ro)"
proof -
  obtain s d where ro: "ro = (s, d)" by (cases ro)
  have s: "access_inv s" "asPath s = path" using kept by (simp_all add: ro roster_kept_def)
  have inv: "access_inv (fst (access_step ((True, True, now), op) (s, d)))"
    using gate.invar_step [of "(s, d)" op] s(1) assms(3) by simp
  show ?thesis
  proof (cases op)
    case (ACreate l x r1 r2)
    show ?thesis
    proof (cases "randomHex r1 = None \<or> randomHex r2 = None")
      case True
      then show ?thesis using kept by (auto simp: ACreate ro access_Create_def split: option.split)
    next
      case False
      then obtain uid tok where "randomHex r1 = Some uid" "randomHex r2 = Some tok" by auto
      then show ?thesis using inv s(2) save_reload [OF _ _ assms(2)]
        by (simp add: ACreate ro access_Create_def Let_def split_def add_user_def)
    qed
  next
    case (ADelete uid)
    then show ?thesis using inv s(2) save_reload [OF _ _ assms(2)]
      by (simp add: ro access_Delete_def Let_def split_def)
  qed
qed

lemma NewAccessStore_path: "NewAccessStore d path = Inr s \<Longrightarrow> asPath s = path"
proof -
  have "asPath (fold (\<lambda>u s. if auID u \<noteq> [] then add_user u s else s) us z) = asPath z" for us z
    by (induction us arbitrary: z) (simp_all add: add_user_def)
  then show "NewAccessStore d path = Inr s \<Longrightarrow> asPath s = path"
    by (auto simp: NewAccessStore_def access_load_def Let_def split: if_splits prod.splits option.splits file_text.splits)
qed

text \<open>
  Each file is read back from its own path, and a save touches no path but its own and the temporary
  file beside it.  The two files are apart when neither is the other or the other's temporary file.
\<close>

lemma Persist_cong: "map_of d path = map_of d' path \<Longrightarrow> fst (Persist w r path (s, d)) = fst (Persist w r path (s, d'))"
  by (auto simp: Persist_def settings_step_def Let_def split: option.split file_text.split)

lemma NewAccessStore_cong: "map_of d path = map_of d' path \<Longrightarrow> NewAccessStore d path = NewAccessStore d' path"
  by (simp add: NewAccessStore_def access_load_def Let_def)

lemma settings_kept_cong:
  "settings_kept p a path (st, d) \<Longrightarrow> map_of d' path = map_of d path \<Longrightarrow> settings_kept p a path (st, d')"
  using Persist_cong [of d' path d] by (simp add: settings_kept_def)

lemma roster_kept_cong:
  "roster_kept path (ac, d) \<Longrightarrow> map_of d' path = map_of d path \<Longrightarrow> roster_kept path (ac, d')"
  using NewAccessStore_cong [of d' path d] by (simp add: roster_kept_def)

lemma settings_save_frame:
  "q \<noteq> stPath s \<Longrightarrow> q \<noteq> stPath s @ ''.tmp'' \<Longrightarrow> map_of (settings_save w r s d) q = map_of d q"
  by (simp add: settings_save_def Let_def update_conv' delete_conv')

lemma Persist_frame:
  "q \<noteq> path \<Longrightarrow> q \<noteq> path @ ''.tmp'' \<Longrightarrow> map_of (snd (Persist w r path (s, d))) q = map_of d q"
  by (auto simp: Persist_def settings_step_def Let_def settings_save_frame simp del: settings_change.simps
      split: option.split file_text.split)

lemma access_save_frame:
  "q \<noteq> asPath s \<Longrightarrow> q \<noteq> asPath s @ ''.tmp'' \<Longrightarrow> map_of (snd (access_save w r s d)) q = map_of d q"
  by (simp add: access_save_def Let_def update_conv' delete_conv')

lemma access_step_frame:
  "q \<noteq> asPath s \<Longrightarrow> q \<noteq> asPath s @ ''.tmp'' \<Longrightarrow> map_of (snd (access_step (x, op) (s, d))) q = map_of d q"
proof -
  assume q: "q \<noteq> asPath s" "q \<noteq> asPath s @ ''.tmp''"
  obtain w r now where x: "x = (w, r, now)" using prod_cases3 by blast
  have "map_of (snd (access_save w r s' d)) q = map_of d q" if "asPath s' = asPath s" for s'
    using q that by (intro access_save_frame) simp_all
  then show ?thesis
    by (cases op) (auto simp: x access_Create_def access_Delete_def add_user_def Let_def split_def split: option.split)
qed

definition files_apart :: "string \<Rightarrow> bool" where
  "files_apart path =
     distinct (map filepath_Clean [path, path @ ''.tmp'', settingsPath path, settingsPath path @ ''.tmp''])"

lemma files_apart_paths:
  assumes "files_apart rp"
  shows "rp \<noteq> settingsPath rp" "rp \<noteq> settingsPath rp @ ''.tmp''"
    "settingsPath rp \<noteq> rp" "settingsPath rp \<noteq> rp @ ''.tmp''"
  using assms unfolding files_apart_def by (simp_all, metis+)

text \<open>A request whose writes, if it makes any, succeed.\<close>

definition written :: "event \<Rightarrow> bool" where
  "written ev \<longleftrightarrow> veWriteOk (event_env ev) \<and> veRenameOk (event_env ev) \<and> random_ok (event_env ev)"

lemma kept_run:
  assumes "settings_kept p a sp (settings_of (sePanel s))" "roster_kept rp (roster_of (sePanel s))" "sp \<noteq> []" "rp \<noteq> []"
    "list_all written evs" "sp = settingsPath rp" "files_apart rp"
  shows "settings_kept p a sp (settings_of (sePanel (fold (deliver sv) evs s))) \<and> roster_kept rp (roster_of (sePanel (fold (deliver sv) evs s)))"
  using assms(1,2,5)
proof (induction evs arbitrary: s)
  case (Cons ev evs)
  let ?t = "deliver sv ev s"
  obtain ss ac d where p: "pnSettings (sePanel s) = ss" "pnAccess (sePanel s) = ac" "pnDisk (sePanel s) = d" by blast
  have kept: "settings_kept p a sp (ss, d)" "roster_kept rp (ac, d)"
    using Cons.prems(1,2) by (simp_all add: settings_of_def roster_of_def p)
  then have paths: "stPath ss = sp" "asPath ac = rp" by (simp_all add: settings_kept_def roster_kept_def)
  have apart: "rp \<noteq> sp" "rp \<noteq> sp @ ''.tmp''" "sp \<noteq> rp" "sp \<noteq> rp @ ''.tmp''"
    unfolding assms(6) by (rule files_apart_paths [OF assms(7)])+
  obtain st where st: "step_random (event_env ev) st" "guarded (sePanel ?t) = panel_abs (event_env ev) st (guarded (sePanel s))"
    by (rule deliver_refines)
  have w: "veWriteOk (event_env ev)" "veRenameOk (event_env ev)" "random_ok (event_env ev)"
    using Cons.prems(3) by (simp_all add: written_def)
  have "settings_kept p a sp (settings_of (sePanel ?t)) \<and> roster_kept rp (roster_of (sePanel ?t))"
  proof (cases st)
    case Nothing
    with st(2) kept show ?thesis by (simp add: guarded_def settings_of_def roster_of_def p)
  next
    case (Settings_Step snap)
    obtain ss' d' where step: "settings_step True True (OApply snap) (ss, d) = (ss', d')" by fastforce
    have "settings_kept p a sp (ss', d')" using settings_kept_step [OF kept(1) assms(3), of "OApply snap"] by (simp only: step)
    moreover have "d' = settings_save True True (settings_change (OApply snap) ss) d"
      using step by (auto simp: settings_step_def Let_def)
    then have "map_of d' rp = map_of d rp"
      using apart paths(1) change_path [of "OApply snap" ss] by (simp only: settings_save_frame not_False_eq_True)
    then have "roster_kept rp (ac, d')" by (rule roster_kept_cong [OF kept(2)])
    moreover have "pnSettings (sePanel ?t) = ss'" "pnAccess (sePanel ?t) = ac" "pnDisk (sePanel ?t) = d'"
      using st(2) w step by (simp_all add: Settings_Step guarded_def p)
    ultimately show ?thesis by (simp add: settings_of_def roster_of_def)
  next
    case (Roster_Step op)
    let ?x = "(True, True, veNow (event_env ev))"
    obtain ac' d' where step: "access_step (?x, op) (ac, d) = (ac', d')" by fastforce
    have "case op of ACreate l x r1 r2 \<Rightarrow> r1 \<noteq> Some [] | _ \<Rightarrow> True"
      using st(1) w(3) by (cases op) (auto simp: Roster_Step random_ok_def)
    from roster_kept_step [OF kept(2) assms(4) this, of "veNow (event_env ev)"]
    have "roster_kept rp (ac', d')" by (simp only: step)
    moreover have "map_of d' sp = map_of d sp"
      using access_step_frame [of sp ac ?x op d] apart paths(2) by (simp add: step)
    then have "settings_kept p a sp (ss, d')" by (rule settings_kept_cong [OF kept(1)])
    moreover have "pnSettings (sePanel ?t) = ss" "pnAccess (sePanel ?t) = ac'" "pnDisk (sePanel ?t) = d'"
      using st(2) w step by (simp_all add: Roster_Step guarded_def p)
    ultimately show ?thesis by (simp add: settings_of_def roster_of_def)
  qed
  with Cons show ?case by simp
qed simp

lemma settingsPath_not_Nil: "p \<noteq> [] \<Longrightarrow> settingsPath p \<noteq> []"
proof -
  have "filepath_Clean q \<noteq> []" for q by (simp add: filepath_Clean_def path_Clean_def Let_def)
  moreover assume "p \<noteq> []"
  ultimately show ?thesis by (simp add: settingsPath_def filepath_Join_def)
qed

lemma server_New_state:
  assumes "server_New lb cfg acc now d = Some (sv, s0)"
  defines "p \<equiv> Persist (fst acc) (snd acc) (settingsPath (cfAccessStorePath cfg))
      (settings_New (cfProxyEnabled cfg) (cfAccessLog cfg), d)"
  shows "settings_of (sePanel s0) = p"
    "NewAccessStore (snd p) (cfAccessStorePath cfg) = Inr a0 \<Longrightarrow> roster_of (sePanel s0) = (a0, snd p)"
  using assms(1) unfolding p_def
  by (auto simp: server_New_def Let_def settings_of_def roster_of_def split: prod.splits option.splits sum.splits)

text \<open>Whether the service starts depends on its configuration alone.\<close>

lemma admin_New_started: "admin_New (panel_options lb cfg now') = admin_New (panel_options lb cfg now)"
  by (simp add: admin_New_def panel_options_def)

lemma server_New_again:
  assumes "server_New lb cfg acc now d = Some (sv, s0)"
  obtains sv' s' where "server_New lb cfg acc' now' d' = Some (sv', s')"
proof -
  have "\<exists>p. server_New lb cfg acc' now' d' = Some p"
    using assms admin_New_started [of lb cfg now' now]
    by (auto simp: server_New_def Let_def admin_listener_def buildAdmin_def split: prod.splits option.splits sum.splits if_splits)
  with that show thesis by force
qed

text \<open>
  C6.  A restart changes nothing but the sessions.  When neither the file of the switches nor its temporary
  file is the roster's, nor the other way round, then after any requests whose writes succeeded a start
  on the disk they left, at any time, succeeds and has the same switches, modules and users, up to bytes
  of a label that are not UTF-8; only the sessions are gone.  (Links in the file system, by which two
  paths name one file, are outside the model.)
\<close>

theorem restart_transparent:
  assumes "server_New lb cfg acc now d = Some (sv, s0)" "cfAccessStorePath cfg \<noteq> []" "files_apart (cfAccessStorePath cfg)"
    "NewAccessStore d (cfAccessStorePath cfg) = Inr a0" "list_all written evs" "s = fold (deliver sv) evs s0"
  shows "case server_New lb cfg acc' now' (pnDisk (sePanel s)) of None \<Rightarrow> False
    | Some (sv', s') \<Rightarrow> meaning (pnSettings (sePanel s')) = meaning (pnSettings (sePanel s)) \<and>
        map_option json_user \<circ> map_of (asUsers (roster s')) = map_option json_user \<circ> map_of (asUsers (roster s)) \<and>
        ssByToken (pnSessions (sePanel s')) = []"
proof -
  let ?rp = "cfAccessStorePath cfg" and ?sp = "settingsPath (cfAccessStorePath cfg)"
  let ?P = "\<lambda>acc d. Persist (fst acc) (snd acc) ?sp (settings_New (cfProxyEnabled cfg) (cfAccessLog cfg), d)"
  have sp: "?sp \<noteq> []" using settingsPath_not_Nil [OF assms(2)] .
  have same: "NewAccessStore (snd (?P acc d)) ?rp = NewAccessStore d ?rp" for acc d
    by (rule NewAccessStore_cong [OF Persist_frame]) (rule files_apart_paths [OF assms(3)])+
  have "settings_kept (cfProxyEnabled cfg) (cfAccessLog cfg) ?sp (settings_of (sePanel s0))"
    unfolding server_New_state(1) [OF assms(1)] by (rule settings_kept_start [OF sp])
  moreover have a0: "NewAccessStore (snd (?P acc d)) ?rp = Inr a0" unfolding same by (rule assms(4))
  have "roster_kept ?rp (roster_of (sePanel s0))"
    unfolding server_New_state(2) [OF assms(1) a0] using access_inv_New [OF a0] a0 NewAccessStore_path [OF a0]
    by (simp add: roster_kept_def)
  ultimately have kept: "settings_kept (cfProxyEnabled cfg) (cfAccessLog cfg) ?sp (settings_of (sePanel s))"
    "roster_kept ?rp (roster_of (sePanel s))"
    using kept_run [OF _ _ sp assms(2,5) refl assms(3)] by (auto simp: assms(6))
  obtain sv' s' where again: "server_New lb cfg acc' now' (pnDisk (sePanel s)) = Some (sv', s')"
    by (rule server_New_again [OF assms(1)])
  obtain a1 where a1: "NewAccessStore (pnDisk (sePanel s)) ?rp = Inr a1"
    "map_option json_user \<circ> map_of (asUsers a1) = map_option json_user \<circ> map_of (asUsers (roster s))"
    using kept(2) by (auto simp: roster_kept_def roster_of_def split: sum.splits)
  have "NewAccessStore (snd (?P acc' (pnDisk (sePanel s)))) ?rp = Inr a1" unfolding same by (rule a1(1))
  from server_New_state(2) [OF again this] have "roster s' = a1" by (simp add: roster_of_def)
  moreover have "meaning (pnSettings (sePanel s')) = meaning (pnSettings (sePanel s))"
    using kept(1) server_New_state(1) [OF again] by (simp add: settings_kept_def settings_of_def) (metis fst_conv)
  ultimately show ?thesis using server_New_parts(5) [OF again] a1(2) by (simp add: again NewSessionStore_def)
qed

text \<open>
  Where the paths meet the roster is lost: a roster called \<open>settings.json\<close> is overwritten by the first
  change of a switch and cannot be read at the next start, and one called \<open>settings.json.tmp\<close> is the
  temporary file of that change and is gone.
\<close>

lemma settings_file_is_roster: "settingsPath ''/var/lib/bumshi/settings.json'' = ''/var/lib/bumshi/settings.json''"
  "settingsPath ''/var/lib/bumshi/settings.json.tmp'' @ ''.tmp'' = ''/var/lib/bumshi/settings.json.tmp''"
  by code_simp+

lemma shared_file_loses_roster:
  assumes "stPath st \<noteq> []"
  shows "NewAccessStore (snd (settings_step True True op (st, d))) (stPath st) = Inl ParseError"
    "NewAccessStore (snd (settings_step True True op (st, d))) (stPath st @ ''.tmp'') =
       Inr \<lparr>asUsers = [], asPath = stPath st @ ''.tmp''\<rparr>"
  using assms
  by (simp_all add: settings_step_def settings_save_def NewAccessStore_def access_load_def Let_def update_conv' delete_conv'
      del: settings_change.simps)

subsection \<open>Examples\<close>

definition sample_admin :: admin_server where
  "sample_admin = \<lparr>asConfig = sample_panel_config, asPanelRoutes = the (admin_New sample_panel_config),
     asRoutes = the (register_all (admin_patterns ''/admin/'')),
     asListener = \<lparr>lsAddr = ''127.0.0.1:8081'', lsReadTimeout = 0, lsReadHeaderTimeout = 0, lsWriteTimeout = 0, lsIdleTimeout = 0\<rparr>\<rparr>"

definition sample_server :: "config \<Rightarrow> server" where
  "sample_server cfg = \<lparr>srConfig = cfg, srLibrary = sample_library, srProxy = buildProxy sample_library cfg,
     srRoutes = the (register_all (main_patterns True True True)), srMain = timed_listener cfg (cfListenAddr cfg),
     srMetrics = timed_listener cfg (cfMetricsAddr cfg), srAdmin = Some sample_admin, srLog = []\<rparr>"

definition lost_phone :: accessUser where
  "lost_phone = \<lparr>auID = ''61'', auLabel = ''phone'', auToken = ''62'', auCreated = 0, auExpires = None\<rparr>"

definition sample_service :: service where
  "sample_service = \<lparr>sePanel = sample_panel\<lparr>pnAccess := \<lparr>asUsers = [(''61'', lost_phone)], asPath = []\<rparr>\<rparr>,
     seChecker = health_New, seOutcomes = [], seSent = [], seDials = []\<rparr>"

definition delete_phone :: event where
  "delete_phone = OnAdmin sample_surroundings \<lparr>rMethod = ''POST'', rURL = empty_url\<lparr>Path := ''/admin/api/access-users/delete''\<rparr>,
     rHost = ''localhost:8081'', rHeader = [(''Cookie'', [''bumshi_admin_session=t0'']), (''X-Csrf-Token'', [''c0''])],
     rRemoteAddr = ''203.0.113.9:5000'', rTLS = False, rContentLength = 0, rBody = json_text (JObj [(''id'', JStr ''61'')]), rRequestID = []\<rparr>"

definition phone_visit :: ctx_request where
  "phone_visit = (sample_ctx (EncodeString ''https://example.org/''))\<lparr>rHeader := [(''Cookie'', [''bumshi_access=62''])]\<rparr>"

definition token_only :: env where
  "token_only = map_of [(''BUMSHI_PROXY_ENABLED'', ''true''), (''BUMSHI_PROXY_REQUIRE_TOKEN'', ''true'')]"

text \<open>Before it is deleted, the user is let through.\<close>

lemma phone_before:
  "case Load (\<lambda>_. None) token_only of Inl _ \<Rightarrow> False
   | Inr cfg \<Rightarrow> cfProxyRequireToken cfg \<and>
       map rHost (seSent (deliver (sample_server cfg) (OnMain sample_surroundings phone_visit) sample_service)) = [''example.org'']"
  unfolding token_only_def by code_simp

lemma phone_deleted:
  "map_of (asUsers (roster (nState (fst (serve_admin sample_admin sample_surroundings
     (case delete_phone of OnAdmin _ r \<Rightarrow> r | OnMain _ r \<Rightarrow> r) (new_conn sample_service)))))) ''61'' = None"
  by code_simp

theorem revocation_immediate_witness:
  "case Load (\<lambda>_. None) token_only of Inl _ \<Rightarrow> False
   | Inr cfg \<Rightarrow> (let t = deliver (sample_server cfg) delete_phone sample_service in
       \<not> relayed t (deliver (sample_server cfg) (OnMain sample_surroundings phone_visit) t))"
proof -
  obtain cfg where cfg: "Load (\<lambda>_. None) token_only = Inr cfg" "cfProxyRequireToken cfg"
    using phone_before by (auto split: sum.splits)
  let ?t = "deliver (sample_server cfg) delete_phone sample_service"
  have "access_inv (roster sample_service)" "holds (roster sample_service) lost_phone" by code_simp+
  moreover have "map_of (asUsers (roster ?t)) (auID lost_phone) = None"
    using phone_deleted by (simp add: delete_phone_def sample_server_def lost_phone_def)
  moreover have "accessToken (request.truncate phone_visit) = auToken lost_phone" by code_simp
  moreover have "srProxy (sample_server cfg) = buildProxy sample_library cfg" by (simp add: sample_server_def)
  ultimately show ?thesis
    using revocation_immediate [where evs' = "[]" and e = sample_surroundings and ev = delete_phone and t = ?t] cfg by (simp add: Let_def)
qed

lemma panel_only_path:
  "case Load (\<lambda>_. None) panel_only of Inl _ \<Rightarrow> False
   | Inr cfg \<Rightarrow> cfAccessStorePath cfg \<noteq> [] \<and> files_apart (cfAccessStorePath cfg) \<and>
       List.find (\<lambda>p. fst p = cfAccessStorePath cfg) toggled_on = None"
  unfolding panel_only_def by code_simp

theorem restart_transparent_witness:
  "case Load (\<lambda>_. None) panel_only of Inl _ \<Rightarrow> False
   | Inr cfg \<Rightarrow> (case started panel_only toggled_on of None \<Rightarrow> False
       | Some (sv, s0) \<Rightarrow> (let s = deliver sv sample_visit s0 in
           case server_New sample_library cfg (True, True) 9 (pnDisk (sePanel s)) of None \<Rightarrow> False
           | Some (sv', s') \<Rightarrow> meaning (pnSettings (sePanel s')) = meaning (pnSettings (sePanel s))))"
proof -
  obtain sv s0 where start: "started panel_only toggled_on = Some (sv, s0)"
    using open_relay_after_toggle by (auto split: option.splits)
  obtain cfg where cfg: "Load (\<lambda>_. None) panel_only = Inr cfg" "server_New sample_library cfg (True, True) 0 toggled_on = Some (sv, s0)"
    using started_New [OF start] by blast
  have path: "cfAccessStorePath cfg \<noteq> []" "files_apart (cfAccessStorePath cfg)"
    "List.find (\<lambda>p. fst p = cfAccessStorePath cfg) toggled_on = None"
    using panel_only_path by (simp_all add: cfg)
  moreover from path(3) have "map_of toggled_on (cfAccessStorePath cfg) = None"
    by (auto simp: find_None_iff map_of_eq_None_iff)
  then have "NewAccessStore toggled_on (cfAccessStorePath cfg) = Inr \<lparr>asUsers = [], asPath = cfAccessStorePath cfg\<rparr>"
    by (simp add: NewAccessStore_def access_load_def Let_def)
  moreover have "list_all written [sample_visit]"
    by (simp add: sample_visit_def sample_surroundings_def sample_panel_env_def written_def random_ok_def)
  ultimately show ?thesis
    using restart_transparent [OF cfg(2), of _ "[sample_visit]" "deliver sv sample_visit s0" "(True, True)" 9]
    by (simp add: cfg(1) start Let_def split: option.splits prod.splits)
qed

end
