(* ===== verification/Server_Run.thy ===== *)
theory Server_Run
  imports Service_Info
begin

section \<open>The life of the service (Server.Run and Server.shutdown)\<close>

text \<open>
  \<open>Run\<close> starts a goroutine per listener, waits for the context or for the first error, and shuts
  everything down.  Its goroutines and the caller take their steps in any order: \<open>run_step\<close> is one step
  of one of them (\<open>Program\<close>), or of what is outside (\<open>World\<close>), which cancels the context and makes listeners
  fail, or never does either.  A listener is not started yet, started (the control plane then has set the readiness
  flag), serving, about to send the error it ended with, or its goroutine is done.  \<open>rnErrs\<close> is the
  channel of errors, where a sender waits for room; \<open>rnFailures\<close>, which the
  code does not have, keeps every error sent.  \<open>Shutdown\<close> closes a server's listeners at once, so its
  \<open>ListenAndServe\<close> returns \<open>ErrServerClosed\<close>, also when it is called later; an expired deadline only
  makes \<open>Shutdown\<close> itself return.
\<close>

datatype listener_name = LMain | LMetrics | LAdmin

datatype listener_state = Idle | Starting | Serving | Failing string | Finished

datatype phase =
    Selecting
  | Unready "string option"
  | Closing "listener_name list" "string option"
  | Joining "string option"
  | Returned "string option"

record running =
  rnState :: "listener_name \<Rightarrow> listener_state"
  rnErrs :: "string list"
  rnFailures :: "string list"
  rnClosed :: "listener_name list"
  rnChecker :: checker
  rnPhase :: phase
  rnCancelled :: bool

definition listeners :: "bool \<Rightarrow> listener_name list" where
  "listeners admin = [LMain, LMetrics] @ (if admin then [LAdmin] else [])"

definition errCh_capacity :: nat where
  "errCh_capacity = 3"

definition run_start :: running where
  "run_start = \<lparr>rnState = (\<lambda>_. Idle), rnErrs = [], rnFailures = [], rnClosed = [], rnChecker = health_New,
     rnPhase = Selecting, rnCancelled = False\<rparr>"

fun runs :: "bool \<Rightarrow> listener_name \<Rightarrow> bool" where
  "runs admin LMain = True"
| "runs admin LMetrics = True"
| "runs admin LAdmin = admin"

text \<open>A goroutine that is about to call \<open>ListenAndServe\<close>, or is inside it.\<close>

definition in_listen :: "running \<Rightarrow> listener_name \<Rightarrow> bool" where
  "in_listen s l \<longleftrightarrow> rnState s l = Serving \<or> rnState s l = Starting \<or> rnState s l = Idle \<and> l \<noteq> LMain"

definition move :: "listener_name \<Rightarrow> listener_state \<Rightarrow> running \<Rightarrow> running" where
  "move l st s = s\<lparr>rnState := (rnState s)(l := st)\<rparr>"

datatype actor = World | Program

inductive run_step :: "bool \<Rightarrow> actor \<Rightarrow> running \<Rightarrow> running \<Rightarrow> bool" for admin where
  cancel: "\<not> rnCancelled s \<Longrightarrow> run_step admin World s (s\<lparr>rnCancelled := True\<rparr>)"
| ready: "rnState s LMain = Idle \<Longrightarrow> run_step admin Program s (move LMain Starting (s\<lparr>rnChecker := SetReady True (rnChecker s)\<rparr>))"
| serve: "runs admin l \<Longrightarrow> in_listen s l \<Longrightarrow> rnState s l \<noteq> Serving \<Longrightarrow> l \<notin> set (rnClosed s) \<Longrightarrow>
    run_step admin Program s (move l Serving s)"
| fail: "runs admin l \<Longrightarrow> in_listen s l \<Longrightarrow> run_step admin World s (move l (Failing e) s)"
| send: "runs admin l \<Longrightarrow> rnState s l = Failing e \<Longrightarrow> length (rnErrs s) < errCh_capacity \<Longrightarrow>
    run_step admin Program s (move l Finished (s\<lparr>rnErrs := rnErrs s @ [e], rnFailures := rnFailures s @ [e]\<rparr>))"
| stop: "runs admin l \<Longrightarrow> in_listen s l \<Longrightarrow> l \<in> set (rnClosed s) \<Longrightarrow>
    run_step admin Program s (move l Finished s)"
| select_done: "rnPhase s = Selecting \<Longrightarrow> rnCancelled s \<Longrightarrow> run_step admin Program s (s\<lparr>rnPhase := Unready None\<rparr>)"
| select_error: "rnPhase s = Selecting \<Longrightarrow> rnErrs s = e # es \<Longrightarrow>
    run_step admin Program s (s\<lparr>rnPhase := Unready (Some e), rnErrs := es\<rparr>)"
| unready: "rnPhase s = Unready err \<Longrightarrow>
    run_step admin Program s (s\<lparr>rnChecker := SetReady False (rnChecker s), rnPhase := Closing (listeners admin) err\<rparr>)"
| close: "rnPhase s = Closing (l # ls) err \<Longrightarrow>
    run_step admin Program s (s\<lparr>rnClosed := rnClosed s @ [l], rnPhase := Closing ls err\<rparr>)"
| join: "rnPhase s = Closing [] err \<Longrightarrow> run_step admin Program s (s\<lparr>rnPhase := Joining err\<rparr>)"
| return: "rnPhase s = Joining err \<Longrightarrow> list_all (\<lambda>l. rnState s l = Finished) (listeners admin) \<Longrightarrow>
    run_step admin Program s (s\<lparr>rnPhase := Returned err\<rparr>)"

inductive_cases run_stepE: "run_step admin who s t"

inductive run_reach :: "bool \<Rightarrow> nat \<Rightarrow> running \<Rightarrow> bool" for admin where
  start: "run_reach admin 0 run_start"
| step: "run_reach admin n s \<Longrightarrow> run_step admin who s t \<Longrightarrow> run_reach admin (Suc n) t"

subsection \<open>The invariant\<close>

fun taken :: "phase \<Rightarrow> string list" where
  "taken Selecting = []"
| "taken (Unready err) = (case err of None \<Rightarrow> [] | Some e \<Rightarrow> [e])"
| "taken (Closing ls err) = (case err of None \<Rightarrow> [] | Some e \<Rightarrow> [e])"
| "taken (Joining err) = (case err of None \<Rightarrow> [] | Some e \<Rightarrow> [e])"
| "taken (Returned err) = (case err of None \<Rightarrow> [] | Some e \<Rightarrow> [e])"

fun phase_inv :: "bool \<Rightarrow> running \<Rightarrow> phase \<Rightarrow> bool" where
  "phase_inv admin s Selecting = (rnClosed s = [] \<and>
     (rnErrs s = [] \<longrightarrow> list_all (\<lambda>l. rnState s l \<noteq> Finished) (listeners admin)))"
| "phase_inv admin s (Unready err) = (rnClosed s = [] \<and> (err = None \<longrightarrow> rnCancelled s))"
| "phase_inv admin s (Closing ls err) = (rnClosed s @ ls = listeners admin \<and> (err = None \<longrightarrow> rnCancelled s))"
| "phase_inv admin s (Joining err) = (rnClosed s = listeners admin \<and> (err = None \<longrightarrow> rnCancelled s))"
| "phase_inv admin s (Returned err) = (rnClosed s = listeners admin \<and> (err = None \<longrightarrow> rnCancelled s) \<and>
     list_all (\<lambda>l. rnState s l = Finished) (listeners admin))"

definition unfinished :: "bool \<Rightarrow> running \<Rightarrow> listener_name list" where
  "unfinished admin s = filter (\<lambda>l. rnState s l \<noteq> Finished) (listeners admin)"

text \<open>Each goroutine sends at most one error, in the end.\<close>

definition run_inv :: "bool \<Rightarrow> running \<Rightarrow> bool" where
  "run_inv admin s \<longleftrightarrow> rnFailures s = taken (rnPhase s) @ rnErrs s \<and> phase_inv admin s (rnPhase s) \<and>
     length (rnErrs s) + length (unfinished admin s) \<le> errCh_capacity"

lemma move_simps [simp]:
  "rnErrs (move l st s) = rnErrs s" "rnFailures (move l st s) = rnFailures s" "rnClosed (move l st s) = rnClosed s"
  "rnPhase (move l st s) = rnPhase s" "rnCancelled (move l st s) = rnCancelled s" "rnChecker (move l st s) = rnChecker s"
  "rnState (move l st s) k = (if k = l then st else rnState s k)"
  by (simp_all add: move_def)

lemma in_listen_not_finished: "in_listen s l \<Longrightarrow> rnState s l \<noteq> Finished"
  by (auto simp: in_listen_def)

lemma unfinished_simps:
  "unfinished admin s = (if rnState s LMain \<noteq> Finished then [LMain] else []) @ (if rnState s LMetrics \<noteq> Finished then [LMetrics] else []) @
     (if admin \<and> rnState s LAdmin \<noteq> Finished then [LAdmin] else [])"
  by (simp add: unfinished_def listeners_def)

lemma run_inv_start: "run_inv admin run_start"
  by (simp add: run_inv_def run_start_def unfinished_simps errCh_capacity_def listeners_def)

lemma member_listeners: "l \<in> set (listeners admin) \<longleftrightarrow> runs admin l"
  by (cases l) (simp_all add: listeners_def)

lemma phase_inv_move:
  "phase_inv admin s ph \<Longrightarrow> rnState s l \<noteq> Finished \<Longrightarrow> runs admin l \<Longrightarrow>
   st \<noteq> Finished \<or> rnClosed s \<noteq> [] \<or> rnErrs s \<noteq> [] \<Longrightarrow> phase_inv admin (move l st s) ph"
  by (cases ph) (auto simp: list_all_iff in_listen_def)

lemma run_inv_step: "run_step admin who s t \<Longrightarrow> run_inv admin s \<Longrightarrow> run_inv admin t"
proof (induction rule: run_step.induct)
  case (cancel s)
  then show ?case by (cases "rnPhase s") (auto simp: run_inv_def unfinished_def)
next
  case (ready s)
  then show ?case using phase_inv_move [of admin s "rnPhase s" LMain Starting]
    by (cases "rnPhase s") (auto simp: run_inv_def unfinished_simps move_def list_all_iff listeners_def)
next
  case (serve l s)
  then show ?case using phase_inv_move [of admin s "rnPhase s" l Serving] in_listen_not_finished [of s l]
    by (cases l) (auto simp: run_inv_def unfinished_simps)
next
  case (fail l s e)
  then show ?case using phase_inv_move [of admin s "rnPhase s" l "Failing e"] in_listen_not_finished [of s l]
    by (cases l) (auto simp: run_inv_def unfinished_simps)
next
  case (send l s e)
  let ?s = "s\<lparr>rnErrs := rnErrs s @ [e], rnFailures := rnFailures s @ [e]\<rparr>"
  have "phase_inv admin ?s (rnPhase s)"
    using send by (cases "rnPhase s") (auto simp: run_inv_def list_all_iff)
  then have "phase_inv admin (move l Finished ?s) (rnPhase s)"
    using send by (intro phase_inv_move) auto
  with send show ?case
    by (cases l) (auto simp: run_inv_def unfinished_simps member_listeners split: if_splits)
next
  case (stop l s)
  then have "rnClosed s \<noteq> []" by auto
  with stop show ?case using phase_inv_move [of admin s "rnPhase s" l Finished] in_listen_not_finished [of s l]
    by (cases l) (auto simp: run_inv_def unfinished_simps)
qed (auto simp: run_inv_def unfinished_def)

lemma run_inv_reach: "run_reach admin n s \<Longrightarrow> run_inv admin s"
  by (induction rule: run_reach.induct) (auto intro: run_inv_start run_inv_step)

text \<open>A goroutine that has not ended finds room for its error.\<close>

lemma run_inv_room: "run_inv admin s \<Longrightarrow> runs admin l \<Longrightarrow> rnState s l \<noteq> Finished \<Longrightarrow> length (rnErrs s) < errCh_capacity"
  by (cases l) (auto simp: run_inv_def unfinished_simps split: if_splits)

subsection \<open>What Run returns, and that it does\<close>

fun rank :: "listener_state \<Rightarrow> nat" where
  "rank Idle = 4"
| "rank Starting = 3"
| "rank Serving = 2"
| "rank (Failing e) = 1"
| "rank Finished = 0"

fun phase_rank :: "phase \<Rightarrow> nat" where
  "phase_rank Selecting = 7"
| "phase_rank (Unready err) = 6"
| "phase_rank (Closing ls err) = 2 + length ls"
| "phase_rank (Joining err) = 1"
| "phase_rank (Returned err) = 0"

definition run_measure :: "running \<Rightarrow> nat" where
  "run_measure s = (if rnCancelled s then 0 else 1) + rank (rnState s LMain) + rank (rnState s LMetrics) + rank (rnState s LAdmin) +
     phase_rank (rnPhase s)"

lemma run_measure_step: "run_step admin who s t \<Longrightarrow> run_measure t < run_measure s"
proof (induction rule: run_step.induct)
  case (serve l s)
  then show ?case by (cases l) (auto simp: run_measure_def in_listen_def)
next
  case (fail l s e)
  then show ?case by (cases l) (auto simp: run_measure_def in_listen_def)
next
  case (send l s e)
  then show ?case by (cases l) (auto simp: run_measure_def)
next
  case (stop l s)
  then show ?case by (cases l) (auto simp: run_measure_def in_listen_def)
qed (auto simp: run_measure_def listeners_def)

lemma run_reach_measure: "run_reach admin n s \<Longrightarrow> n + run_measure s \<le> 20"
  by (induction rule: run_reach.induct) (use run_measure_step in \<open>fastforce simp: run_measure_def run_start_def\<close>)+

text \<open>
  Where the program cannot go on by itself: \<open>Run\<close> has returned, or it waits as it should, with the context
  alive, no error reported and every listener serving.
\<close>

definition waiting :: "bool \<Rightarrow> running \<Rightarrow> bool" where
  "waiting admin s \<longleftrightarrow> rnPhase s = Selecting \<and> \<not> rnCancelled s \<and> rnErrs s = [] \<and>
     list_all (\<lambda>l. rnState s l = Serving) (listeners admin)"

lemma listener_progress:
  assumes "run_inv admin s" "runs admin l" "rnState s l \<noteq> Finished" and stuck: "\<And>t. \<not> run_step admin Program s t"
  shows "rnState s l = Serving \<and> l \<notin> set (rnClosed s)"
proof -
  have idle: "rnState s LMain \<noteq> Idle" using run_step.ready stuck by blast
  have failing: "rnState s l \<noteq> Failing e" for e
    using run_step.send [of admin l s e] run_inv_room [OF assms(1-3)] stuck assms(2) by auto
  have listen: "in_listen s l"
    using idle failing assms(3) by (cases "rnState s l"; cases l) (auto simp: in_listen_def)
  moreover from this have "l \<notin> set (rnClosed s)" using run_step.stop [of admin l s] stuck assms(2) by blast
  ultimately show ?thesis using run_step.serve [of admin l s] stuck assms(2) by blast
qed

lemma run_progress:
  assumes inv: "run_inv admin s" and stuck: "\<And>t. \<not> run_step admin Program s t"
  shows "(\<exists>err. rnPhase s = Returned err) \<or> waiting admin s"
proof (cases "rnPhase s")
  case Selecting
  then have quiet: "\<not> rnCancelled s" "rnErrs s = []"
    using run_step.select_done [of s admin] run_step.select_error [of s _ _ admin] stuck by (blast, cases "rnErrs s", blast+)
  with Selecting inv have "list_all (\<lambda>l. rnState s l \<noteq> Finished) (listeners admin)" by (simp add: run_inv_def)
  then have "list_all (\<lambda>l. rnState s l = Serving) (listeners admin)"
    using listener_progress [OF inv _ _ stuck] by (auto simp: list_all_iff member_listeners)
  with Selecting quiet show ?thesis by (simp add: waiting_def)
next
  case (Unready err)
  then show ?thesis using run_step.unready stuck by blast
next
  case (Closing ls err)
  then show ?thesis using run_step.join run_step.close stuck by (cases ls) blast+
next
  case (Joining err)
  with inv have closed: "rnClosed s = listeners admin" by (simp add: run_inv_def)
  have "rnState s l = Finished" if "runs admin l" for l
    using listener_progress [OF inv that _ stuck] that by (auto simp: closed member_listeners)
  then have "list_all (\<lambda>l. rnState s l = Finished) (listeners admin)" by (auto simp: list_all_iff member_listeners)
  with Joining show ?thesis using run_step.return stuck by blast
qed simp

text \<open>
  C13.  A run has at most 20 steps, however the goroutines interleave, and it never hangs: in every state
  that is reached \<open>Run\<close> has returned, or one of its goroutines can take a step without help from outside,
  or it waits for its context with every listener serving and no error reported.  So once the context
  is cancelled or a listener has failed it shuts down and returns by itself.
\<close>

theorem run_returns:
  "run_reach admin n s \<Longrightarrow> n \<le> 20 \<and>
     ((\<exists>err. rnPhase s = Returned err) \<or> (\<exists>t. run_step admin Program s t) \<or> waiting admin s)"
  using run_progress [of admin s] run_inv_reach [of admin n s] run_reach_measure [of admin n s]
  by auto

theorem run_returns_witness:
  "\<exists>n s. run_reach False n s \<and> rnPhase s = Joining None \<and> rnState s LMain = Serving \<and> rnState s LMetrics = Failing ''bind'' \<and>
     (\<exists>t. run_step False Program s t)"
proof -
  define s1 where "s1 = move LMain Starting (run_start\<lparr>rnChecker := SetReady True (rnChecker run_start)\<rparr>)"
  define s2 where "s2 = move LMain Serving s1"
  define s3 where "s3 = move LMetrics (Failing ''bind'') s2"
  define s4 where "s4 = s3\<lparr>rnCancelled := True\<rparr>"
  define s5 where "s5 = s4\<lparr>rnPhase := Unready None\<rparr>"
  define s6 where "s6 = s5\<lparr>rnChecker := SetReady False (rnChecker s5), rnPhase := Closing (listeners False) None\<rparr>"
  define s7 where "s7 = s6\<lparr>rnClosed := rnClosed s6 @ [LMain], rnPhase := Closing [LMetrics] None\<rparr>"
  define s8 where "s8 = s7\<lparr>rnClosed := rnClosed s7 @ [LMetrics], rnPhase := Closing [] None\<rparr>"
  define s9 where "s9 = s8\<lparr>rnPhase := Joining None\<rparr>"
  note defs = s1_def s2_def s3_def s4_def s5_def s6_def s7_def s8_def run_start_def listeners_def in_listen_def
  have "run_step False Program run_start s1" unfolding s1_def by (rule run_step.ready) (simp add: run_start_def)
  moreover have "run_step False Program s1 s2" unfolding s2_def by (rule run_step.serve) (simp_all add: defs)
  moreover have "run_step False World s2 s3" unfolding s3_def by (rule run_step.fail) (simp_all add: defs)
  moreover have "run_step False World s3 s4" unfolding s4_def by (rule run_step.cancel) (simp add: defs)
  moreover have "run_step False Program s4 s5" unfolding s5_def by (rule run_step.select_done) (simp_all add: defs)
  moreover have "run_step False Program s5 s6" unfolding s6_def by (rule run_step.unready) (simp add: defs)
  moreover have "run_step False Program s6 s7" unfolding s7_def by (rule run_step.close) (simp add: defs)
  moreover have "run_step False Program s7 s8" unfolding s8_def by (rule run_step.close) (simp add: defs)
  moreover have "run_step False Program s8 s9" unfolding s9_def by (rule run_step.join) (simp add: defs)
  ultimately obtain n where n: "run_reach False n s9" by (meson run_reach.start run_reach.step)
  have "rnPhase s9 = Joining None" "rnState s9 LMain = Serving" "rnState s9 LMetrics = Failing ''bind''"
    by (simp_all add: s9_def defs)
  with run_returns [OF n] n show ?thesis by (auto simp: waiting_def)
qed

text \<open>
  C14.  When \<open>Run\<close> returns, every listener has been shut down, in order, and its goroutine is done.  The
  result is nil only after the context was cancelled, and otherwise the first error that any listener
  reported; the others are still in the channel.
\<close>

theorem run_outcome:
  assumes "run_reach admin n s" and "rnPhase s = Returned err"
  shows "list_all (\<lambda>l. rnState s l = Finished) (listeners admin) \<and> rnClosed s = listeners admin \<and>
    (case err of None \<Rightarrow> rnCancelled s | Some e \<Rightarrow> rnFailures s = e # rnErrs s)"
  using run_inv_reach [OF assms(1)] assms(2) by (cases err) (auto simp: run_inv_def)

theorem run_outcome_witness:
  "\<exists>n s. run_reach False n s \<and> rnPhase s = Returned (Some ''bind'') \<and> rnClosed s = [LMain, LMetrics] \<and> rnFailures s = [''bind'']"
proof -
  define s0 where "s0 = move LMetrics (Failing ''bind'') run_start"
  define s1 where "s1 = move LMetrics Finished (s0\<lparr>rnErrs := rnErrs s0 @ [''bind''], rnFailures := rnFailures s0 @ [''bind'']\<rparr>)"
  define s2 where "s2 = s1\<lparr>rnPhase := Unready (Some ''bind''), rnErrs := []\<rparr>"
  define s3 where "s3 = s2\<lparr>rnChecker := SetReady False (rnChecker s2), rnPhase := Closing (listeners False) (Some ''bind'')\<rparr>"
  define s4 where "s4 = s3\<lparr>rnClosed := rnClosed s3 @ [LMain], rnPhase := Closing [LMetrics] (Some ''bind'')\<rparr>"
  define s5 where "s5 = s4\<lparr>rnClosed := rnClosed s4 @ [LMetrics], rnPhase := Closing [] (Some ''bind'')\<rparr>"
  define s6 where "s6 = s5\<lparr>rnPhase := Joining (Some ''bind'')\<rparr>"
  define s7 where "s7 = move LMain Starting (s6\<lparr>rnChecker := SetReady True (rnChecker s6)\<rparr>)"
  define s8 where "s8 = move LMain Finished s7"
  define s9 where "s9 = s8\<lparr>rnPhase := Returned (Some ''bind'')\<rparr>"
  note defs = s0_def s1_def s2_def s3_def s4_def s5_def s6_def s7_def s8_def run_start_def listeners_def in_listen_def errCh_capacity_def
  have "run_step False World run_start s0" unfolding s0_def by (rule run_step.fail) (simp_all add: defs)
  moreover have "run_step False Program s0 s1" unfolding s1_def by (rule run_step.send) (simp_all add: defs)
  moreover have "run_step False Program s1 s2" unfolding s2_def by (rule run_step.select_error) (simp_all add: defs)
  moreover have "run_step False Program s2 s3" unfolding s3_def by (rule run_step.unready) (simp add: defs)
  moreover have "run_step False Program s3 s4" unfolding s4_def by (rule run_step.close) (simp add: defs)
  moreover have "run_step False Program s4 s5" unfolding s5_def by (rule run_step.close) (simp add: defs)
  moreover have "run_step False Program s5 s6" unfolding s6_def by (rule run_step.join) (simp add: defs)
  moreover have "run_step False Program s6 s7" unfolding s7_def by (rule run_step.ready) (simp add: defs)
  moreover have "run_step False Program s7 s8" unfolding s8_def by (rule run_step.stop) (simp_all add: defs)
  moreover have "run_step False Program s8 s9" unfolding s9_def by (rule run_step.return) (simp_all add: defs)
  ultimately obtain n where n: "run_reach False n s9" by (meson run_reach.start run_reach.step)
  have ph: "rnPhase s9 = Returned (Some ''bind'')" by (simp add: s9_def)
  have "rnErrs s9 = []" by (simp add: s9_def defs)
  with run_outcome [OF n ph] n ph show ?thesis by (auto simp: listeners_def)
qed

text \<open>
  The control plane's goroutine sets the readiness flag on its own: when \<open>Run\<close> shuts down before it
  gets there, the flag is set after it was cleared.
\<close>

lemma ready_after_shutdown:
  "\<exists>n s. run_reach False n s \<and> rnPhase s = Closing [LMain, LMetrics] None \<and> rnState s LMain = Serving \<and> ckReady (rnChecker s)"
proof (intro exI conjI)
  define s1 where "s1 = run_start\<lparr>rnCancelled := True\<rparr>"
  define s2 where "s2 = s1\<lparr>rnPhase := Unready None\<rparr>"
  define s3 where "s3 = s2\<lparr>rnChecker := SetReady False (rnChecker s2), rnPhase := Closing (listeners False) None\<rparr>"
  define s4 where "s4 = move LMain Starting (s3\<lparr>rnChecker := SetReady True (rnChecker s3)\<rparr>)"
  note defs = s1_def s2_def s3_def s4_def run_start_def listeners_def in_listen_def
  have "run_step False World run_start s1" unfolding s1_def by (rule run_step.cancel) (simp add: run_start_def)
  moreover have "run_step False Program s1 s2" unfolding s2_def by (rule run_step.select_done) (simp_all add: defs)
  moreover have "run_step False Program s2 s3" unfolding s3_def by (rule run_step.unready) (simp add: defs)
  moreover have "run_step False Program s3 s4" unfolding s4_def by (rule run_step.ready) (simp add: defs)
  moreover have "run_step False Program s4 (move LMain Serving s4)" by (rule run_step.serve) (simp_all add: defs)
  ultimately show "run_reach False (Suc (Suc (Suc (Suc (Suc 0))))) (move LMain Serving s4)"
    by (meson run_reach.start run_reach.step)
  show "rnPhase (move LMain Serving s4) = Closing [LMain, LMetrics] None" by (simp add: defs)
  show "rnState (move LMain Serving s4) LMain = Serving" by simp
  show "ckReady (rnChecker (move LMain Serving s4))" by (simp add: defs SetReady_def)
qed

end
