(* ===== verification/Routes.thy ===== *)
theory Routes
  imports Server
begin

section \<open>The routes of the public listener\<close>

text \<open>
  The routing tree over the patterns that \<open>routes\<close> registers, against a table of paths: which handler
  serves a request of the public listener.
\<close>

subsection \<open>Matching\<close>

lemma unescape_no_percent: "CHR ''%'' \<notin> set s \<Longrightarrow> unescape EncPath s = Some s"
  by (induction s) auto

lemma path_unescape_plain: "CHR ''%'' \<notin> set s \<Longrightarrow> path_unescape s = s"
  by (simp add: path_unescape_def unescape_no_percent)

lemma at_no_candidates [simp]: "at_literal seg [] = []" "at_wildcard seg [] = []" "finished_at rest [] = None"
  by (simp_all add: at_literal_def at_wildcard_def finished_at_def)

lemma match_nothing [simp]: "match_path ([] :: 'h candidate list) p = None"
proof (induction p rule: length_induct)
  case (1 p)
  obtain seg rest where f: "first_segment p = (seg, rest)" by fastforce
  show ?case
  proof (cases "p = []")
    case False
    then have "length rest < length p" using first_segment_shorter [OF False] by (simp add: f)
    then have "match_path ([] :: 'h candidate list) rest = None" using 1 by blast
    with False f show ?thesis by (simp add: match_path.simps [of "[]" p])
  qed (simp add: match_path.simps [of _ "[]"])
qed

text \<open>Candidates with literals and the rest of the path only.\<close>

definition no_wildcard :: "'h candidate \<Rightarrow> bool" where
  "no_wildcard c \<longleftrightarrow> list_all (\<lambda>s. case s of Wildcard _ \<Rightarrow> False | _ \<Rightarrow> True) (fst (snd c))"

lemma at_wildcard_none: "list_all no_wildcard cands \<Longrightarrow> at_wildcard seg cands = []"
  by (induction cands) (auto simp: at_wildcard_def no_wildcard_def map_filter_simps split: list.split segment.split)

lemma match_path_literals:
  assumes "list_all no_wildcard cands" "p \<noteq> []"
  shows "match_path cands p = (case first_segment p of (seg, rest) \<Rightarrow>
    (case match_path (at_literal seg cands) rest of Some m \<Rightarrow> Some m | None \<Rightarrow> finished_at [RestOfPath] cands))"
  using assms(2) by (subst match_path.simps) (simp add: at_wildcard_none [OF assms(1)] split: prod.split option.split)

lemma match_end: "match_path [(segs, [], b, h)] p = (if p = [] then Some (segs, b, h) else None)"
proof (cases "p = []")
  case False
  then show ?thesis
    by (subst match_path_literals) (simp_all add: no_wildcard_def at_literal_def map_filter_simps finished_at_def split: prod.split)
qed (simp add: match_path.simps [of _ "[]"] finished_at_def)

lemma match_rest: "match_path [(segs, [RestOfPath], b, h)] p = (if p = [] then None else Some (segs, b, h))"
proof (cases "p = []")
  case False
  then show ?thesis
    by (subst match_path_literals) (simp_all add: no_wildcard_def at_literal_def map_filter_simps finished_at_def split: prod.split)
qed (simp add: match_path.simps [of _ "[]"] finished_at_def)

lemma first_segment_slash:
  assumes "CHR ''%'' \<notin> set q" "q \<noteq> []"
  shows "first_segment (CHR ''/'' # q) = (takeWhile (\<lambda>c. c \<noteq> CHR ''/'') q, dropWhile (\<lambda>c. c \<noteq> CHR ''/'') q)"
proof -
  have "CHR ''%'' \<notin> set (takeWhile (\<lambda>c. c \<noteq> CHR ''/'') q)" using assms(1) by (meson set_takeWhileD)
  then show ?thesis using assms(2)
    by (simp add: first_segment_def Let_def path_unescape_plain) (metis dropWhile_eq_drop)
qed

lemma match_slash:
  assumes "list_all no_wildcard cands" "CHR ''%'' \<notin> set q" "q \<noteq> []"
  shows "match_path cands (CHR ''/'' # q) =
    (case match_path (at_literal (takeWhile (\<lambda>c. c \<noteq> CHR ''/'') q) cands) (dropWhile (\<lambda>c. c \<noteq> CHR ''/'') q) of
       Some m \<Rightarrow> Some m | None \<Rightarrow> finished_at [RestOfPath] cands)"
  using match_path_literals [OF assms(1), of "CHR ''/'' # q"] first_segment_slash [OF assms(2,3)] by simp

lemma match_root: "list_all no_wildcard cands \<Longrightarrow> match_path cands ''/'' =
    (case match_path (at_literal ''/'' cands) [] of Some m \<Rightarrow> Some m | None \<Rightarrow> finished_at [RestOfPath] cands)"
  using match_path_literals [of cands "''/''"] by (simp add: first_segment_def)

text \<open>A path split behind its first segment.\<close>

lemma whole_segment:
  assumes "CHR ''/'' \<notin> set l"
  shows "takeWhile (\<lambda>c. c \<noteq> CHR ''/'') q = l \<and> dropWhile (\<lambda>c. c \<noteq> CHR ''/'') q = [] \<longleftrightarrow> q = l"
proof
  assume "takeWhile (\<lambda>c. c \<noteq> CHR ''/'') q = l \<and> dropWhile (\<lambda>c. c \<noteq> CHR ''/'') q = []"
  then show "q = l" by (metis append_Nil2 takeWhile_dropWhile_id)
next
  assume "q = l"
  then have "\<forall>c\<in>set q. c \<noteq> CHR ''/''" using assms by auto
  with \<open>q = l\<close> show "takeWhile (\<lambda>c. c \<noteq> CHR ''/'') q = l \<and> dropWhile (\<lambda>c. c \<noteq> CHR ''/'') q = []" by simp
qed

lemma inner_segment:
  assumes "CHR ''/'' \<notin> set l"
  shows "takeWhile (\<lambda>c. c \<noteq> CHR ''/'') q = l \<and> dropWhile (\<lambda>c. c \<noteq> CHR ''/'') q = CHR ''/'' # t \<longleftrightarrow> q = l @ CHR ''/'' # t"
proof
  assume "takeWhile (\<lambda>c. c \<noteq> CHR ''/'') q = l \<and> dropWhile (\<lambda>c. c \<noteq> CHR ''/'') q = CHR ''/'' # t"
  then show "q = l @ CHR ''/'' # t" using takeWhile_dropWhile_id [of "\<lambda>c. c \<noteq> CHR ''/''" q] by simp
next
  assume q: "q = l @ CHR ''/'' # t"
  have "\<forall>c\<in>set l. c \<noteq> CHR ''/''" using assms by auto
  then show "takeWhile (\<lambda>c. c \<noteq> CHR ''/'') q = l \<and> dropWhile (\<lambda>c. c \<noteq> CHR ''/'') q = CHR ''/'' # t" by (simp add: q)
qed

lemma rest_slash: "dropWhile (\<lambda>c. c \<noteq> CHR ''/'') q \<noteq> [] \<Longrightarrow> \<exists>t. dropWhile (\<lambda>c. c \<noteq> CHR ''/'') q = CHR ''/'' # t"
  by (induction q) auto

subsection \<open>The patterns of \<open>routes\<close>\<close>

definition main_table :: "bool \<Rightarrow> main_route route list" where
  "main_table mounted =
     [(''GET'', [Literal ''healthz''], MLive), (''GET'', [Literal ''readyz''], MReady), (''GET'', [Literal ''version''], MVersion)] @
     (if mounted then [([], [Literal ''p'', RestOfPath], MProxy), ([], [Literal ''__bumshi__'', RestOfPath], MEngine),
        (''GET'', [Literal ''__bumshi__'', Literal ''auth''], MAuth)] else [])"

lemma register_main: "register_all (main_patterns mounted mounted mounted) = Some (main_table mounted)"
  by (cases mounted; simp only: if_True if_False; code_simp)

lemma auth_path: "AuthPath = ''/__bumshi__/auth''" by code_simp

abbreviation segment_of :: "string \<Rightarrow> string" where
  "segment_of q \<equiv> takeWhile (\<lambda>c. c \<noteq> CHR ''/'') q"

abbreviation after_segment :: "string \<Rightarrow> string" where
  "after_segment q \<equiv> dropWhile (\<lambda>c. c \<noteq> CHR ''/'') q"

lemma get_match:
  assumes "CHR ''%'' \<notin> set q"
  shows "match_verb (main_table mounted) ''GET'' (CHR ''/'' # q) =
    (if q = ''healthz'' then Some ([Literal q], [], MLive) else if q = ''readyz'' then Some ([Literal q], [], MReady)
     else if q = ''version'' then Some ([Literal q], [], MVersion)
     else if mounted \<and> q = ''__bumshi__/auth'' then Some ([Literal ''__bumshi__'', Literal ''auth''], [], MAuth) else None)"
proof -
  let ?cands = "[([Literal ''healthz''], [Literal ''healthz''], [], MLive), ([Literal ''readyz''], [Literal ''readyz''], [], MReady),
    ([Literal ''version''], [Literal ''version''], [], MVersion)] @
    (if mounted then [([Literal ''__bumshi__'', Literal ''auth''], [Literal ''__bumshi__'', Literal ''auth''], [], MAuth)] else [])"
  have cands: "match_verb (main_table mounted) ''GET'' p = match_path ?cands p" for p
    by (simp add: match_verb_def main_table_def)
  have lit: "list_all no_wildcard ?cands" by (simp add: no_wildcard_def)
  have auth: "match_path [([Literal ''__bumshi__'', Literal ''auth''], [Literal ''auth''], [], MAuth)] (after_segment q) =
      (if after_segment q = ''/auth'' then Some ([Literal ''__bumshi__'', Literal ''auth''], [], MAuth) else None)"
  proof (cases "after_segment q")
    case Nil
    show ?thesis unfolding Nil by (simp add: match_path.simps [of _ "[]"] finished_at_def)
  next
    case (Cons c t)
    then have c: "c = CHR ''/''" using rest_slash [of q] by simp
    have t: "CHR ''%'' \<notin> set t" using assms Cons by (metis list.set_intros(2) set_dropWhileD)
    show ?thesis
    proof (cases "t = []")
      case True
      then show ?thesis by (simp add: Cons c match_root no_wildcard_def at_literal_def map_filter_simps finished_at_def)
    next
      case False
      let ?c = "[([Literal ''__bumshi__'', Literal ''auth''], [Literal ''auth''], [], MAuth)]"
      have "list_all no_wildcard ?c" by (simp add: no_wildcard_def)
      moreover have "at_literal (segment_of t) ?c =
          (if segment_of t = ''auth'' then [([Literal ''__bumshi__'', Literal ''auth''], [], [], MAuth)] else [])"
        by (auto simp: at_literal_def map_filter_simps)
      moreover have "finished_at [RestOfPath] ?c = None" by (simp add: finished_at_def)
      ultimately have step: "match_path ?c (CHR ''/'' # t) =
          (if segment_of t = ''auth'' \<and> after_segment t = [] then Some ([Literal ''__bumshi__'', Literal ''auth''], [], MAuth) else None)"
        by (simp add: match_slash [OF _ t False] match_end del: dropWhile_eq_Nil_conv)
      show ?thesis unfolding Cons c step using whole_segment [of "''auth''" t] by simp
    qed
  qed
  show ?thesis
  proof (cases "q = []")
    case True
    then show ?thesis by (simp add: cands match_root no_wildcard_def at_literal_def map_filter_simps finished_at_def)
  next
    case False
    have lits: "at_literal (segment_of q) ?cands =
        (if segment_of q = ''healthz'' then [([Literal ''healthz''], [], [], MLive)]
         else if segment_of q = ''readyz'' then [([Literal ''readyz''], [], [], MReady)]
         else if segment_of q = ''version'' then [([Literal ''version''], [], [], MVersion)]
         else if mounted \<and> segment_of q = ''__bumshi__'' then [([Literal ''__bumshi__'', Literal ''auth''], [Literal ''auth''], [], MAuth)]
         else [])"
      by (auto simp: at_literal_def map_filter_simps)
    have none: "finished_at [RestOfPath] ?cands = None" by (simp add: finished_at_def)
    have ends: "segment_of q = l \<and> after_segment q = [] \<longleftrightarrow> q = l" if "CHR ''/'' \<notin> set l" for l
      by (rule whole_segment [OF that])
    have inner: "segment_of q = ''__bumshi__'' \<and> after_segment q = ''/auth'' \<longleftrightarrow> q = ''__bumshi__/auth''"
      using inner_segment [of "''__bumshi__''" q "''auth''"] by simp
    show ?thesis
    proof (cases "segment_of q = ''__bumshi__''")
      case True
      then have "q \<noteq> ''healthz''" "q \<noteq> ''readyz''" "q \<noteq> ''version''" by auto
      with True inner show ?thesis unfolding cands match_slash [OF lit assms False] lits none
        by (cases mounted) (simp_all add: auth)
    next
      case other: False
      then have "q \<noteq> ''__bumshi__/auth''" by auto
      then show ?thesis
        unfolding cands match_slash [OF lit assms False] lits none match_end
        using other ends [of "''healthz''"] ends [of "''readyz''"] ends [of "''version''"]
        by (cases "after_segment q = []") (auto simp: match_end simp del: dropWhile_eq_Nil_conv)
    qed
  qed
qed

lemma any_match:
  assumes "CHR ''%'' \<notin> set q"
  shows "match_verb (main_table mounted) [] (CHR ''/'' # q) =
    (if mounted \<and> has_prefix q ''p/'' then Some ([Literal ''p'', RestOfPath], [], MProxy)
     else if mounted \<and> has_prefix q ''__bumshi__/'' then Some ([Literal ''__bumshi__'', RestOfPath], [], MEngine) else None)"
proof -
  let ?cands = "if mounted then [([Literal ''p'', RestOfPath], [Literal ''p'', RestOfPath], [], MProxy),
    ([Literal ''__bumshi__'', RestOfPath], [Literal ''__bumshi__'', RestOfPath], [], MEngine)] else []"
  have cands: "match_verb (main_table mounted) [] p = match_path ?cands p" for p
    by (simp add: match_verb_def main_table_def)
  have lit: "list_all no_wildcard ?cands" by (simp add: no_wildcard_def)
  have seg: "has_prefix q (l @ ''/'') \<longleftrightarrow> segment_of q = l \<and> after_segment q \<noteq> []" if "CHR ''/'' \<notin> set l" for l
  proof
    assume "has_prefix q (l @ ''/'')"
    then obtain t where "q = l @ CHR ''/'' # t" by (auto simp: prefix_def)
    with inner_segment [OF that, of q t] show "segment_of q = l \<and> after_segment q \<noteq> []" by simp
  next
    assume *: "segment_of q = l \<and> after_segment q \<noteq> []"
    then obtain t where "after_segment q = CHR ''/'' # t" using rest_slash by blast
    with * inner_segment [OF that, of q t] show "has_prefix q (l @ ''/'')" by (simp add: prefix_def)
  qed
  show ?thesis
  proof (cases "q = []")
    case True
    then show ?thesis by (simp add: cands match_root no_wildcard_def at_literal_def map_filter_simps finished_at_def)
  next
    case False
    have lits: "at_literal (segment_of q) ?cands =
        (if mounted \<and> segment_of q = ''p'' then [([Literal ''p'', RestOfPath], [RestOfPath], [], MProxy)]
         else if mounted \<and> segment_of q = ''__bumshi__'' then [([Literal ''__bumshi__'', RestOfPath], [RestOfPath], [], MEngine)] else [])"
      by (auto simp: at_literal_def map_filter_simps)
    have none: "finished_at [RestOfPath] ?cands = None" by (simp add: finished_at_def)
    show ?thesis
      unfolding cands match_slash [OF lit assms False] lits none
      using seg [of "''p''"] seg [of "''__bumshi__''"] by (auto simp: match_rest)
  qed
qed

lemma other_match: "verb \<noteq> ''GET'' \<Longrightarrow> verb \<noteq> [] \<Longrightarrow> match_verb (main_table mounted) verb p = None"
  by (simp add: match_verb_def main_table_def)

subsection \<open>The table\<close>

text \<open>
  The handler of a clean path, given without its first slash, and the answers of the multiplexer: a
  redirect for the two prefixes without their final slash, 405 for the probes and the version.
\<close>

definition reads :: "string \<Rightarrow> bool" where
  "reads verb \<longleftrightarrow> verb = ''GET'' \<or> verb = ''HEAD''"

definition probe :: "string \<Rightarrow> main_route option" where
  "probe q = map_of [(''healthz'', MLive), (''readyz'', MReady), (''version'', MVersion)] q"

definition route_of :: "bool \<Rightarrow> string \<Rightarrow> string \<Rightarrow> main_route option" where
  "route_of mounted verb q =
     (if reads verb \<and> probe q \<noteq> None then probe q
      else if \<not> mounted then None
      else if reads verb \<and> q = ''__bumshi__/auth'' then Some MAuth
      else if has_prefix q ''p/'' then Some MProxy
      else if has_prefix q ''__bumshi__/'' then Some MEngine else None)"

lemma mux_match_cases:
  "mux_match (main_table mounted) verb p =
    (if reads verb \<and> match_verb (main_table mounted) ''GET'' p \<noteq> None then match_verb (main_table mounted) ''GET'' p
     else match_verb (main_table mounted) [] p)"
  by (cases "verb = ''GET''"; cases "verb = ''HEAD''"; cases "verb = []")
    (simp_all add: mux_match_def other_match reads_def split: option.split)

lemma mux_match_table:
  assumes "CHR ''%'' \<notin> set q"
  shows "map_option (\<lambda>(_, bound, h). (bound, h)) (mux_match (main_table mounted) verb (CHR ''/'' # q)) =
    map_option (\<lambda>h. ([], h)) (route_of mounted verb q)"
  unfolding mux_match_cases get_match [OF assms] any_match [OF assms] route_of_def probe_def
  by simp

lemma trailing_slash: "CHR ''/'' \<notin> set l \<Longrightarrow> has_prefix (q @ ''/'') (l @ ''/'') \<and> CHR ''/'' \<notin> set q \<longleftrightarrow> q = l"
proof
  assume *: "has_prefix (q @ ''/'') (l @ ''/'') \<and> CHR ''/'' \<notin> set q"
  then obtain t where t: "q @ ''/'' = l @ CHR ''/'' # t" by (auto simp: prefix_def)
  then have "t = []" using * by (cases t rule: rev_cases) auto
  with t show "q = l" by simp
qed simp

lemma get_with_slash: "q @ ''/'' \<noteq> ''healthz'' \<and> q @ ''/'' \<noteq> ''readyz'' \<and> q @ ''/'' \<noteq> ''version'' \<and> q @ ''/'' \<noteq> ''__bumshi__/auth''"
  by (auto dest!: arg_cong [of _ _ last])

lemma redirect_table:
  assumes "CHR ''%'' \<notin> set q"
  shows "slash_redirect (main_table mounted) verb (CHR ''/'' # q) u =
    (if mounted \<and> (q = ''p'' \<or> q = ''__bumshi__'')
     then Some (empty_url\<lparr>Path := clean_path (Path u) @ ''/'', RawQuery := RawQuery u\<rparr>) else None)"
proof -
  have percent: "CHR ''%'' \<notin> set (q @ ''/'')" using assms by simp
  have get: "match_verb (main_table mounted) ''GET'' (CHR ''/'' # q @ ''/'') = None"
    using get_match [OF percent] get_with_slash [of q] by simp
  have bare: "has_prefix (q @ ''/'') (l @ ''/'') \<and> count_list q CHR ''/'' = 0 \<longleftrightarrow> q = l" if "CHR ''/'' \<notin> set l" for l
    using trailing_slash [OF that, of q] by (simp add: count_list_0_iff)
  have exact: "exact_match (Some ([Literal l, RestOfPath], bound, h)) (CHR ''/'' # q @ ''/'') \<longleftrightarrow> count_list q CHR ''/'' = 0"
    for l bound and h :: main_route
    by (auto simp: exact_match_def)
  have slash: "exact_match (mux_match (main_table mounted) verb (CHR ''/'' # q @ ''/'')) (CHR ''/'' # q @ ''/'') \<longleftrightarrow>
      mounted \<and> (q = ''p'' \<or> q = ''__bumshi__'')"
  proof (cases "mounted \<and> has_prefix (q @ ''/'') ''p/''")
    case True
    then have "q \<noteq> ''__bumshi__''" by auto
    with True bare [of "''p''"] show ?thesis
      unfolding mux_match_cases get any_match [OF percent] by (simp add: exact)
  next
    case p: False
    show ?thesis
    proof (cases "mounted \<and> has_prefix (q @ ''/'') ''__bumshi__/''")
      case True
      then have "q \<noteq> ''p''" by auto
      with True p bare [of "''__bumshi__''"] show ?thesis
        unfolding mux_match_cases get any_match [OF percent] by (simp add: exact)
    next
      case False
      then have "\<not> (mounted \<and> (q = ''p'' \<or> q = ''__bumshi__''))" using p by auto
      with p False show ?thesis
        unfolding mux_match_cases get any_match [OF percent] by (simp only: if_False simp_thms not_None_eq) (simp add: exact_match_def)
    qed
  qed
  show ?thesis
  proof (cases "mounted \<and> (q = ''p'' \<or> q = ''__bumshi__'')")
    case True
    then have "mux_match (main_table mounted) verb (CHR ''/'' # q) = None"
      unfolding mux_match_cases get_match [OF assms] any_match [OF assms] by (elim conjE disjE) simp_all
    moreover have "\<not> has_suffix (CHR ''/'' # q) ''/''" using True by (elim conjE disjE) (simp_all add: suffix_to_prefix)
    ultimately show ?thesis using slash True by (simp add: slash_redirect_def exact_match_def)
  next
    case False
    with slash show ?thesis by (simp add: slash_redirect_def)
  qed
qed

lemma verbs_table:
  assumes "CHR ''%'' \<notin> set q"
  shows "matching_verbs (main_table mounted) (CHR ''/'' # q) =
    (if probe q \<noteq> None \<or> (mounted \<and> q = ''__bumshi__/auth'') then [''GET'', ''HEAD''] else [])"
proof -
  have percent: "CHR ''%'' \<notin> set (q @ ''/'')" using assms by simp
  have get: "match_verb (main_table mounted) ''GET'' (CHR ''/'' # q @ ''/'') = None"
    using get_match [OF percent] get_with_slash [of q] by simp
  have at: "verbs_at (main_table mounted) p = (if match_verb (main_table mounted) ''GET'' p = None then []
      else ''GET'' # ''GET'' # ''GET'' # (if mounted then [''GET''] else []))" for p
    by (simp add: verbs_at_def main_table_def)
  have hit: "match_verb (main_table mounted) ''GET'' (CHR ''/'' # q) \<noteq> None \<longleftrightarrow> probe q \<noteq> None \<or> (mounted \<and> q = ''__bumshi__/auth'')"
    unfolding get_match [OF assms] probe_def by simp
  have names: "sort [''HEAD'', ''GET''] = [''GET'', ''HEAD'']" by code_simp
  have slash: "verbs_at (main_table mounted) ((CHR ''/'' # q) @ ''/'') = []" using get by (simp add: at)
  show ?thesis
  proof (cases "match_verb (main_table mounted) ''GET'' (CHR ''/'' # q) = None")
    case True
    then have none: "verbs_at (main_table mounted) (CHR ''/'' # q) = []" by (simp add: at)
    have cond: "\<not> (probe q \<noteq> None \<or> (mounted \<and> q = ''__bumshi__/auth''))" using hit True by simp
    show ?thesis unfolding matching_verbs_def Let_def slash none if_not_P [OF cond] by simp
  next
    case False
    then have some: "verbs_at (main_table mounted) (CHR ''/'' # q) = ''GET'' # ''GET'' # ''GET'' # (if mounted then [''GET''] else [])"
      by (simp add: at)
    have cond: "probe q \<noteq> None \<or> (mounted \<and> q = ''__bumshi__/auth'')" using hit False by simp
    show ?thesis unfolding matching_verbs_def Let_def slash some if_P [OF cond] by (simp add: names)
  qed
qed

text \<open>
  C23.  The public listener serves what its table says.  A request for a clean path without escapes goes to
  the handler of the table: the probes and the version answer reads, everything under the link prefix goes
  to the proxy and under the runtime's to its files, except for the reads of the token endpoint; the two
  prefixes without a slash are redirected to the one with it, other methods on the probes get 405 and all
  else 404.  While the proxy is not built, there is nothing but the probes.
\<close>

theorem control_plane_routes:
  assumes "register_all (main_patterns mounted mounted mounted) = Some routes"
    "EscapedPath (rURL r) = CHR ''/'' # q" "clean_path (CHR ''/'' # q) = CHR ''/'' # q" "CHR ''%'' \<notin> set q"
  shows "mux_find routes r =
    (if mounted \<and> (q = ''p'' \<or> q = ''__bumshi__'')
     then MuxRedirect (url_String (empty_url\<lparr>Path := clean_path (Path (rURL r)) @ ''/'', RawQuery := RawQuery (rURL r)\<rparr>))
     else case route_of mounted (rMethod r) q of
         Some h \<Rightarrow> MuxHandler h []
       | None \<Rightarrow> if probe q \<noteq> None then MuxNotAllowed [''GET'', ''HEAD''] else MuxNotFound)"
proof -
  have routes: "routes = main_table mounted" using assms(1) register_main by simp
  let ?p = "CHR ''/'' # q"
  have path: "(if rMethod r = ''CONNECT'' then ?p else clean_path ?p) = ?p" using assms(3) by simp
  have found: "mux_find routes r = (case slash_redirect routes (rMethod r) ?p (rURL r) of
      Some v \<Rightarrow> MuxRedirect (url_String v)
    | None \<Rightarrow> (case mux_match routes (rMethod r) ?p of
        Some (_, bound, h) \<Rightarrow> MuxHandler h bound
      | None \<Rightarrow> if matching_verbs routes ?p \<noteq> [] then MuxNotAllowed (matching_verbs routes ?p) else MuxNotFound))"
    unfolding mux_find_def Let_def assms(2) path by simp
  have handler: "(case mux_match routes (rMethod r) ?p of Some (_, bound, h) \<Rightarrow> MuxHandler h bound | None \<Rightarrow> other) =
      (case route_of mounted (rMethod r) q of Some h \<Rightarrow> MuxHandler h [] | None \<Rightarrow> other)" for other
    using mux_match_table [OF assms(4), of mounted "rMethod r"]
    unfolding routes by (auto split: option.split)
  have "mounted \<and> q = ''__bumshi__/auth'' \<Longrightarrow> route_of mounted (rMethod r) q \<noteq> None" by (auto simp: route_of_def)
  then show ?thesis
    unfolding found handler unfolding routes redirect_table [OF assms(4)] verbs_table [OF assms(4)]
    by (auto split: option.split)
qed

theorem control_plane_routes_witness:
  "mux_find (main_table True) (request.truncate ((sample_ctx ''/p/abc/def'')\<lparr>rMethod := ''POST''\<rparr>)) = MuxHandler MProxy [] \<and>
   mux_find (main_table False) (request.truncate ((sample_ctx ''/healthz'')\<lparr>rMethod := ''POST''\<rparr>)) = MuxNotAllowed [''GET'', ''HEAD'']"
proof -
  have "EscapedPath (rURL (request.truncate ((sample_ctx ''/p/abc/def'')\<lparr>rMethod := ''POST''\<rparr>))) = CHR ''/'' # ''p/abc/def''"
    "clean_path (CHR ''/'' # ''p/abc/def'') = CHR ''/'' # ''p/abc/def''" "CHR ''%'' \<notin> set ''p/abc/def''"
    "EscapedPath (rURL (request.truncate ((sample_ctx ''/healthz'')\<lparr>rMethod := ''POST''\<rparr>))) = CHR ''/'' # ''healthz''"
    "clean_path (CHR ''/'' # ''healthz'') = CHR ''/'' # ''healthz''" "CHR ''%'' \<notin> set ''healthz''"
    by code_simp+
  note paths = this
  have "route_of True ''POST'' ''p/abc/def'' = Some MProxy" "route_of False ''POST'' ''healthz'' = None" "probe ''healthz'' \<noteq> None"
    by code_simp+
  with control_plane_routes [OF register_main paths(1-3)] control_plane_routes [OF register_main paths(4-6)] show ?thesis
    by (simp add: sample_ctx_def request.truncate_def)
qed

end
