(* ===== verification/Metrics_Page.thy ===== *)
theory Metrics_Page
  imports Server_Flow Ssrf_Ranges
begin

section \<open>The metrics page\<close>

text \<open>
  The registry of the service with the vectors of \<open>httpx\<close> and of the proxy, and a reader of the text it
  serves: whatever the labels are, a scrape reads back exactly the series recorded.
\<close>

record 'f collectors =
  coRequests :: "'f vec"
  coUpstream :: "'f histogramVec"

definition NewCollectors :: "'f::linorder list \<Rightarrow> 'f collectors" where
  "NewCollectors buckets =
     \<lparr>coRequests = NewVec ''bumshi_proxy_requests_total'' ''Proxy requests by outcome.'' [''outcome''],
      coUpstream = NewHistogramVec ''bumshi_proxy_upstream_duration_seconds'' ''Upstream response latency in seconds.'' buckets []\<rparr>"

text \<open>
  The registry is read through references to its vectors: here it is built from their values at the time it
  is read, registered in the order in which \<open>New\<close> registers them, the proxy's when the proxy is built.
\<close>

type_synonym 'f registry = "'f vector list"

definition NewRegistry :: "'f registry" where
  "NewRegistry = []"

definition register :: "'f vector \<Rightarrow> 'f registry \<Rightarrow> 'f registry" where
  "register v r = r @ [v]"

definition service_registry :: "'f httpCollectors \<Rightarrow> 'f collectors option \<Rightarrow> 'f registry" where
  "service_registry c px =
     (let r = register (HistogramVec (colDuration c)) (register (GaugeVec (colInFlight c))
           (register (CounterVec (colRequests c)) NewRegistry))
      in case px of None \<Rightarrow> r | Some p \<Rightarrow> register (HistogramVec (coUpstream p)) (register (CounterVec (coRequests p)) r))"

text \<open>What the proxy records of its requests: an outcome each, and the time of each upstream response.\<close>

definition record_proxy :: "string list \<Rightarrow> 'f::linordered_idom list \<Rightarrow> 'f collectors \<Rightarrow> 'f collectors" where
  "record_proxy ends waits c =
     c\<lparr>coRequests := fold (\<lambda>out. counter_Inc [out]) ends (coRequests c),
       coUpstream := fold (\<lambda>t. Observe t []) waits (coUpstream c)\<rparr>"

subsection \<open>Reading the page\<close>

lemma read_label_shorter: "read_label s = Some (v, u) \<Longrightarrow> length u < length s"
  by (induction s arbitrary: v u rule: read_label.induct) (auto simp: Let_def split: if_splits list.splits, fastforce+)

type_synonym sample = "string \<times> (string \<times> string) list \<times> string"

text \<open>The labels behind an opening brace, and a line: name, labels, value.\<close>

function read_pairs :: "string \<Rightarrow> ((string \<times> string) list \<times> string) option" where
  "read_pairs s =
     (let n = takeWhile (\<lambda>c. c \<noteq> CHR ''='') s in
      case drop (length n) s of
        e # q # t \<Rightarrow>
          if byte q \<noteq> 0x22 then None
          else (case read_label t of
              Some (v, c # u) \<Rightarrow>
                if c = CHR ''}'' then Some ([(n, v)], u)
                else if c = CHR '','' then map_option (\<lambda>(ps, x). ((n, v) # ps, x)) (read_pairs u)
                else None
            | _ \<Rightarrow> None)
      | _ \<Rightarrow> None)"
  by pat_completeness auto
termination
proof (relation "measure length", goal_cases)
  case (2 s n e l q t p v w c u)
  then have "length (c # u) < length t" "length (drop (length n) s) = Suc (Suc (length t))"
    using read_label_shorter [of t v w] by auto
  then show ?case by simp
qed simp

declare read_pairs.simps [simp del]

definition read_sample :: "string \<Rightarrow> sample option" where
  "read_sample line =
     (let n = takeWhile (\<lambda>c. c \<noteq> CHR ''{'' \<and> c \<noteq> CHR '' '') line in
      case drop (length n) line of
        [] \<Rightarrow> None
      | c # t \<Rightarrow>
          if c = CHR '' '' then Some (n, [], t)
          else (case read_pairs t of Some (ps, d # v) \<Rightarrow> if d = CHR '' '' then Some (n, ps, v) else None | _ \<Rightarrow> None))"

definition read_page :: "bytes \<Rightarrow> sample option list" where
  "read_page text = map read_sample (filter (\<lambda>l. l \<noteq> [] \<and> hd l \<noteq> CHR ''#'') (split_byte (CHR 0x0A) text))"

text \<open>What a vector has recorded.\<close>

definition vec_samples :: "('f \<Rightarrow> string) \<Rightarrow> 'f vec \<Rightarrow> sample list" where
  "vec_samples fmt c = map (\<lambda>ch. (vName c, zip (vLabels c) (chLabels ch), fmt (chValue ch)))
     (sort_key (labelKey \<circ> chLabels) (map snd (vValues c)))"

definition child_samples :: "('f \<Rightarrow> string) \<Rightarrow> 'f histogramVec \<Rightarrow> 'f histogramChild \<Rightarrow> sample list" where
  "child_samples fmt h ch =
     (let ls = zip (hvLabels h) (hcLabels ch) in
      map (\<lambda>(ub, n). (hvName h @ ''_bucket'', ls @ [(''le'', fmt ub)], itoa (unat n))) (zip (hvBuckets h) (hcCounts ch)) @
      [(hvName h @ ''_bucket'', ls @ [(''le'', ''+Inf'')], itoa (unat (hcCount ch))),
       (hvName h @ ''_sum'', ls, fmt (hcSum ch)), (hvName h @ ''_count'', ls, itoa (unat (hcCount ch)))])"

fun samples :: "('f \<Rightarrow> string) \<Rightarrow> 'f vector \<Rightarrow> sample list" where
  "samples fmt (CounterVec c) = vec_samples fmt c"
| "samples fmt (GaugeVec g) = vec_samples fmt g"
| "samples fmt (HistogramVec h) = concat (map (child_samples fmt h) (sort_key (labelKey \<circ> hcLabels) (map snd (hvValues h))))"

subsection \<open>Well-formed vectors\<close>

definition metric_name :: "string \<Rightarrow> bool" where
  "metric_name s \<longleftrightarrow> s \<noteq> [] \<and> list_all (\<lambda>c. is_alnum c \<or> c = CHR ''_'') s"

definition names_ok :: "string \<Rightarrow> string list \<Rightarrow> bool" where
  "names_ok name keys \<longleftrightarrow> metric_name name \<and> list_all metric_name keys"

definition vec_ok :: "'f vec \<Rightarrow> bool" where
  "vec_ok c \<longleftrightarrow> names_ok (vName c) (vLabels c) \<and> list_all (\<lambda>(k, ch). length (chLabels ch) = length (vLabels c)) (vValues c)"

definition histogram_ok :: "'f histogramVec \<Rightarrow> bool" where
  "histogram_ok h \<longleftrightarrow> names_ok (hvName h) (hvLabels h) \<and> list_all (\<lambda>(k, ch). length (hcLabels ch) = length (hvLabels h)) (hvValues h)"

fun vector_ok :: "'f vector \<Rightarrow> bool" where
  "vector_ok (CounterVec c) = vec_ok c"
| "vector_ok (GaugeVec g) = vec_ok g"
| "vector_ok (HistogramVec h) = histogram_ok h"

named_theorems vec_intros "operations that keep a vector well-formed"

lemma list_all_put: "list_all P xs \<Longrightarrow> P (k, v) \<Longrightarrow> list_all P (AList.update k v xs)"
  by (induction xs) auto

lemma list_all_lookup: "list_all (\<lambda>(k, v). P v) xs \<Longrightarrow> map_of xs k = Some v \<Longrightarrow> P v"
  by (auto simp: list_all_iff dest!: map_of_SomeD)

lemma vec_ok_Add [vec_intros]: "vec_ok c \<Longrightarrow> vec_ok (counter_Add d ls c)"
  by (auto simp: vec_ok_def counter_Add_def Let_def intro!: list_all_put split: option.split dest: list_all_lookup)

lemma vec_ok_Inc [vec_intros]: "vec_ok c \<Longrightarrow> vec_ok (counter_Inc ls c)"
  by (simp add: counter_Inc_def vec_intros)

lemma vec_ok_gauge [vec_intros]: "vec_ok g \<Longrightarrow> vec_ok (gauge_Add d ls g)"
  by (auto simp: vec_ok_def gauge_Add_def gauge_mutate_def Let_def intro!: list_all_put split: option.split dest: list_all_lookup)

lemma vec_ok_gauge_steps [vec_intros]: "vec_ok g \<Longrightarrow> vec_ok (gauge_Inc ls g)" "vec_ok g \<Longrightarrow> vec_ok (gauge_Dec ls g)"
  by (simp_all add: gauge_Inc_def gauge_Dec_def vec_intros)

lemma histogram_ok_Observe [vec_intros]: "histogram_ok h \<Longrightarrow> histogram_ok (Observe v ls h)"
  by (auto simp: histogram_ok_def Observe_def observe_child_def Let_def intro!: list_all_put split: option.split dest: list_all_lookup)

lemma vec_ok_New: "names_ok name keys \<Longrightarrow> vec_ok (NewVec name info keys)"
  by (simp add: vec_ok_def NewVec_def)

lemma histogram_ok_New: "names_ok name keys \<Longrightarrow> histogram_ok (NewHistogramVec name info buckets keys)"
  by (simp add: histogram_ok_def NewHistogramVec_def)

subsection \<open>Lines\<close>

text \<open>Text that needs no escape, as the digits of a number.\<close>

definition plain :: "string \<Rightarrow> bool" where
  "plain s \<longleftrightarrow> list_all (\<lambda>c. byte c \<noteq> 0x5C \<and> byte c \<noteq> 0x22 \<and> byte c \<noteq> 0x0A) s"

definition label_pair :: "string \<times> string \<Rightarrow> string" where
  "label_pair = (\<lambda>(n, v). n @ ''='' @ in_quotes (escapeLabelValue v))"

fun sample_line :: "sample \<Rightarrow> string" where
  "sample_line (n, ps, v) = n @ (if ps = [] then [] else ''{'' @ join '','' (map label_pair ps) @ ''}'') @ '' '' @ v"

fun sample_ok :: "sample \<Rightarrow> bool" where
  "sample_ok (n, ps, v) \<longleftrightarrow> metric_name n \<and> list_all (\<lambda>(k, _). metric_name k) ps \<and> plain v"

lemma escape_plain: "plain s \<Longrightarrow> escapeLabelValue s = s"
  by (induction s) (simp_all add: plain_def escapeLabelValue_def escape_with_def)

lemma escape_no_newline: "CHR 0x0A \<notin> set (escapeLabelValue s)" "CHR 0x0A \<notin> set (escapeHelp s)"
  by (induction s) (auto simp: escapeLabelValue_def escapeHelp_def escape_with_def backslash_def byte_eq_iff [symmetric])

lemma metric_name_chars:
  assumes "metric_name n"
  shows "c \<in> set n \<Longrightarrow> c \<noteq> CHR ''='' \<and> c \<noteq> CHR ''{'' \<and> c \<noteq> CHR '' '' \<and> c \<noteq> CHR ''#'' \<and> c \<noteq> CHR 0x0A" "n \<noteq> []"
  using assms by (auto simp: metric_name_def list_all_iff is_alnum_def is_alpha_def is_upper_def is_lower_def is_digit_def)

lemma takeWhile_name:
  assumes "metric_name n"
  shows "takeWhile (\<lambda>c. c \<noteq> CHR ''='') (n @ CHR ''='' # s) = n"
    "takeWhile (\<lambda>c. c \<noteq> CHR ''{'' \<and> c \<noteq> CHR '' '') (n @ CHR '' '' # s) = n"
    "takeWhile (\<lambda>c. c \<noteq> CHR ''{'' \<and> c \<noteq> CHR '' '') (n @ CHR ''{'' # s) = n"
  using metric_name_chars(1) [OF assms] by (simp_all add: takeWhile_append2)

lemma read_pair:
  assumes "metric_name n"
  shows "read_pairs (label_pair (n, v) @ c # u) =
    (if c = CHR ''}'' then Some ([(n, v)], u) else if c = CHR '','' then map_option (\<lambda>(ps, x). ((n, v) # ps, x)) (read_pairs u) else None)"
proof -
  have "label_pair (n, v) @ c # u = n @ CHR ''='' # CHR 0x22 # escapeLabelValue v @ [CHR 0x22] @ c # u"
    by (simp add: label_pair_def in_quotes_def)
  then show ?thesis
    by (subst read_pairs.simps) (simp add: takeWhile_name [OF assms] label_value_roundtrip [of v "c # u", simplified] Let_def)
qed

lemma read_pairs_join:
  "ps \<noteq> [] \<Longrightarrow> list_all (\<lambda>(k, _). metric_name k) ps \<Longrightarrow> read_pairs (join '','' (map label_pair ps) @ CHR ''}'' # u) = Some (ps, u)"
proof (induction ps)
  case (Cons p ps)
  obtain n v where p: "p = (n, v)" by (cases p)
  show ?case
  proof (cases "ps = []")
    case True
    with Cons.prems p show ?thesis by (simp add: read_pair)
  next
    case False
    with Cons p read_pair [of n v "CHR '',''" "join '','' (map label_pair ps) @ CHR ''}'' # u"] show ?thesis
      by (simp add: join_Cons)
  qed
qed simp

lemma read_sample_line: "sample_ok s \<Longrightarrow> read_sample (sample_line s) = Some s"
proof (cases s)
  case (fields n ps v)
  assume "sample_ok s"
  then have n: "metric_name n" "list_all (\<lambda>(k, _). metric_name k) ps" by (simp_all add: fields)
  show ?thesis
  proof (cases "ps = []")
    case True
    then show ?thesis using takeWhile_name(2) [OF n(1)] by (simp add: fields read_sample_def)
  next
    case False
    have "sample_line s = n @ CHR ''{'' # join '','' (map label_pair ps) @ CHR ''}'' # CHR '' '' # v"
      using False by (simp add: fields)
    then show ?thesis using takeWhile_name(3) [OF n(1)] read_pairs_join [OF False n(2)]
      by (simp add: fields read_sample_def)
  qed
qed

lemma sample_line_one_line:
  assumes "sample_ok s"
  shows "CHR 0x0A \<notin> set (sample_line s)" "sample_line s \<noteq> []" "hd (sample_line s) \<noteq> CHR ''#''"
proof -
  obtain n ps v where s: "s = (n, ps, v)" by (cases s)
  have ok: "metric_name n" "list_all (\<lambda>(k, _). metric_name k) ps" "plain v" using assms by (simp_all add: s)
  have "CHR 0x0A \<notin> set (label_pair p)" if "p \<in> set ps" for p
  proof -
    have "metric_name (fst p)" using ok(2) that by (auto simp: list_all_iff)
    then have "CHR 0x0A \<notin> set (fst p)" using metric_name_chars(1) by blast
    then show ?thesis using escape_no_newline(1) by (auto simp: label_pair_def in_quotes_def split: prod.split)
  qed
  then have "CHR 0x0A \<notin> set (join '','' (map label_pair ps))"
    using set_join [of "'',''" "map label_pair ps"] by auto
  moreover have "CHR 0x0A \<notin> set v" using ok(3) by (auto simp: plain_def list_all_iff)
  ultimately show "CHR 0x0A \<notin> set (sample_line s)" using metric_name_chars(1) [OF ok(1)] by (auto simp: s)
  show "sample_line s \<noteq> []" "hd (sample_line s) \<noteq> CHR ''#''"
    using metric_name_chars [OF ok(1)] by (auto simp: s hd_append)
qed

subsection \<open>Pages\<close>

lemma read_page_line:
  "CHR 0x0A \<notin> set l \<Longrightarrow> read_page (l @ CHR 0x0A # t) = (if l = [] \<or> hd l = CHR ''#'' then [] else [read_sample l]) @ read_page t"
  by (simp add: read_page_def split_byte_append)

lemma read_page_samples:
  "list_all sample_ok ss \<Longrightarrow> read_page (concat (map (\<lambda>s. sample_line s @ newline) ss) @ t) = map Some ss @ read_page t"
  by (induction ss) (simp_all add: newline_def read_page_line sample_line_one_line read_sample_line)

lemma read_page_header:
  assumes "metric_name name" "metric_name typ"
  shows "read_page (writeHeader name info typ @ t) = read_page t"
proof -
  have "CHR 0x0A \<notin> set (''# HELP '' @ name @ '' '' @ escapeHelp info)" "CHR 0x0A \<notin> set (''# TYPE '' @ name @ '' '' @ typ)"
    using metric_name_chars(1) [OF assms(1)] metric_name_chars(1) [OF assms(2)] escape_no_newline(2) by auto
  from read_page_line [OF this(1)] read_page_line [OF this(2)] show ?thesis
    by (simp add: writeHeader_def newline_def)
qed

lemma metric_name_suffix: "metric_name n \<Longrightarrow> list_all (\<lambda>c. is_alnum c \<or> c = CHR ''_'') t \<Longrightarrow> metric_name (n @ t)"
  by (auto simp: metric_name_def)

lemma metric_name_suffixes:
  assumes "metric_name n"
  shows "metric_name (n @ ''_bucket'')" "metric_name (n @ ''_sum'')" "metric_name (n @ ''_count'')"
  by (rule metric_name_suffix [OF assms]; code_simp)+

lemma metric_names: "metric_name ''le''" "metric_name ''counter''" "metric_name ''gauge''" "metric_name ''histogram''"
  by code_simp+

lemma plain_number: "plain (itoa n)" "plain ''+Inf''"
  using itoa_chars [of _ n] by (fastforce simp: plain_def list_all_iff is_digit_def)+

lemma zip_names: "list_all P ns \<Longrightarrow> list_all (\<lambda>(k, _). P k) (zip ns vs)"
  by (auto simp: list_all_iff dest: set_zip_leftD)

lemma writeLabels_line: "length vs = length ns \<Longrightarrow> n @ writeLabels ns vs @ '' '' @ t = sample_line (n, zip ns vs, t)"
  by (cases ns; cases vs) (simp_all add: writeLabels_def label_pair_def)

lemma writeBucketLabels_line: "plain le \<Longrightarrow> n @ writeBucketLabels ns vs le @ '' '' @ t = sample_line (n, zip ns vs @ [(''le'', le)], t)"
proof -
  assume le: "plain le"
  have "concat (map (\<lambda>(n, v). n @ ''='' @ in_quotes (escapeLabelValue v) @ '','') ps) @ x = join '','' (map label_pair ps @ [x])" for ps x
    by (induction ps) (auto simp: label_pair_def join_Cons)
  from this [of "zip ns vs" "label_pair (''le'', le)"] show ?thesis
    by (simp add: writeBucketLabels_def escape_plain [OF le] label_pair_def)
qed

text \<open>The text of a vector is its header and a line per sample.\<close>

lemma vec_text:
  assumes "vec_ok c" "\<And>x. plain (fmt x)"
  shows "vec_writeTo fmt typ c = writeHeader (vName c) (vHelp c) typ @ concat (map (\<lambda>s. sample_line s @ newline) (vec_samples fmt c))"
    "list_all sample_ok (vec_samples fmt c)"
proof -
  have len: "length (chLabels ch) = length (vLabels c)" if "ch \<in> set (map snd (vValues c))" for ch
    using assms(1) that by (auto simp: vec_ok_def list_all_iff)
  have "concat (map (\<lambda>ch. vName c @ writeLabels (vLabels c) (chLabels ch) @ '' '' @ fmt (chValue ch) @ newline) chs) =
      concat (map (\<lambda>ch. sample_line (vName c, zip (vLabels c) (chLabels ch), fmt (chValue ch)) @ newline) chs)"
    if "set chs \<subseteq> set (map snd (vValues c))" for chs
    using that
  proof (induction chs)
    case (Cons ch chs)
    then have "length (chLabels ch) = length (vLabels c)" using len by simp
    from writeLabels_line [OF this, of "vName c" "fmt (chValue ch) @ newline"] Cons show ?case by simp
  qed simp
  then show "vec_writeTo fmt typ c = writeHeader (vName c) (vHelp c) typ @ concat (map (\<lambda>s. sample_line s @ newline) (vec_samples fmt c))"
    by (simp add: vec_writeTo_def vec_samples_def comp_def)
  show "list_all sample_ok (vec_samples fmt c)"
    using assms by (auto simp: vec_samples_def vec_ok_def names_ok_def list_all_iff dest: set_zip_leftD)
qed

lemma child_text:
  assumes "names_ok (hvName h) (hvLabels h)" "length (hcLabels ch) = length (hvLabels h)" "\<And>x. plain (fmt x)"
  shows "histogram_lines fmt h ch = concat (map (\<lambda>s. sample_line s @ newline) (child_samples fmt h ch))"
    "list_all sample_ok (child_samples fmt h ch)"
proof -
  have bucket: "hvName h @ ''_bucket'' @ writeBucketLabels (hvLabels h) (hcLabels ch) le @ '' '' @ t @ newline =
      sample_line (hvName h @ ''_bucket'', zip (hvLabels h) (hcLabels ch) @ [(''le'', le)], t) @ newline" if "plain le" for le t
    using writeBucketLabels_line [OF that, of "hvName h @ ''_bucket''" "hvLabels h" "hcLabels ch" "t @ newline"] by simp
  have total: "hvName h @ x @ writeLabels (hvLabels h) (hcLabels ch) @ '' '' @ t @ newline =
      sample_line (hvName h @ x, zip (hvLabels h) (hcLabels ch), t) @ newline" for x t
    using writeLabels_line [OF assms(2), of "hvName h @ x" "t @ newline"] by simp
  have "concat (map (\<lambda>(ub, n). hvName h @ ''_bucket'' @ writeBucketLabels (hvLabels h) (hcLabels ch) (fmt ub) @ '' '' @
         itoa (unat n) @ newline) bs) =
      concat (map ((\<lambda>s. sample_line s @ newline) \<circ> (\<lambda>(ub, n).
        (hvName h @ ''_bucket'', zip (hvLabels h) (hcLabels ch) @ [(''le'', fmt ub)], itoa (unat n)))) bs)" for bs
    using bucket [OF assms(3)] by (induction bs) auto
  moreover note bucket [OF plain_number(2), of "itoa (unat (hcCount ch))"] total [of "''_sum''" "fmt (hcSum ch)"]
    total [of "''_count''" "itoa (unat (hcCount ch))"]
  ultimately show "histogram_lines fmt h ch = concat (map (\<lambda>s. sample_line s @ newline) (child_samples fmt h ch))"
    by (simp add: histogram_lines_def child_samples_def Let_def del: sample_line.simps)
  have "metric_name (hvName h)" "list_all metric_name (hvLabels h)" using assms(1) by (simp_all add: names_ok_def)
  then show "list_all sample_ok (child_samples fmt h ch)"
    using assms(3) zip_names [of metric_name "hvLabels h" "hcLabels ch"]
    by (auto simp: child_samples_def Let_def metric_name_suffixes metric_names plain_number list_all_iff [of _ "map _ _"])
qed

lemma vector_text:
  assumes "vector_ok v" "\<And>x. plain (fmt x)"
  shows "read_page (vector_writeTo fmt v @ t) = map Some (samples fmt v) @ read_page t"
proof -
  have vec: "read_page (vec_writeTo fmt ty c @ t) = map Some (vec_samples fmt c) @ read_page t" if "vec_ok c" "metric_name ty" for c ty
  proof -
    have "metric_name (vName c)" using that(1) by (simp add: vec_ok_def names_ok_def)
    with that(2) show ?thesis
      by (simp add: vec_text(1) [OF that(1) assms(2)] vec_text(2) [OF that(1) assms(2)] read_page_header read_page_samples)
  qed
  show ?thesis
  proof (cases v)
    case (HistogramVec h)
    then have h: "names_ok (hvName h) (hvLabels h)" "metric_name (hvName h)" using assms(1) by (simp_all add: histogram_ok_def names_ok_def)
    have len: "ch \<in> set (map snd (hvValues h)) \<Longrightarrow> length (hcLabels ch) = length (hvLabels h)" for ch
      using assms(1) by (auto simp: HistogramVec histogram_ok_def list_all_iff)
    have "read_page (concat (map (histogram_lines fmt h) chs) @ t) = map Some (concat (map (child_samples fmt h) chs)) @ read_page t"
      if "set chs \<subseteq> set (map snd (hvValues h))" for chs
      using that by (induction chs) (simp_all add: child_text [OF h(1) len assms(2)] read_page_samples)
    then show ?thesis by (simp add: HistogramVec histogram_writeTo_def read_page_header h(2) metric_names)
  qed (use assms(1) vec metric_names in simp_all)
qed

lemma page_text:
  assumes "list_all vector_ok vecs" "\<And>x. plain (fmt x)"
  shows "read_page (concat (map (vector_writeTo fmt) vecs)) = map Some (concat (map (samples fmt) vecs))"
  using assms(1) by (induction vecs) (simp_all add: vector_text [OF _ assms(2)], simp add: read_page_def)

subsection \<open>The service\<close>

definition collectors_wf :: "'f httpCollectors \<Rightarrow> bool" where
  "collectors_wf c \<longleftrightarrow> vec_ok (colRequests c) \<and> vec_ok (colInFlight c) \<and> histogram_ok (colDuration c)"

lemma collectors_wf_New: "collectors_wf (NewHTTPCollectors buckets)"
proof -
  have "names_ok ''bumshi_http_requests_total'' [''method'', ''code'']" "names_ok ''bumshi_http_requests_in_flight'' []"
    "names_ok ''bumshi_http_request_duration_seconds'' [''method'']"
    by code_simp+
  then show ?thesis by (simp add: collectors_wf_def NewHTTPCollectors_def vec_ok_New histogram_ok_New)
qed

lemma control_plane_wf:
  assumes "keeps_collectors h" "collectors_wf (nCollectors n)"
  shows "collectors_wf (nCollectors (fst (control_plane rand now elapsed enabled h r n)))"
proof -
  let ?inner = "Recoverer (SecurityHeaders (AccessLog enabled h))"
  have keep: "nCollectors (fst (?inner r m)) = nCollectors m" for r m
    using keeps_middleware(3) [OF keeps_middleware(2) [OF keeps_middleware(1) [OF assms(1), of enabled]]]
    by (simp add: keeps_collectors_def)
  obtain rid n1 where cp: "control_plane rand now elapsed enabled h r n = MetricsMW elapsed ?inner (r\<lparr>rRequestID := rid\<rparr>) n1"
    and n1: "nCollectors n1 = nCollectors n"
    by (simp add: control_plane_def Chain_def RequestID_def Let_def)
  from assms(2) show ?thesis
    by (simp add: cp MetricsMW_def Let_def split_def keep n1 collectors_wf_def vec_intros)
qed

lemma dispatch_collectors: "keeps_collectors (main_dispatch sv e)"
  by (auto simp: keeps_collectors_def main_dispatch_def on_response_def run_proxy_def Let_def
      split: mux_result.split main_route.split option.split)

text \<open>Requests to the public listener, one after the other, each with its surroundings and duration.\<close>

definition visits :: "server \<Rightarrow> (surroundings \<times> 'f::linordered_idom \<times> ctx_request) list \<Rightarrow> ('f, service) conn \<Rightarrow> ('f, service) conn" where
  "visits sv = fold (\<lambda>(e, elapsed, r) n. fst (serve_main sv e elapsed r (n\<lparr>nWriter := fresh_writer\<rparr>)))"

lemma visits_wf: "collectors_wf (nCollectors n) \<Longrightarrow> collectors_wf (nCollectors (visits sv vs n))"
proof (induction vs arbitrary: n)
  case (Cons v vs)
  obtain e elapsed r where v: "v = (e, elapsed, r)" by (cases v)
  have "collectors_wf (nCollectors (fst (serve_main sv e elapsed r (n\<lparr>nWriter := fresh_writer\<rparr>))))"
    unfolding serve_main_def using Cons.prems by (intro control_plane_wf dispatch_collectors) simp
  from Cons.IH [OF this] show ?case by (simp add: visits_def v)
qed (simp add: visits_def)

lemma record_proxy_wf:
  fixes buckets :: "'f::linordered_idom list"
  shows "vec_ok (coRequests (record_proxy ends waits (NewCollectors buckets)))"
    "histogram_ok (coUpstream (record_proxy ends waits (NewCollectors buckets)))"
proof -
  have names: "names_ok ''bumshi_proxy_requests_total'' [''outcome'']" "names_ok ''bumshi_proxy_upstream_duration_seconds'' []"
    by code_simp+
  have "vec_ok c \<Longrightarrow> vec_ok (fold (\<lambda>x. counter_Inc [x]) ends c)" for c :: "'f vec" and ends
    by (induction ends arbitrary: c) (simp_all add: vec_intros)
  with names(1) show "vec_ok (coRequests (record_proxy ends waits (NewCollectors buckets)))"
    by (simp add: record_proxy_def NewCollectors_def vec_ok_New)
  have "histogram_ok h \<Longrightarrow> histogram_ok (fold (\<lambda>t. Observe t []) waits h)" for h :: "'f histogramVec" and waits
    by (induction waits arbitrary: h) (simp_all add: vec_intros)
  with names(2) show "histogram_ok (coUpstream (record_proxy ends waits (NewCollectors buckets)))"
    by (simp add: record_proxy_def NewCollectors_def histogram_ok_New)
qed

lemma metrics_route:
  assumes "rMethod q = ''GET''" "rURL q = empty_url\<lparr>Path := ''/metrics''\<rparr>"
  shows "metrics_dispatch fmt vecs q w = registry_Handler fmt vecs w"
proof -
  let ?q = "request.truncate (sample_ctx ''/metrics'')"
  have "mux_find routes q = mux_find routes ?q" for routes :: "unit route list"
    using assms by (simp add: mux_find_def sample_ctx_def request.truncate_def)
  moreover have "case register_all [(''GET /metrics'', ())] of None \<Rightarrow> False
      | Some routes \<Rightarrow> (case mux_find routes ?q of MuxHandler _ _ \<Rightarrow> True | _ \<Rightarrow> False)"
    by code_simp
  ultimately show ?thesis by (auto simp: metrics_dispatch_def split: option.splits mux_result.splits)
qed

text \<open>
  C22.  The metrics page says what happened.  After any requests to the public listener, with whatever
  methods a client makes up, the text of the metrics page reads back as the series recorded and nothing
  else, provided numbers print without quotes, backslashes and newlines; and the counter of an outcome of
  the proxy is the number of requests that ended with it.
\<close>

theorem metrics_page:
  fixes buckets :: "'f::linordered_idom list"
  assumes "\<And>x. plain (fmt x)" "nCollectors n = NewHTTPCollectors buckets"
    "rMethod q = ''GET''" "rURL q = empty_url\<lparr>Path := ''/metrics''\<rparr>" "m = visits sv vs n"
    "px = record_proxy (seOutcomes (nState m)) waits (NewCollectors buckets)"
    "vecs = service_registry (nCollectors m) (if srProxy sv = None then None else Some px)"
  shows "read_page (wBody (metrics_dispatch fmt vecs q fresh_writer)) = map Some (concat (map (samples fmt) vecs)) \<and>
    series (coRequests px) [result] = of_nat (count_list (seOutcomes (nState m)) result)"
proof
  have "collectors_wf (nCollectors m)" unfolding assms(5) using visits_wf collectors_wf_New assms(2) by metis
  then have "list_all vector_ok vecs"
    by (auto simp: assms(6,7) service_registry_def NewRegistry_def register_def Let_def collectors_wf_def record_proxy_wf)
  from page_text [OF this assms(1)] show "read_page (wBody (metrics_dispatch fmt vecs q fresh_writer)) = map Some (concat (map (samples fmt) vecs))"
    by (simp add: metrics_route [OF assms(3,4)] registry_Handler_def Write_def WriteHeader_def hset_def fresh_writer_def Let_def)
  have labels: "vLabels (counter_Inc ls c) = vLabels c" for ls and c :: "'f vec"
    by (simp add: counter_Inc_def counter_Add_def Let_def)
  have "series (fold (\<lambda>x. counter_Inc [x]) ends c) [result] = series c [result] + of_nat (count_list ends result)"
    if "length (vLabels c) = 1" for ends and c :: "'f vec"
    using that
  proof (induction ends arbitrary: c)
    case (Cons x ends)
    have "series (counter_Inc [x] c) [result] = series c [result] + (if x = result then 1 else 0)"
      using Cons.prems by (simp add: counter_Inc_def series_counter labelKey_def)
    with Cons.IH [of "counter_Inc [x] c"] Cons.prems show ?case by (simp add: labels)
  qed simp
  then show "series (coRequests px) [result] = of_nat (count_list (seOutcomes (nState m)) result)"
    by (simp add: assms(6) record_proxy_def NewCollectors_def NewVec_def series_def)
qed

theorem metrics_page_witness:
  "case started panel_only toggled_on of None \<Rightarrow> False
   | Some (sv, s) \<Rightarrow>
       (let m = visits sv [(sample_surroundings, 3 :: int, sample_ctx ''/x'')] (new_conn s);
            px = record_proxy (seOutcomes (nState m)) [] (NewCollectors []);
            vecs = service_registry (nCollectors m) (if srProxy sv = None then None else Some px);
            fmt = (\<lambda>x. itoa (nat x))
        in read_page (wBody (metrics_dispatch fmt vecs (request.truncate (sample_ctx ''/metrics'')) fresh_writer)) =
           map Some (concat (map (samples fmt) vecs)))"
proof -
  have "rMethod (request.truncate (sample_ctx ''/metrics'')) = ''GET''"
    "rURL (request.truncate (sample_ctx ''/metrics'')) = empty_url\<lparr>Path := ''/metrics''\<rparr>"
    by (simp_all add: sample_ctx_def request.truncate_def)
  note page = metrics_page [where fmt = "\<lambda>x. itoa (nat x)" and buckets = "[]" and waits = "[]", OF plain_number(1) _ this refl refl refl]
  obtain sv s where start: "started panel_only toggled_on = Some (sv, s)"
    using open_relay_after_toggle by (auto split: option.splits)
  have "nCollectors (new_conn s) = NewHTTPCollectors []" by (simp add: new_conn_def)
  from page [OF this] show ?thesis by (simp add: start Let_def)
qed

text \<open>
  A method that a client makes up is a series of its own, and none is ever dropped: the vectors grow with
  the number of different methods that anybody has sent.
\<close>

definition has_series :: "string \<Rightarrow> ('f, 's) conn \<Rightarrow> bool" where
  "has_series verb n \<longleftrightarrow> map_of (hvValues (colDuration (nCollectors n))) verb \<noteq> None"

definition method_label :: "('f, 's) conn \<Rightarrow> bool" where
  "method_label n \<longleftrightarrow> length (hvLabels (colDuration (nCollectors n))) = 1"

lemma method_step:
  assumes "method_label n"
  shows "has_series (rMethod r) (fst (serve_main sv e elapsed r n))" "method_label (fst (serve_main sv e elapsed r n))"
    "has_series verb n \<Longrightarrow> has_series verb (fst (serve_main sv e elapsed r n))"
proof -
  let ?inner = "Recoverer (SecurityHeaders (AccessLog (Some (\<lambda>s. stAccessLog (pnSettings (sePanel s)))) (main_dispatch sv e)))"
  have keep: "nCollectors (fst (?inner q m)) = nCollectors m" for q m
    using keeps_middleware(3) [OF keeps_middleware(2) [OF keeps_middleware(1) [OF dispatch_collectors [of sv e]]]]
    unfolding keeps_collectors_def by blast
  obtain rid k where cp: "serve_main sv e elapsed r n = MetricsMW elapsed ?inner (r\<lparr>rRequestID := rid\<rparr>) k"
    and k: "nCollectors k = nCollectors n"
    by (simp add: serve_main_def control_plane_def Chain_def RequestID_def Let_def)
  note defs = cp MetricsMW_def Let_def split_def keep k Observe_def labelKey_def update_conv' has_series_def method_label_def
  show "has_series (rMethod r) (fst (serve_main sv e elapsed r n))" "method_label (fst (serve_main sv e elapsed r n))"
    "has_series verb n \<Longrightarrow> has_series verb (fst (serve_main sv e elapsed r n))"
    using assms by (simp_all add: defs)
qed

lemma visits_series:
  "method_label n \<Longrightarrow> has_series verb n \<or> List.member (map (\<lambda>(e, elapsed, r). rMethod r) vs) verb \<Longrightarrow> has_series verb (visits sv vs n)"
proof (induction vs arbitrary: n)
  case (Cons v vs)
  obtain e elapsed r where v: "v = (e, elapsed, r)" by (cases v)
  let ?n = "n\<lparr>nWriter := fresh_writer\<rparr>"
  have n: "method_label ?n" "has_series verb n \<Longrightarrow> has_series verb ?n" using Cons.prems(1) by (simp_all add: method_label_def has_series_def)
  have "has_series verb (fst (serve_main sv e elapsed r ?n)) \<or> List.member (map (\<lambda>(e, elapsed, r). rMethod r) vs) verb"
    using Cons.prems(2) n method_step(1,3) by (auto simp: v)
  from Cons.IH [OF method_step(2) [OF n(1)] this] show ?case by (simp add: visits_def v)
qed (simp add: visits_def)

end
