(* ===== verification/Bumshid.thy ===== *)
theory Bumshid
  imports Server
begin

section \<open>The command (cmd/bumshid)\<close>

text \<open>
  The uses of the program.  \<open>read_line\<close> takes what the standard input yields and whether it then fails
  with something other than its end; \<open>life\<close> gives what \<open>Run\<close> returns for the server in the end.  An
  error is a value, without the words around it, and a \<open>start_note\<close> is a call of the logger.
\<close>

datatype command_error = ReadPassword | EmptyPassword | NoSalt

datatype run_error = LoadConfig config_error | RunServer string

datatype start_note = Starting build_info string string string bool | AccessLogInProduction | StoppedCleanly

datatype ending =
    Printed string
  | CommandFailed command_error
  | UnknownCommand string
  | Stopped
  | Fatal run_error
  | Panicked

fun exit_code :: "ending \<Rightarrow> nat" where
  "exit_code (Printed out) = 0"
| "exit_code (CommandFailed err) = 1"
| "exit_code (UnknownCommand cmd) = 2"
| "exit_code Stopped = 0"
| "exit_code (Fatal err) = 1"
| "exit_code Panicked = 2"

subsection \<open>Hashing a password\<close>

text \<open>\<open>bufio.Reader.ReadString\<close> up to a newline, and \<open>strings.TrimRight\<close> of carriage returns and newlines.\<close>

definition read_line :: "bytes \<times> bool \<Rightarrow> bytes option" where
  "read_line = (\<lambda>(data, failed).
     case index_byte data CHR 0x0A of
       Some i \<Rightarrow> Some (take (Suc i) data)
     | None \<Rightarrow> if failed then None else Some data)"

definition trim_line :: "bytes \<Rightarrow> bytes" where
  "trim_line line = rev (dropWhile (\<lambda>c. c = CHR 0x0D \<or> c = CHR 0x0A) (rev line))"

definition hashPasswordCmd :: "(bytes \<Rightarrow> bytes \<Rightarrow> bytes) \<Rightarrow> bytes option \<Rightarrow> bytes \<times> bool \<Rightarrow> command_error + string" where
  "hashPasswordCmd hmac rand stdin =
     (case read_line stdin of
        None \<Rightarrow> Inl ReadPassword
      | Some line \<Rightarrow>
          let password = trim_line line in
          if password = [] then Inl EmptyPassword
          else case HashPassword hmac rand password of None \<Rightarrow> Inl NoSalt | Some hash \<Rightarrow> Inr (hash @ newline))"

subsection \<open>Serving\<close>

definition start_notes :: "build_info \<Rightarrow> config \<Rightarrow> start_note list" where
  "start_notes info cfg =
     Starting info (cfEnv cfg) (cfListenAddr cfg) (cfMetricsAddr cfg) (cfAccessLog cfg) #
     (if cfAccessLog cfg \<and> IsProduction cfg then [AccessLogInProduction] else [])"

record machine =
  mcArgs :: "string list"
  mcEnv :: env
  mcStdin :: "bytes \<times> bool"
  mcSalt :: "bytes option"
  mcDurations :: "string \<Rightarrow> int option"
  mcLibrary :: library
  mcFaults :: "bool \<times> bool"
  mcNow :: int
  mcDisk :: disk

definition bumshid_run :: "machine \<Rightarrow> (server \<Rightarrow> service \<Rightarrow> string option) \<Rightarrow> start_note list \<times> ending" where
  "bumshid_run mc life =
     (case Load (mcDurations mc) (mcEnv mc) of
        Inl err \<Rightarrow> ([], Fatal (LoadConfig err))
      | Inr cfg \<Rightarrow>
          let notes = start_notes (lbBuild (mcLibrary mc)) cfg in
          case server_New (mcLibrary mc) cfg (mcFaults mc) (mcNow mc) (mcDisk mc) of
            None \<Rightarrow> (notes, Panicked)
          | Some (sv, s) \<Rightarrow>
              (case life sv s of
                 Some err \<Rightarrow> (notes, Fatal (RunServer err))
               | None \<Rightarrow> (notes @ [StoppedCleanly], Stopped)))"

definition bumshid_main :: "machine \<Rightarrow> (server \<Rightarrow> service \<Rightarrow> string option) \<Rightarrow> start_note list \<times> ending" where
  "bumshid_main mc life =
     (case mcArgs mc of
        _ # cmd # _ \<Rightarrow>
          if cmd = ''hash-password'' then
            (case hashPasswordCmd (lbHmac (mcLibrary mc)) (mcSalt mc) (mcStdin mc) of
               Inl err \<Rightarrow> ([], CommandFailed err) | Inr out \<Rightarrow> ([], Printed out))
          else if cmd = ''version'' \<or> cmd = ''--version'' \<or> cmd = ''-v'' then
            (let info = lbBuild (mcLibrary mc) in
             ([], Printed (''bumshid '' @ biVersion info @ '' (commit '' @ biCommit info @ '', '' @ biGoVersion info @ '')'' @ newline)))
          else ([], UnknownCommand cmd)
      | _ \<Rightarrow> bumshid_run mc life)"

subsection \<open>A hash made by the command starts the panel\<close>

lemma trim_line_newline: "pw \<noteq> [] \<Longrightarrow> last pw \<noteq> CHR 0x0D \<Longrightarrow> last pw \<noteq> CHR 0x0A \<Longrightarrow> trim_line (pw @ newline) = pw"
  by (cases pw rule: rev_cases) (simp_all add: trim_line_def newline_def)

lemma read_line_first: "CHR 0x0A \<notin> set pw \<Longrightarrow> read_line (pw @ newline @ rest, failed) = Some (pw @ newline)"
  by (induction pw) (auto simp: read_line_def newline_def split: option.splits)

text \<open>
  C17.  The line printed for a password that is typed is a hash with which the panel starts, and which the
  login then accepts for that password and exactly those others that derive the same key.
\<close>

theorem hash_command:
  assumes "\<And>k m. length (lbHmac lb k m) = 32" "pw \<noteq> []" "CHR 0x0A \<notin> set pw" "last pw \<noteq> CHR 0x0D"
  shows "\<exists>hash. hashPasswordCmd (lbHmac lb) (Some salt) (pw @ newline @ rest, failed) = Inr (hash @ newline) \<and>
    buildAdmin lb (cfg\<lparr>cfAdminEnabled := True, cfAdminPasswordHash := hash\<rparr>) now =
      ([], Some (panel_options lb (cfg\<lparr>cfAdminEnabled := True, cfAdminPasswordHash := hash\<rparr>) now)) \<and>
    VerifyPassword (lbHmac lb) hash candidate =
      Inr (rfc_PBKDF2 (lbHmac lb candidate) salt 600000 32 = rfc_PBKDF2 (lbHmac lb pw) salt 600000 32)"
proof -
  obtain hash where hash: "HashPassword (lbHmac lb) (Some salt) pw = Some hash" by (simp add: HashPassword_def)
  have "last pw \<noteq> CHR 0x0A" using assms(2,3) last_in_set by metis
  with assms have "hashPasswordCmd (lbHmac lb) (Some salt) (pw @ newline @ rest, failed) = Inr (hash @ newline)"
    by (simp add: hashPasswordCmd_def read_line_first trim_line_newline hash)
  moreover have verify: "VerifyPassword (lbHmac lb) hash c =
      Inr (rfc_PBKDF2 (lbHmac lb c) salt 600000 32 = rfc_PBKDF2 (lbHmac lb pw) salt 600000 32)" for c
    using made_hash [OF assms(1) hash] by blast
  moreover have "hash \<noteq> []" using hash by (auto simp: HashPassword_def hashScheme_def)
  ultimately show ?thesis by (simp add: buildAdmin_def verify)
qed

theorem hash_command_witness:
  "\<exists>hash. hashPasswordCmd toy_hmac (Some ''0123456789abcdef'') (''hunter2'' @ newline, False) = Inr (hash @ newline) \<and>
     VerifyPassword toy_hmac hash ''hunter2'' = Inr True"
proof -
  have "case Load (\<lambda>_. None) sample_env of Inl _ \<Rightarrow> False | Inr c \<Rightarrow> True" unfolding sample_env_def by code_simp
  then obtain cfg where "Load (\<lambda>_. None) sample_env = Inr cfg" by (auto split: sum.splits)
  have hmac: "lbHmac sample_library = toy_hmac" by (simp add: sample_library_def)
  have len: "\<And>k m. length (lbHmac sample_library k m) = 32" by (simp add: hmac length_toy_hmac)
  have pw: "''hunter2'' \<noteq> []" "CHR 0x0A \<notin> set ''hunter2''" "last ''hunter2'' \<noteq> CHR 0x0D" by simp_all
  from hash_command [OF len pw, where salt = "''0123456789abcdef''" and rest = "[]" and failed = False and candidate = "''hunter2''"
      and cfg = cfg]
  show ?thesis by (auto simp: hmac)
qed

end
