(* ===== verification/Spec2Isabelle.thy ===== *)
theory Spec2Isabelle
  imports Ssrf_Ranges Link_Roundtrip Cookie_Isolation Telemetry Html_Document Proxy_Identity Fetch
    Proxy_Flow Webengine Admin_Panel Auth_Password Config Httpx Service_Life Server_Run Routes Metrics_Page Bumshid
begin

text \<open>
  A verification library for bumshid, the Go server under \<open>src/server\<close>: a web proxy that serves
  other sites under its own origin, with an admin panel, metrics and health endpoints.  Paths below
  are relative to \<open>src/server/internal\<close>.

  \<^bold>\<open>The program and its theories.\<close>  A request for \<open>/p/<token>\<close> reaches the proxy handler.  The token
  names the target (\<open>Link\<close>, \<open>Link_Roundtrip\<close>: \<open>proxy/link\<close>).  The handler decides whether the request
  may be forwarded, forwards it, and rewrites what comes back (\<open>Proxy_State\<close>, \<open>Proxy_Handler\<close>,
  \<open>Proxy_Flow\<close>: \<open>proxy/proxy.go\<close>).  Headers are filtered and re-made in both directions
  (\<open>Proxy_Headers\<close>, \<open>Proxy_Identity\<close>), cookies live under per-site names in the one jar of the browser
  (\<open>Cookies\<close>, \<open>Cookie_Isolation\<close>: \<open>proxy/cookies.go\<close>), policies are translated (\<open>Csp\<close>:
  \<open>proxy/csp.go\<close>), beacons answered locally (\<open>Telemetry\<close>: \<open>proxy/telemetry.go\<close>), documents and
  stylesheets rewritten (\<open>Html_Scan\<close>, \<open>Html_Rewrite\<close>, \<open>Html_Safe\<close>, \<open>Html_Document\<close>: \<open>proxy/rewrite\<close>), the runtime's
  scripts inserted (\<open>Webengine\<close>: \<open>webengine\<close>), and an upgraded connection tunnelled (\<open>Websocket\<close>:
  \<open>proxy/websocket.go\<close>).  Every connection is dialled through the address guard (\<open>Ssrfguard\<close>,
  \<open>Ssrf_Ranges\<close>: \<open>proxy/ssrfguard\<close>; \<open>Fetch\<close>: \<open>proxy/fetch\<close>).  \<open>Proxy_Debug\<close> is the log of upstream
  requests (\<open>proxy/debug.go\<close>).  The panel (\<open>Admin\<close>, \<open>Admin_Panel\<close>, \<open>Panel_Inv\<close>, \<open>Panel_Life\<close>:
  \<open>admin/admin.go\<close>) rests on a login limiter, sessions and password hashes (\<open>Auth_Limiter\<close>,
  \<open>Auth_Session\<close>, \<open>Auth_Password\<close>: \<open>auth\<close>), the roster of access tokens that the proxy's gate
  consults (\<open>Admin_Roster\<close>: \<open>admin/accessusers.go\<close>) and the live switches (\<open>Settings\<close>: \<open>settings\<close>), whose
  files share one disk (\<open>Disk\<close>).
  Around the handlers stand the middleware and the collectors (\<open>Httpx\<close>: \<open>httpx\<close>; \<open>Metrics\<close>:
  \<open>metrics\<close>), beside them the probes and the version (\<open>Service_Info\<close>: \<open>health\<close>, \<open>version\<close>).
  \<open>Server\<close> builds all of this from the configuration (\<open>Config\<close>: \<open>config\<close>, \<open>logging\<close>) and serves the
  listeners; \<open>Server_Flow\<close>, \<open>Service_Inv\<close> and \<open>Service_Life\<close> are about requests to the whole, \<open>Server_Run\<close>
  about its start and shutdown, \<open>Routes\<close> about the paths it serves and \<open>Metrics_Page\<close> about what it counts
  (\<open>server\<close>).  \<open>Bumshid\<close> is the command (\<open>src/server/cmd/bumshid\<close>).

  \<^bold>\<open>Go.\<close>  \<open>Prelude\<close> has bytes, \<open>strings\<close> and \<open>strconv\<close>; \<open>Go_URL\<close>, \<open>Go_Base64\<close>, \<open>Go_Hex\<close>, \<open>Go_Utf8\<close>,
  \<open>Go_Unicode\<close> (the lower-case table and \<open>strings.ToLower\<close>, which policies depend on; elsewhere
  lowering is that of ASCII), \<open>Go_Json\<close>, \<open>Go_Mux\<close> and \<open>Http\<close> the parts of the standard library in use.  A Go string is a list of bytes, a header map or
  any other Go map an association list whose order is an order of iteration, so that a theorem for all
  lists is one for every order.  An error is the left side of a sum or \<open>None\<close>; a panic is a value of
  its own; a method with a pointer receiver returns the changed state.

  \<^bold>\<open>Parameters.\<close>  The random source is an argument of type \<open>bytes option\<close> (\<open>None\<close>: it fails), the
  clock an integer in nanoseconds, the case table of Unicode a function \<open>lower\<close>, HMAC-SHA256 a
  function \<open>hmac\<close> of which only the length of its result is assumed, the date parser of cookies the
  function \<open>expires\<close>, durations' parser the function \<open>dur\<close>.  The network is in the records \<open>handler\<close>
  (the HTTP client) and \<open>world\<close> (dials and upgrades).  Success of a file write or rename is a flag of
  the operation; the files of the switches and of the roster are on one disk, and \<open>files_apart\<close> is when
  their paths do not meet.  Embedded files are a function from names; \<open>http.ServeContent\<close>, the text of a time and
  the printable runes are functions too.  The records \<open>library\<close> and \<open>surroundings\<close> of \<open>Server\<close> gather
  what the service and a request take from outside.

  \<^bold>\<open>Lemmas.\<close>  Interfaces are locales, each interpreted on the code's definitions: \<open>byte_codec\<close> (base64),
  \<open>window_limiter\<close>, \<open>session_store\<close>, \<open>token_gate\<close>.  Reference definitions state what a routine
  is for: address ranges (\<open>Ssrf_Ranges\<close>), directives of a policy (\<open>Csp\<close>), DNS labels (\<open>Telemetry\<close>),
  RFC 8018 (\<open>Auth_Password\<close>), pieces of a document as HTML's syntax has them (\<open>Html_Document\<close>), header
  values (\<open>Proxy_Identity\<close>).
  \<open>Websocket\<close> has the two copiers of a tunnel as an inductive step relation, with writes that block on a
  peer that does not read and connections that break, an invariant over the reachable states and a bound
  on the steps that end it; \<open>Server_Run\<close> does the same for the goroutines of \<open>Run\<close>, and tells the steps
  of the program from those of the world around it.  \<open>Proxy_Flow\<close> composes the handler: what may be forwarded, that every request
  ends and is counted once, and what a text body becomes.  \<open>Admin_Panel\<close> does so for the panel: what a
  stranger learns, what a change takes, how often a password can be tried.  \<open>Server_Flow\<close> composes
  both: what leaves through the proxy while nobody knows the password.  \<open>Panel_Life\<close> has the abstract
  specification of the panel, a step per change of the switches or the roster, and the lemma that every
  request to the panel refines it; \<open>Service_Life\<close> lifts it to runs of the service and draws from it that
  a deleted user is locked out at once and that a restart finds what was left.  \<open>Routes\<close> compares the
  routing tree with a table of paths, \<open>Metrics_Page\<close> reads the text of the metrics back.

  \<^bold>\<open>Bounds.\<close>  Machine integers are words where wrap-around matters (addresses, hashes, times) and
  \<open>wrap64\<close> writes it out for the limited reader.  Loops are functions with a measure; the
  JSON decoder alone has a fuel, the length of its text (\<open>json_parse_complete\<close>: no more is ever needed).  The work of a
  copier is bounded by \<open>copy_work\<close>, from the bytes that remain to be read and written and the end.

  \<^bold>\<open>Not modelled.\<close>  Scheduling of goroutines other than the tunnel's and \<open>Run\<close>'s, mutexes (operations
  are atomic) and timeouts; TLS, DNS, signals and HTTP framing (the library's), errors in reading a
  request's body and \<open>OPTIONS *\<close>; the words of error messages and log lines; the browser runtime in
  JavaScript, the panel's pages, scripts, container and service files.
\<close>

end
